(* ===== verification/Cbyd_Prelude.thy ===== *)
theory Cbyd_Prelude
  imports Complex_Main "HOL-Library.Word"
begin

text \<open>
  Shared vocabulary of the development: names for the machine types of the C++ sources, the
  two collections of rewrite rules the component theories fill (\<open>cbyd_defs\<close>: unfoldings of
  one-line operations; \<open>cbyd_simps\<close>: consequences of component invariants), and the generic
  facts about lists, machine words and modular arithmetic that more than one component uses.

  Conventions used by every theory:
  \<^item> \<open>size_t\<close> and \<open>uint64_t\<close> are \<open>64 word\<close>, with the wrap-around of the C++ operators;
  \<^item> \<open>int\<close> is HOL \<open>int\<close>; a conversion \<open>(size_t)n\<close> is \<open>size_of_int\<close>, which wraps negatives;
  \<^item> \<open>float\<close> and \<open>double\<close> are idealised as \<open>real\<close>: rounding, infinities and NaN are
    outside the model;
  \<^item> a \<open>std::deque\<close> or \<open>std::vector\<close> is a list with the front at the head.
\<close>

named_theorems cbyd_defs
named_theorems cbyd_simps

type_synonym u64 = "64 word"
type_synonym size_t = "64 word"
type_synonym u8 = "8 word"

section \<open>Conversions of C++ integers\<close>

text \<open>The C++ conversion of a signed integer to \<open>size_t\<close>, as the number it denotes.\<close>

definition size_of_int :: "int \<Rightarrow> nat" where
  "size_of_int n = nat (n mod 2 ^ 64)"

lemma size_of_int_nonneg: "0 \<le> n \<Longrightarrow> n < 2 ^ 64 \<Longrightarrow> size_of_int n = nat n"
  by (simp add: size_of_int_def)

lemma size_of_int_neg: "k < 0 \<Longrightarrow> - (2 ^ 31) \<le> k \<Longrightarrow> size_of_int k = nat (k + 2 ^ 64)"
  using mod_pos_pos_trivial [of "k + 2 ^ 64" "2 ^ 64"] by (simp add: size_of_int_def)

lemma size_of_int_numeral [simp]:
  "size_of_int (numeral k) = nat (numeral k mod 2 ^ 64)"
  by (simp add: size_of_int_def)

lemma size_of_int_0 [simp]: "size_of_int 0 = 0"
  by (simp add: size_of_int_def)

lemma size_of_int_1 [simp]: "size_of_int 1 = 1"
  by (simp add: size_of_int_def)

section \<open>Modular arithmetic\<close>

text \<open>
  The distance from \<open>h\<close> forward to \<open>t\<close> on a ring of \<open>n\<close> positions.
\<close>

definition ring_dist :: "nat \<Rightarrow> nat \<Rightarrow> nat \<Rightarrow> nat" where
  "ring_dist n h t = (t + n - h) mod n"

lemma ring_dist_less [simp]: "0 < n \<Longrightarrow> ring_dist n h t < n"
  by (simp add: ring_dist_def)

lemma ring_dist_le: "h \<le> t \<Longrightarrow> ring_dist n h t = (t - h) mod n"
  by (metis ring_dist_def mod_add_self2 diff_add_assoc2)

lemma ring_dist_eq_0_iff:
  assumes "h < n" "t < n"
  shows "ring_dist n h t = 0 \<longleftrightarrow> h = t"
proof (cases "h \<le> t")
  case True
  with assms show ?thesis by (auto simp: ring_dist_le)
next
  case False
  with assms show ?thesis by (auto simp: ring_dist_def)
qed

lemma ring_dist_add:
  assumes "h < n" "k < n"
  shows "ring_dist n h ((h + k) mod n) = k"
proof (cases "h + k < n")
  case True
  then have "(h + k) mod n + n - h = k + n" by simp
  then show ?thesis using assms by (simp add: ring_dist_def)
next
  case False
  then have "(h + k) mod n = h + k - n" using assms by (simp add: mod_if)
  then show ?thesis using assms False by (simp add: ring_dist_def)
qed

lemma ring_dist_pos:
  assumes "h < n" "t < n"
  shows "(h + ring_dist n h t) mod n = t"
proof (cases "h \<le> t")
  case True
  with assms show ?thesis by (simp add: ring_dist_le)
next
  case False
  with assms show ?thesis by (simp add: ring_dist_def)
qed

lemma mod_add_inj:
  assumes "i < n" "j < n" "(h + i) mod n = (h + j) mod (n::nat)"
  shows "i = j"
proof -
  have "\<bar>int i - int j\<bar> < int n" using assms by simp
  moreover have "int n dvd (int h + int i) - (int h + int j)"
    using assms(3) by (metis mod_eq_dvd_iff of_nat_add of_nat_mod)
  then have "int n dvd int i - int j" by simp
  ultimately have "int i - int j = 0"
    using zdvd_imp_le [of "int n" "\<bar>int i - int j\<bar>"] by fastforce
  then show ?thesis by simp
qed

section \<open>Lists used as bounded windows\<close>

text \<open>
  Several components keep a window of the most recent \<open>n\<close> items: they push at the back and
  drop from the front. \<open>last_n n xs\<close> is the abstract content of such a window.
\<close>

definition last_n :: "nat \<Rightarrow> 'a list \<Rightarrow> 'a list" where
  "last_n n xs = drop (length xs - n) xs"

lemma length_last_n [simp]: "length (last_n n xs) = min n (length xs)"
  by (simp add: last_n_def)

lemma last_n_all [simp]: "length xs \<le> n \<Longrightarrow> last_n n xs = xs"
  by (simp add: last_n_def)

lemma last_n_snoc_last_n: "last_n n (last_n n xs @ [x]) = last_n n (xs @ [x])"
proof (cases "length xs \<le> n")
  case True
  then show ?thesis by simp
next
  case False
  then have "drop (length xs - n) xs @ [x] = drop (length xs - n) (xs @ [x])" by simp
  moreover have "length xs + 1 - n = 1 + (length xs - n)" using False by simp
  ultimately show ?thesis
    using False by (simp add: last_n_def)
qed

lemma set_last_n_subset: "set (last_n n xs) \<subseteq> set xs"
  by (simp add: last_n_def set_drop_subset)

lemma tl_eq_last_n: "length xs = Suc n \<Longrightarrow> tl xs = last_n n xs"
  by (simp add: last_n_def drop_Suc)

lemma replicate_numeral: "replicate (numeral k) x = x # replicate (pred_numeral k) x"
  by (simp add: numeral_eq_Suc)

section \<open>The parts of \<open><cmath>\<close> the sources use\<close>

text \<open>\<open>fmod\<close> takes the remainder of the quotient truncated towards zero.\<close>

definition trunc :: "real \<Rightarrow> int" where
  "trunc r = (if 0 \<le> r then \<lfloor>r\<rfloor> else \<lceil>r\<rceil>)"

definition fmod :: "real \<Rightarrow> real \<Rightarrow> real" where
  "fmod x y = x - y * of_int (trunc (x / y))"

definition atan2 :: "real \<Rightarrow> real \<Rightarrow> real" where
  "atan2 y x =
     (if 0 < x then arctan (y / x)
      else if x < 0 then (if 0 \<le> y then arctan (y / x) + pi else arctan (y / x) - pi)
      else if 0 < y then pi / 2 else if y < 0 then - (pi / 2) else 0)"

section \<open>Running extrema\<close>

text \<open>
  Loops of the form \<open>if (v < lo) lo = v; if (v > hi) hi = v;\<close> compute \<open>foldl min\<close> and
  \<open>foldl max\<close> from their sentinels.
\<close>

lemma foldl_min_le_iff: "foldl min a xs \<le> (b::real) \<longleftrightarrow> a \<le> b \<or> (\<exists>x\<in>set xs. x \<le> b)"
  by (induction xs arbitrary: a) (auto simp: min_le_iff_disj)

lemma foldl_max_ge_iff: "(b::real) \<le> foldl max a xs \<longleftrightarrow> b \<le> a \<or> (\<exists>x\<in>set xs. b \<le> x)"
  by (induction xs arbitrary: a) (auto simp: le_max_iff_disj)

lemma foldl_min_lower: "x \<in> set xs \<Longrightarrow> foldl min a xs \<le> (x::real)"
  by (auto simp: foldl_min_le_iff)

lemma foldl_max_upper: "x \<in> set xs \<Longrightarrow> (x::real) \<le> foldl max a xs"
  by (auto simp: foldl_max_ge_iff)

lemma foldl_min_mem: "xs \<noteq> [] \<Longrightarrow> \<forall>x\<in>set xs. x \<le> (a::real) \<Longrightarrow> foldl min a xs \<in> set xs"
proof -
  assume "xs \<noteq> []" "\<forall>x\<in>set xs. x \<le> a"
  then have "\<exists>x\<in>set xs. x \<le> foldl min a xs"
    using foldl_min_le_iff [of a xs "foldl min a xs"] by (metis last_in_set order.trans order_refl)
  then show ?thesis by (metis foldl_min_lower order_antisym)
qed

lemma foldl_max_mem: "xs \<noteq> [] \<Longrightarrow> \<forall>x\<in>set xs. (a::real) \<le> x \<Longrightarrow> foldl max a xs \<in> set xs"
proof -
  assume "xs \<noteq> []" "\<forall>x\<in>set xs. a \<le> x"
  then have "\<exists>x\<in>set xs. foldl max a xs \<le> x"
    using foldl_max_ge_iff [of "foldl max a xs" a xs] by (metis last_in_set order.trans order_refl)
  then show ?thesis by (metis foldl_max_upper order_antisym)
qed

text \<open>The spread of a non-empty window is below \<open>d\<close> when all pairwise differences are.\<close>

lemma spread_less_iff:
  assumes "xs \<noteq> []" "\<forall>x\<in>set xs. lo \<le> x \<and> x \<le> (hi::real)"
  shows "foldl max lo xs - foldl min hi xs < d \<longleftrightarrow> (\<forall>x\<in>set xs. \<forall>y\<in>set xs. x - y < d)"
proof
  assume *: "foldl max lo xs - foldl min hi xs < d"
  show "\<forall>x\<in>set xs. \<forall>y\<in>set xs. x - y < d"
  proof (intro ballI)
    fix x y assume "x \<in> set xs" "y \<in> set xs"
    then show "x - y < d" using * foldl_max_upper [of x xs lo] foldl_min_lower [of y xs hi] by linarith
  qed
next
  assume "\<forall>x\<in>set xs. \<forall>y\<in>set xs. x - y < d"
  moreover have "foldl max lo xs \<in> set xs" "foldl min hi xs \<in> set xs"
    using assms by (auto intro: foldl_max_mem foldl_min_mem)
  ultimately show "foldl max lo xs - foldl min hi xs < d" by blast
qed

lemma sum_list_bound_member:
  "\<forall>x\<in>set xs. (0::real) \<le> x \<Longrightarrow> x \<in> set xs \<Longrightarrow> x \<le> sum_list xs"
  by (induction xs) (auto intro: add_increasing add_increasing2 sum_list_nonneg)

section \<open>Characters and strings\<close>

definition is_digit :: "char \<Rightarrow> bool" where
  "is_digit c \<longleftrightarrow> c \<in> set ''0123456789''"

text \<open>\<open>std::string::find\<close> of a character from a position; \<open>None\<close> is \<open>npos\<close>.\<close>

definition find_from :: "char \<Rightarrow> string \<Rightarrow> nat \<Rightarrow> nat option" where
  "find_from c s pos =
     (let n = length (takeWhile (\<lambda>d. d \<noteq> c) (drop pos s))
      in if pos + n < length s then Some (pos + n) else None)"

lemma find_from_bounds: "find_from c s pos = Some p \<Longrightarrow> pos \<le> p \<and> p < length s"
  by (auto simp: find_from_def Let_def split: if_splits)

end
