(* ===== verification/Ring_Queue.thy ===== *)
theory Ring_Queue
  imports Cbyd_Prelude
begin

text \<open>
  \<open>include/lock_free_queue.h\<close>: the ring buffer \<open>LockFreeRingQueue<T>\<close> that connects the
  threads of the pipeline. The record holds the four members of the class; indices are
  64-bit words, as \<open>std::atomic<size_t>\<close> is, so the wrap-around in \<open>size()\<close> is part of the
  model. Every method is one definition. The theory proves that, used from one thread at a
  time, the ring refines a bounded FIFO list that holds at most \<open>capacity - 1\<close> items, states
  that contract as the locale \<open>bounded_fifo\<close>, and interprets it on the ring. The
  interleaved use by several threads is the subject of the theory \<open>Ring_Queue_Conc\<close>.
\<close>

section \<open>The class\<close>

record 'a ring_queue =
  rq_capacity :: size_t
  rq_buffer :: "'a list"
  rq_head :: size_t
  rq_tail :: size_t

datatype queue_exn =
    Length_error       \<comment> \<open>thrown by the \<open>std::vector\<close> constructor\<close>
  | Invalid_argument   \<comment> \<open>thrown by the constructor's own check\<close>

text \<open>
  The constructor. The member initialisers run before the body, so a capacity beyond the
  vector's \<open>max_size\<close> throws before the zero check; \<open>dflt\<close> is the value-initialised \<open>T\<close>.
\<close>

definition rq_new :: "size_t \<Rightarrow> 'a \<Rightarrow> size_t \<Rightarrow> queue_exn + 'a ring_queue" where
  "rq_new max_size dflt capacity =
     (if max_size < capacity then Inl Length_error
      else if capacity = 0 then Inl Invalid_argument
      else Inr \<lparr>rq_capacity = capacity, rq_buffer = replicate (unat capacity) dflt,
                rq_head = 0, rq_tail = 0\<rparr>)"

definition next_index :: "'a ring_queue \<Rightarrow> size_t \<Rightarrow> size_t" where
  "next_index q i = (i + 1) mod rq_capacity q"

definition enqueue :: "'a ring_queue \<Rightarrow> 'a \<Rightarrow> bool \<times> 'a ring_queue" where
  "enqueue q data =
     (let current_tail = rq_tail q;
          next_tail = next_index q current_tail
      in if next_tail = rq_head q then (False, q)
         else (True, q\<lparr>rq_buffer := (rq_buffer q)[unat current_tail := data],
                       rq_tail := next_tail\<rparr>))"

text \<open>
  \<open>dequeue\<close> reports success and, only then, writes its reference argument; the model returns
  \<open>None\<close> for \<open>false\<close> (argument untouched) and \<open>Some\<close> of the written value for \<open>true\<close>.
\<close>

definition dequeue :: "'a ring_queue \<Rightarrow> 'a option \<times> 'a ring_queue" where
  "dequeue q =
     (let current_head = rq_head q
      in if current_head = rq_tail q then (None, q)
         else (Some (rq_buffer q ! unat current_head),
               q\<lparr>rq_head := next_index q current_head\<rparr>))"

definition rq_size :: "'a ring_queue \<Rightarrow> size_t" where
  "rq_size q = (rq_tail q - rq_head q + rq_capacity q) mod rq_capacity q"

definition rq_empty :: "'a ring_queue \<Rightarrow> bool" where
  "rq_empty q \<longleftrightarrow> rq_head q = rq_tail q"

definition rq_full :: "'a ring_queue \<Rightarrow> bool" where
  "rq_full q \<longleftrightarrow> next_index q (rq_tail q) = rq_head q"

section \<open>Invariant and abstraction\<close>

text \<open>
  The invariant: both indices address the buffer, whose length is the capacity. The bound
  \<open>2 ^ 63\<close> is what a \<open>std::vector\<close> can hold at most (\<open>PTRDIFF_MAX\<close>); without it the sum in
  \<open>size()\<close> could overflow.
\<close>

definition rq_wf :: "'a ring_queue \<Rightarrow> bool" where
  "rq_wf q \<longleftrightarrow> 0 < unat (rq_capacity q) \<and> unat (rq_capacity q) \<le> 2 ^ 63
     \<and> length (rq_buffer q) = unat (rq_capacity q)
     \<and> rq_head q < rq_capacity q \<and> rq_tail q < rq_capacity q"

definition rq_cap :: "'a ring_queue \<Rightarrow> nat" where
  "rq_cap q = unat (rq_capacity q)"

definition rq_len :: "'a ring_queue \<Rightarrow> nat" where
  "rq_len q = ring_dist (rq_cap q) (unat (rq_head q)) (unat (rq_tail q))"

text \<open>The items in the ring, oldest first: the abstract value of the queue.\<close>

definition rq_list :: "'a ring_queue \<Rightarrow> 'a list" where
  "rq_list q = map (\<lambda>i. rq_buffer q ! ((unat (rq_head q) + i) mod rq_cap q)) [0..<rq_len q]"

lemma length_rq_list [simp]: "length (rq_list q) = rq_len q"
  by (simp add: rq_list_def)

lemma rq_wfD:
  assumes "rq_wf q"
  shows "0 < rq_cap q" "rq_cap q \<le> 2 ^ 63" "length (rq_buffer q) = rq_cap q"
    "unat (rq_head q) < rq_cap q" "unat (rq_tail q) < rq_cap q"
  using assms by (simp_all add: rq_wf_def rq_cap_def word_less_nat_alt)

lemma unat_next_index:
  assumes "rq_wf q" "unat i < rq_cap q"
  shows "unat (next_index q i) = (unat i + 1) mod rq_cap q"
proof -
  have "unat i + 1 < 2 ^ 64" using assms(2) rq_wfD(2) [OF assms(1)] by simp
  then have "unat (i + 1) = unat i + 1" by (simp add: unat_word_ariths)
  then show ?thesis by (simp add: next_index_def unat_mod rq_cap_def)
qed

lemma rq_len_less: "rq_wf q \<Longrightarrow> rq_len q < rq_cap q"
  by (simp add: rq_len_def rq_wfD)

lemma rq_len_eq_0_iff: "rq_wf q \<Longrightarrow> rq_len q = 0 \<longleftrightarrow> rq_head q = rq_tail q"
  by (simp add: rq_len_def ring_dist_eq_0_iff rq_wfD word_unat_eq_iff)

lemma rq_tail_pos: "rq_wf q \<Longrightarrow> (unat (rq_head q) + rq_len q) mod rq_cap q = unat (rq_tail q)"
  by (simp add: rq_len_def ring_dist_pos rq_wfD)

lemma next_tail_pos:
  assumes "rq_wf q"
  shows "unat (next_index q (rq_tail q)) = (unat (rq_head q) + Suc (rq_len q)) mod rq_cap q"
proof -
  have "unat (next_index q (rq_tail q)) = ((unat (rq_head q) + rq_len q) mod rq_cap q + 1) mod rq_cap q"
    using assms by (simp add: unat_next_index rq_wfD rq_tail_pos)
  also have "\<dots> = (unat (rq_head q) + Suc (rq_len q)) mod rq_cap q"
    by (simp add: mod_Suc_eq)
  finally show ?thesis .
qed

text \<open>The ring is full exactly when it holds one item less than its capacity.\<close>

lemma next_tail_eq_head_iff:
  assumes "rq_wf q"
  shows "next_index q (rq_tail q) = rq_head q \<longleftrightarrow> Suc (rq_len q) = rq_cap q"
proof
  assume "Suc (rq_len q) = rq_cap q"
  then show "next_index q (rq_tail q) = rq_head q"
    using next_tail_pos [OF assms] rq_wfD(4) [OF assms] by (simp add: word_unat_eq_iff)
next
  assume *: "next_index q (rq_tail q) = rq_head q"
  show "Suc (rq_len q) = rq_cap q"
  proof (rule ccontr)
    assume "Suc (rq_len q) \<noteq> rq_cap q"
    then have "Suc (rq_len q) < rq_cap q" using rq_len_less [OF assms] by simp
    moreover have "(unat (rq_head q) + Suc (rq_len q)) mod rq_cap q = (unat (rq_head q) + 0) mod rq_cap q"
      using next_tail_pos [OF assms] * rq_wfD(4) [OF assms] by simp
    ultimately show False
      using mod_add_inj [of "Suc (rq_len q)" "rq_cap q" 0] by auto
  qed
qed

section \<open>The operations against the list\<close>

lemma rq_new_list: "rq_new m d c = Inr q \<Longrightarrow> rq_list q = []"
  by (auto simp: rq_new_def rq_list_def rq_len_def rq_cap_def ring_dist_def split: if_splits)

lemma rq_new_wf:
  assumes "rq_new m d c = Inr q" "unat m \<le> 2 ^ 63"
  shows "rq_wf q \<and> rq_cap q = unat c"
proof -
  from assms(1) have "c \<le> m" "c \<noteq> 0" and q: "q = \<lparr>rq_capacity = c,
      rq_buffer = replicate (unat c) d, rq_head = 0, rq_tail = 0\<rparr>"
    by (auto simp: rq_new_def split: if_splits)
  then have "unat c \<le> unat m" "0 < unat c"
    by (simp_all add: word_le_nat_alt unat_gt_0)
  then show ?thesis using assms(2) \<open>c \<noteq> 0\<close>
    by (simp add: q rq_wf_def rq_cap_def word_neq_0_conv)
qed

lemma rq_list_snoc:
  assumes "rq_wf q" "Suc (rq_len q) < rq_cap q"
  shows "rq_list (q\<lparr>rq_buffer := (rq_buffer q)[unat (rq_tail q) := x],
                    rq_tail := next_index q (rq_tail q)\<rparr>) = rq_list q @ [x]"
    (is "rq_list ?q' = _")
proof -
  have len: "rq_len ?q' = Suc (rq_len q)"
    using ring_dist_add [of "unat (rq_head q)" "rq_cap q" "Suc (rq_len q)"] assms
    by (simp add: rq_len_def [of ?q'] rq_cap_def [of ?q'] next_tail_pos rq_wfD
        flip: rq_cap_def)
  have old: "(rq_buffer q)[unat (rq_tail q) := x] ! ((unat (rq_head q) + i) mod rq_cap q)
       = rq_buffer q ! ((unat (rq_head q) + i) mod rq_cap q)" if "i < rq_len q" for i
  proof -
    have "(unat (rq_head q) + i) mod rq_cap q \<noteq> (unat (rq_head q) + rq_len q) mod rq_cap q"
      using mod_add_inj [of i "rq_cap q" "rq_len q"] that assms(2) by force
    then show ?thesis using rq_tail_pos [OF assms(1)] by simp
  qed
  have new: "(rq_buffer q)[unat (rq_tail q) := x] ! ((unat (rq_head q) + rq_len q) mod rq_cap q) = x"
    using rq_wfD [OF assms(1)] rq_tail_pos [OF assms(1)] by simp
  show ?thesis
    using old new by (simp add: rq_list_def [of ?q'] len rq_cap_def [of ?q'] rq_list_def [of q]
        flip: rq_cap_def)
qed

lemma rq_list_tl:
  assumes "rq_wf q" "rq_len q \<noteq> 0"
  shows "rq_list q = rq_buffer q ! unat (rq_head q)
           # rq_list (q\<lparr>rq_head := next_index q (rq_head q)\<rparr>)"
    (is "_ = _ # rq_list ?q'")
proof -
  let ?h = "unat (rq_head q)" and ?n = "rq_cap q"
  note wf = rq_wfD [OF assms(1)]
  have h': "unat (next_index q (rq_head q)) = (?h + 1) mod ?n"
    using assms(1) wf by (simp add: unat_next_index)
  obtain k where k: "rq_len q = Suc k" using assms(2) by (cases "rq_len q") auto
  have "((?h + 1) mod ?n + k) mod ?n = unat (rq_tail q)"
    using rq_tail_pos [OF assms(1)] k by (simp add: mod_add_left_eq)
  moreover have "k < ?n" using rq_len_less [OF assms(1)] k by simp
  ultimately have len: "rq_len ?q' = k"
    using ring_dist_add [of "(?h + 1) mod ?n" ?n k] wf
    by (simp add: rq_len_def [of ?q'] rq_cap_def [of ?q'] h' flip: rq_cap_def)
  have shift: "(Suc ?h mod ?n + i) mod ?n = Suc (?h + i) mod ?n" for i
    by (simp add: mod_add_left_eq)
  have "rq_list q = map (\<lambda>i. rq_buffer q ! ((?h + i) mod ?n)) (0 # map Suc [0..<k])"
    by (simp add: rq_list_def k map_Suc_upt upt_conv_Cons del: upt_Suc)
  also have "\<dots> = rq_buffer q ! ?h # rq_list ?q'"
    using wf by (simp add: rq_list_def [of ?q'] len h' rq_cap_def [of ?q'] shift
        flip: rq_cap_def)
  finally show ?thesis .
qed

lemma enqueue_False: "rq_wf q \<Longrightarrow> Suc (rq_len q) = rq_cap q \<Longrightarrow> enqueue q x = (False, q)"
  by (simp add: enqueue_def next_tail_eq_head_iff)

lemma enqueue_True:
  assumes "rq_wf q" "Suc (rq_len q) < rq_cap q"
  shows "enqueue q x = (True, q\<lparr>rq_buffer := (rq_buffer q)[unat (rq_tail q) := x],
                                rq_tail := next_index q (rq_tail q)\<rparr>)"
  using assms by (simp add: enqueue_def Let_def next_tail_eq_head_iff)

lemma next_index_less: "rq_wf q \<Longrightarrow> next_index q i < rq_capacity q"
  by (simp add: rq_wf_def next_index_def word_less_nat_alt unat_mod)

lemma enqueue_wf [simp]: "rq_wf q \<Longrightarrow> rq_wf (snd (enqueue q x))"
  using next_index_less [of q "rq_tail q"] by (simp add: enqueue_def Let_def rq_wf_def)

lemma dequeue_wf [simp]: "rq_wf q \<Longrightarrow> rq_wf (snd (dequeue q))"
  using next_index_less [of q "rq_head q"] by (simp add: dequeue_def Let_def rq_wf_def)

lemma enqueue_cap [simp]: "rq_cap (snd (enqueue q x)) = rq_cap q"
  by (simp add: enqueue_def Let_def rq_cap_def)

lemma dequeue_cap [simp]: "rq_cap (snd (dequeue q)) = rq_cap q"
  by (simp add: dequeue_def Let_def rq_cap_def)

lemma enqueue_ok:
  assumes "rq_wf q"
  shows "fst (enqueue q x) \<longleftrightarrow> length (rq_list q) < rq_cap q - 1"
  using assms rq_len_less [OF assms]
  by (cases "Suc (rq_len q) = rq_cap q") (auto simp: enqueue_False enqueue_True)

lemma enqueue_list:
  assumes "rq_wf q"
  shows "rq_list (snd (enqueue q x))
           = (if length (rq_list q) < rq_cap q - 1 then rq_list q @ [x] else rq_list q)"
  using assms rq_len_less [OF assms]
  by (cases "Suc (rq_len q) = rq_cap q") (auto simp: enqueue_False enqueue_True rq_list_snoc)

lemma dequeue_list:
  assumes "rq_wf q"
  shows "fst (dequeue q) = (case rq_list q of [] \<Rightarrow> None | x # _ \<Rightarrow> Some x)"
    and "rq_list (snd (dequeue q)) = tl (rq_list q)"
proof -
  have "fst (dequeue q) = (case rq_list q of [] \<Rightarrow> None | x # _ \<Rightarrow> Some x)
      \<and> rq_list (snd (dequeue q)) = tl (rq_list q)"
  proof (cases "rq_len q = 0")
    case True
    then have "rq_list q = []" by (simp add: rq_list_def)
    then show ?thesis using assms True by (simp add: dequeue_def rq_len_eq_0_iff)
  next
    case False
    then show ?thesis using assms rq_list_tl [OF assms False]
      by (simp add: dequeue_def Let_def rq_len_eq_0_iff)
  qed
  then show "fst (dequeue q) = (case rq_list q of [] \<Rightarrow> None | x # _ \<Rightarrow> Some x)"
    and "rq_list (snd (dequeue q)) = tl (rq_list q)" by auto
qed

lemma rq_list_bound: "rq_wf q \<Longrightarrow> length (rq_list q) \<le> rq_cap q - 1"
  using rq_len_less [of q] by simp

text \<open>\<open>size()\<close> computes with unsigned wrap-around and still yields the number of items.\<close>

lemma unat_rq_size:
  assumes "rq_wf q"
  shows "unat (rq_size q) = length (rq_list q)"
proof -
  note wf = rq_wfD [OF assms]
  have "unat (rq_tail q - rq_head q + rq_capacity q) mod rq_cap q
      = (unat (rq_tail q) + rq_cap q - unat (rq_head q)) mod rq_cap q"
  proof (cases "rq_head q \<le> rq_tail q")
    case True
    then have "unat (rq_tail q - rq_head q) = unat (rq_tail q) - unat (rq_head q)"
      by (rule unat_sub)
    then have "unat (rq_tail q - rq_head q + rq_capacity q)
        = unat (rq_tail q) - unat (rq_head q) + rq_cap q"
      using wf by (simp add: unat_word_ariths rq_cap_def)
    then show ?thesis using True by (simp add: word_le_nat_alt flip: diff_add_assoc2)
  next
    case False
    then have less: "unat (rq_tail q) < unat (rq_head q)" by (simp add: word_le_nat_alt)
    have "unat (rq_tail q - rq_head q + rq_capacity q) = unat (rq_capacity q - (rq_head q - rq_tail q))"
      by (simp add: algebra_simps)
    moreover have "unat (rq_head q - rq_tail q) = unat (rq_head q) - unat (rq_tail q)"
      using False by (intro unat_sub) simp
    moreover have "rq_head q - rq_tail q \<le> rq_capacity q"
      using wf \<open>unat (rq_head q - rq_tail q) = _\<close> by (simp add: word_le_nat_alt rq_cap_def)
    ultimately show ?thesis using less wf
      by (simp add: unat_sub rq_cap_def)
  qed
  then show ?thesis
    by (simp add: rq_size_def unat_mod rq_len_def ring_dist_def rq_cap_def)
qed

section \<open>The contract of a bounded FIFO\<close>

text \<open>
  A queue client issues a sequence of operations. \<open>run_ops\<close> runs one against any
  implementation and collects the accepted and the delivered items.
\<close>

datatype 'a qop = Enq 'a | Deq

fun run_ops :: "('q \<Rightarrow> 'a \<Rightarrow> bool \<times> 'q) \<Rightarrow> ('q \<Rightarrow> 'a option \<times> 'q) \<Rightarrow> 'q \<Rightarrow> 'a qop list
    \<Rightarrow> 'a list \<times> 'a list \<times> 'q" where
  "run_ops enq deq q [] = ([], [], q)"
| "run_ops enq deq q (Enq x # ops) =
     (let (ok, q1) = enq q x; (acc, del, q2) = run_ops enq deq q1 ops
      in (if ok then x # acc else acc, del, q2))"
| "run_ops enq deq q (Deq # ops) =
     (let (r, q1) = deq q; (acc, del, q2) = run_ops enq deq q1 ops
      in (acc, case r of None \<Rightarrow> del | Some x \<Rightarrow> x # del, q2))"

text \<open>The consumer's side: \<open>n\<close> attempts to dequeue, and what they delivered.\<close>

fun deq_n :: "('q \<Rightarrow> 'a option \<times> 'q) \<Rightarrow> nat \<Rightarrow> 'q \<Rightarrow> 'a list \<times> 'q" where
  "deq_n deq 0 q = ([], q)"
| "deq_n deq (Suc n) q =
     (case deq q of (None, q1) \<Rightarrow> deq_n deq n q1
      | (Some x, q1) \<Rightarrow> (case deq_n deq n q1 of (xs, q2) \<Rightarrow> (x # xs, q2)))"

text \<open>
  The waiting loop of the producers, \<open>while (!queue->enqueue(x) && is_running_) sleep\<close>. Each
  element of the environment describes one failed attempt: the value of \<open>is_running_\<close> read
  after it, and how many items the consumer takes during the sleep. The result is the
  outcome (\<open>True\<close>: enqueued; \<open>False\<close>: given up because the component was stopped), what the
  consumer took meanwhile, and the queue; \<open>None\<close> means still waiting when the environment
  described by the list is exhausted.
\<close>

fun enq_retry :: "('q \<Rightarrow> 'a \<Rightarrow> bool \<times> 'q) \<Rightarrow> ('q \<Rightarrow> 'a option \<times> 'q) \<Rightarrow> 'q \<Rightarrow> 'a
    \<Rightarrow> (bool \<times> nat) list \<Rightarrow> (bool \<times> 'a list \<times> 'q) option" where
  "enq_retry enq deq q x [] =
     (case enq q x of (ok, q1) \<Rightarrow> if ok then Some (True, [], q1) else None)"
| "enq_retry enq deq q x ((running, k) # env) =
     (case enq q x of (ok, q1) \<Rightarrow>
        if ok then Some (True, [], q1)
        else if \<not> running then Some (False, [], q1)
        else (case deq_n deq k q1 of (ds, q2) \<Rightarrow>
                map_option (\<lambda>(b, ds', q3). (b, ds @ ds', q3)) (enq_retry enq deq q2 x env)))"

locale bounded_fifo =
  fixes enq :: "'q \<Rightarrow> 'a \<Rightarrow> bool \<times> 'q"
    and deq :: "'q \<Rightarrow> 'a option \<times> 'q"
    and contents :: "'q \<Rightarrow> 'a list"
    and bound :: "'q \<Rightarrow> nat"
    and invar :: "'q \<Rightarrow> bool"
  assumes enq_accepts: "invar q \<Longrightarrow> fst (enq q x) \<longleftrightarrow> length (contents q) < bound q"
    and enq_contents: "invar q \<Longrightarrow> contents (snd (enq q x))
          = (if length (contents q) < bound q then contents q @ [x] else contents q)"
    and enq_invar: "invar q \<Longrightarrow> invar (snd (enq q x))"
    and enq_bound: "invar q \<Longrightarrow> bound (snd (enq q x)) = bound q"
    and deq_result: "invar q \<Longrightarrow> fst (deq q) = (case contents q of [] \<Rightarrow> None | x # _ \<Rightarrow> Some x)"
    and deq_contents: "invar q \<Longrightarrow> contents (snd (deq q)) = tl (contents q)"
    and deq_invar: "invar q \<Longrightarrow> invar (snd (deq q))"
    and deq_bound: "invar q \<Longrightarrow> bound (snd (deq q)) = bound q"
    and contents_bound: "invar q \<Longrightarrow> length (contents q) \<le> bound q"
begin

lemma run_ops_invar:
  "invar q \<Longrightarrow> invar (snd (snd (run_ops enq deq q ops)))
     \<and> bound (snd (snd (run_ops enq deq q ops))) = bound q"
proof (induction ops arbitrary: q)
  case Nil
  then show ?case by simp
next
  case (Cons a ops)
  then show ?case
    by (cases a)
      (auto simp: split_beta Let_def enq_invar deq_invar enq_bound deq_bound)
qed

text \<open>
  Order and conservation: what was in the queue followed by what was accepted is what was
  delivered followed by what is left.
\<close>

lemma run_ops_fifo:
  "invar q \<Longrightarrow> contents q @ fst (run_ops enq deq q ops)
     = fst (snd (run_ops enq deq q ops)) @ contents (snd (snd (run_ops enq deq q ops)))"
proof (induction ops arbitrary: q)
  case Nil
  then show ?case by simp
next
  case (Cons a ops)
  show ?case
  proof (cases a)
    case (Enq x)
    have "contents (snd (enq q x)) @ fst (run_ops enq deq (snd (enq q x)) ops)
        = fst (snd (run_ops enq deq (snd (enq q x)) ops))
          @ contents (snd (snd (run_ops enq deq (snd (enq q x)) ops)))"
      using Cons by (simp add: enq_invar)
    then show ?thesis using Cons.prems Enq
      by (auto simp: split_beta Let_def enq_accepts enq_contents split: if_splits)
  next
    case Deq
    have "contents (snd (deq q)) @ fst (run_ops enq deq (snd (deq q)) ops)
        = fst (snd (run_ops enq deq (snd (deq q)) ops))
          @ contents (snd (snd (run_ops enq deq (snd (deq q)) ops)))"
      using Cons by (simp add: deq_invar)
    then show ?thesis using Cons.prems Deq
      by (cases "contents q") (auto simp: split_beta Let_def deq_result deq_contents)
  qed
qed

lemma deq_n_contents:
  "invar q \<Longrightarrow> invar (snd (deq_n deq n q)) \<and> bound (snd (deq_n deq n q)) = bound q
     \<and> fst (deq_n deq n q) = take n (contents q)
     \<and> contents (snd (deq_n deq n q)) = drop n (contents q)"
proof (induction n arbitrary: q)
  case 0
  then show ?case by simp
next
  case (Suc n)
  obtain r q1 where d: "deq q = (r, q1)" by fastforce
  have q1: "invar q1" "bound q1 = bound q" "contents q1 = tl (contents q)"
    "r = (case contents q of [] \<Rightarrow> None | x # _ \<Rightarrow> Some x)"
    using Suc.prems deq_invar [of q] deq_bound [of q] deq_contents [of q] deq_result [of q] d by auto
  show ?case
    using Suc.IH [OF q1(1)] q1 d by (cases "contents q") (auto simp: split_beta)
qed

text \<open>
  The waiting loop delivers its item exactly once, after everything that was queued before
  it, or gives up without touching the queue's order.
\<close>

lemma enq_retry_fifo:
  assumes "invar q" "enq_retry enq deq q x env = Some (ok, ds, q')"
  shows "invar q' \<and> bound q' = bound q
     \<and> ds @ contents q' = contents q @ (if ok then [x] else [])"
  using assms
proof (induction env arbitrary: q ds)
  case Nil
  then show ?case
    by (auto simp: split_beta enq_accepts enq_contents enq_invar enq_bound split: if_splits)
next
  case (Cons e env)
  obtain running k where e: "e = (running, k)" by fastforce
  let ?q1 = "snd (enq q x)"
  let ?q2 = "snd (deq_n deq k ?q1)"
  have q1: "invar ?q1" "bound ?q1 = bound q" using Cons.prems(1) by (simp_all add: enq_invar enq_bound)
  show ?case
  proof (cases "fst (enq q x) \<or> \<not> running")
    case True
    then show ?thesis using Cons.prems q1 e
      by (auto simp: split_beta enq_accepts enq_contents split: if_splits)
  next
    case False
    then have full: "contents ?q1 = contents q"
      using Cons.prems(1) by (simp add: enq_accepts enq_contents)
    note q2 = deq_n_contents [OF q1(1), of k]
    from False Cons.prems(2) e obtain ds' where
      r: "enq_retry enq deq ?q2 x env = Some (ok, ds', q')" "ds = take k (contents ?q1) @ ds'"
      using q2 by (auto simp: split_beta)
    from Cons.IH [OF _ r(1)] q2 q1 full r(2) show ?thesis
      by (simp add: append_assoc [symmetric])
  qed
qed

text \<open>A stopped component does not wait: one failed attempt after the stop ends the loop.\<close>

lemma enq_retry_stopped:
  "invar q \<Longrightarrow> \<exists>ok q'. enq_retry enq deq q x ((False, k) # env) = Some (ok, [], q')"
  by (auto simp: split_beta)

text \<open>A consumer that takes an item during the sleep lets the waiting producer through.\<close>

lemma enq_retry_progress:
  assumes "invar q" "0 < bound q" "0 < k"
  shows "\<exists>ds q'. enq_retry enq deq q x ((True, k) # env) = Some (True, ds, q')"
proof (cases "fst (enq q x)")
  case True
  then show ?thesis by (auto simp: split_beta)
next
  case False
  let ?q1 = "snd (enq q x)"
  let ?q2 = "snd (deq_n deq k ?q1)"
  have q1: "invar ?q1" "bound ?q1 = bound q" "contents ?q1 = contents q"
    using assms False by (simp_all add: enq_invar enq_bound enq_accepts enq_contents)
  note q2 = deq_n_contents [OF q1(1), of k]
  have "length (contents q) \<le> bound q" using assms(1) by (rule contents_bound)
  then have "fst (enq ?q2 x)"
    using q2 q1 assms by (simp add: enq_accepts)
  then have "\<exists>r q'. enq_retry enq deq ?q2 x env = Some (True, r, q')"
    by (cases env) (auto simp: split_beta)
  then show ?thesis using False by (auto simp: split_beta)
qed

end

text \<open>While the component runs, the loop ends only after a successful push.\<close>

lemma enq_retry_running:
  "enq_retry enq deq q x env = Some (ok, ds, q') \<Longrightarrow> \<forall>e\<in>set env. fst e \<Longrightarrow> ok"
  by (induction enq deq q x env arbitrary: ds rule: enq_retry.induct)
    (auto split: prod.splits if_splits)

interpretation rq: bounded_fifo enqueue dequeue rq_list "\<lambda>q. rq_cap q - 1" rq_wf
  by unfold_locales
    (simp_all add: enqueue_ok enqueue_list dequeue_list rq_list_bound [simplified])

section \<open>What the queue guarantees one thread\<close>

text \<open>
  C2: the ring refines a bounded FIFO. For every sequence of \<open>enqueue\<close> and \<open>dequeue\<close> calls
  on a newly constructed queue, the items accepted are the items delivered followed by the
  items still in the ring, in that order; the ring never holds more than \<open>capacity - 1\<close>
  items, and \<open>size()\<close>, \<open>empty()\<close> and \<open>full()\<close> report the length of that list exactly, in
  spite of the unsigned wrap-around in their arithmetic.
\<close>

theorem ring_queue_refines_fifo:
  assumes "rq_new m d c = Inr q" "unat m \<le> 2 ^ 63"
    and "run_ops enqueue dequeue q ops = (acc, del, q')"
  shows "acc = del @ rq_list q' \<and> length (rq_list q') \<le> unat c - 1
     \<and> unat (rq_size q') = length (rq_list q')
     \<and> (rq_empty q' \<longleftrightarrow> rq_list q' = []) \<and> (rq_full q' \<longleftrightarrow> length (rq_list q') = unat c - 1)"
proof -
  have wf: "rq_wf q" "rq_cap q = unat c" using rq_new_wf [OF assms(1,2)] by simp_all
  have wf': "rq_wf q'" "rq_cap q' - 1 = unat c - 1"
    using rq.run_ops_invar [OF wf(1), of ops] wf(2) assms(3) by simp_all
  have pos: "0 < rq_cap q'" using wf'(1) by (rule rq_wfD)
  have "acc = del @ rq_list q'"
    using rq.run_ops_fifo [OF wf(1), of ops] assms(3) rq_new_list [OF assms(1)] by simp
  moreover have "length (rq_list q') \<le> unat c - 1"
    using rq_list_bound [OF wf'(1)] wf'(2) by simp
  moreover have "unat (rq_size q') = length (rq_list q')" using wf'(1) by (rule unat_rq_size)
  moreover have "rq_empty q' \<longleftrightarrow> rq_list q' = []"
    using rq_len_eq_0_iff [OF wf'(1)] by (simp add: rq_empty_def flip: length_0_conv)
  moreover have "rq_full q' \<longleftrightarrow> length (rq_list q') = unat c - 1"
    using next_tail_eq_head_iff [OF wf'(1)] wf'(2) pos by (auto simp: rq_full_def)
  ultimately show ?thesis by blast
qed

theorem ring_queue_refines_fifo_witness:
  "\<exists>q q'. rq_new 8 (0::nat) 3 = Inr q
     \<and> run_ops enqueue dequeue q [Enq 1, Enq 2, Enq 3, Deq, Enq 4] = ([1, 2, 4], [1], q')
     \<and> [1, 2, 4] = [1] @ rq_list q' \<and> unat (rq_size q') = 2 \<and> rq_full q'"
proof -
  let ?q = "\<lparr>rq_capacity = 3, rq_buffer = [0, 0, 0::nat], rq_head = 0, rq_tail = 0\<rparr>"
  have new: "rq_new 8 (0::nat) 3 = Inr ?q" by (simp add: rq_new_def replicate_numeral)
  obtain q' where run: "run_ops enqueue dequeue ?q [Enq 1, Enq 2, Enq 3, Deq, Enq 4] = ([1, 2, 4], [1], q')"
    by (simp add: enqueue_def dequeue_def next_index_def Let_def)
  from ring_queue_refines_fifo [OF new _ run] have
    *: "[1, 2, 4] = [1] @ rq_list q'" "unat (rq_size q') = length (rq_list q')"
      "rq_full q' \<longleftrightarrow> length (rq_list q') = 2" by auto
  then have "rq_list q' = [2, 4]" by simp
  with * new run show ?thesis by (intro exI [of _ ?q] exI [of _ q']) (simp del: length_rq_list)
qed

text \<open>
  The waiting loop of the producers (\<open>while (!enqueue(x) && is_running_) sleep\<close>) never
  loses or repeats an item. If it ends, then what the consumer took meanwhile followed by
  what is left in the ring is the old contents followed by \<open>x\<close> (when it was enqueued), or
  just the old contents (when the component was stopped). It does end: as soon as the
  component is stopped, and as soon as the consumer takes an item during a sleep.
\<close>

theorem enq_retry_exactly_once:
  assumes "rq_wf q" "2 \<le> rq_cap q"
  shows "(enq_retry enqueue dequeue q x env = Some (ok, ds, q')
           \<longrightarrow> rq_wf q' \<and> ds @ rq_list q' = rq_list q @ (if ok then [x] else []))
     \<and> (\<exists>ok ds q'. enq_retry enqueue dequeue q x ((False, k) # env) = Some (ok, ds, q'))
     \<and> (\<exists>ds q'. enq_retry enqueue dequeue q x ((True, Suc k) # env) = Some (True, ds, q'))"
proof (intro conjI impI)
  assume "enq_retry enqueue dequeue q x env = Some (ok, ds, q')"
  from rq.enq_retry_fifo [OF assms(1) this]
  show "rq_wf q'" "ds @ rq_list q' = rq_list q @ (if ok then [x] else [])" by blast+
next
  show "\<exists>ok ds q'. enq_retry enqueue dequeue q x ((False, k) # env) = Some (ok, ds, q')"
    using rq.enq_retry_stopped [OF assms(1)] by blast
next
  show "\<exists>ds q'. enq_retry enqueue dequeue q x ((True, Suc k) # env) = Some (True, ds, q')"
    using rq.enq_retry_progress [OF assms(1)] assms(2) by simp
qed

theorem enq_retry_exactly_once_witness:
  "\<exists>q. rq_wf q \<and> rq_cap q = 2 \<and> rq_full q
     \<and> (\<exists>ds q'. enq_retry enqueue dequeue q (9::nat) [(True, 1)] = Some (True, ds, q'))"
proof -
  let ?q = "\<lparr>rq_capacity = 2, rq_buffer = [5, 0::nat], rq_head = 0, rq_tail = 1\<rparr>"
  have wf: "rq_wf ?q" "rq_cap ?q = 2" "rq_full ?q"
    by (simp_all add: rq_wf_def rq_cap_def rq_full_def next_index_def)
  from enq_retry_exactly_once [OF wf(1), of 9 "[]" True "[]" ?q 0] wf
  show ?thesis by (intro exI [of _ ?q]) simp
qed

end
