(* ===== verification/Ring_Queue_Conc.thy ===== *)
theory Ring_Queue_Conc
  imports Ring_Queue
begin

text \<open>
  \<open>include/lock_free_queue.h\<close> again, now with its atomic accesses as separate steps that
  threads interleave. \<open>enqueue\<close> is four steps (load \<open>tail_\<close>, load \<open>head_\<close> and compare, write
  the slot, store \<open>tail_\<close>) and \<open>dequeue\<close> is four more. Loads follow the C++ memory model for
  atomics: every atomic has a modification order, and a load may return any value of it that
  is not older than one the thread has seen before; the release/acquire pairs make the slot
  accesses happen in the order the indices say, so the buffer itself is one shared array.

  With one producer and one consumer the queue is proved to deliver exactly what was
  accepted, in order, and the two threads never touch the same slot at once. With two
  producers it is shown to lose items: that is how \<open>SixDofCalculator\<close>'s worker pool uses it.
\<close>

section \<open>Threads, program counters and steps\<close>

datatype 'a prod_pc =
    P_Idle
  | P_LoadHead 'a size_t size_t    \<comment> \<open>\<open>data\<close>, \<open>current_tail\<close>, \<open>next_tail\<close>\<close>
  | P_Write 'a size_t size_t
  | P_Store 'a size_t

datatype 'a cons_pc =
    C_Idle
  | C_LoadTail size_t              \<comment> \<open>\<open>current_head\<close>\<close>
  | C_Read size_t
  | C_Store size_t 'a

text \<open>
  \<open>head_mo\<close> and \<open>tail_mo\<close> are the modification orders of the two atomics, the \<open>*_seen_*\<close>
  fields the newest position each thread has observed. \<open>enqd\<close> and \<open>deqd\<close> record the items
  of the \<open>enqueue\<close> calls that returned \<open>true\<close> and of the \<open>dequeue\<close> calls that returned
  \<open>true\<close>; no step reads them.
\<close>

record 'a conc =
  cc_capacity :: size_t
  cc_buffer :: "'a list"
  head_mo :: "size_t list"
  tail_mo :: "size_t list"
  p_pc :: "nat \<Rightarrow> 'a prod_pc"
  p_seen_head :: "nat \<Rightarrow> nat"
  p_seen_tail :: "nat \<Rightarrow> nat"
  c_pc :: "'a cons_pc"
  c_seen_head :: nat
  c_seen_tail :: nat
  enqd :: "'a list"
  deqd :: "'a list"

text \<open>One atomic step of a thread; loads name the position of the modification order they read.\<close>

datatype 'a conc_action =
    P_begin nat 'a nat | P_check nat nat | P_write nat | P_store nat
  | C_begin nat | C_check nat | C_read | C_store

definition conc_init :: "'a ring_queue \<Rightarrow> 'a conc" where
  "conc_init q = \<lparr>cc_capacity = rq_capacity q, cc_buffer = rq_buffer q,
     head_mo = [rq_head q], tail_mo = [rq_tail q],
     p_pc = (\<lambda>_. P_Idle), p_seen_head = (\<lambda>_. 0), p_seen_tail = (\<lambda>_. 0),
     c_pc = C_Idle, c_seen_head = 0, c_seen_tail = 0, enqd = [], deqd = []\<rparr>"

definition conc_next :: "'a conc \<Rightarrow> size_t \<Rightarrow> size_t" where
  "conc_next s i = (i + 1) mod cc_capacity s"

text \<open>
  \<open>np\<close> producer threads and one consumer thread. An action that its thread cannot take now
  gives \<open>None\<close>.
\<close>

fun conc_step :: "nat \<Rightarrow> 'a conc \<Rightarrow> 'a conc_action \<Rightarrow> 'a conc option" where
  "conc_step np s (P_begin i x t) =
     (if i < np \<and> p_pc s i = P_Idle \<and> p_seen_tail s i \<le> t \<and> t < length (tail_mo s)
      then Some (s\<lparr>p_pc := (p_pc s)(i := P_LoadHead x (tail_mo s ! t) (conc_next s (tail_mo s ! t))),
                   p_seen_tail := (p_seen_tail s)(i := t)\<rparr>)
      else None)"
| "conc_step np s (P_check i h) =
     (case p_pc s i of P_LoadHead x ct nt \<Rightarrow>
        if i < np \<and> p_seen_head s i \<le> h \<and> h < length (head_mo s)
        then Some (s\<lparr>p_pc := (p_pc s)(i := if nt = head_mo s ! h then P_Idle else P_Write x ct nt),
                     p_seen_head := (p_seen_head s)(i := h)\<rparr>)
        else None
      | _ \<Rightarrow> None)"
| "conc_step np s (P_write i) =
     (case p_pc s i of P_Write x ct nt \<Rightarrow>
        Some (s\<lparr>cc_buffer := (cc_buffer s)[unat ct := x], p_pc := (p_pc s)(i := P_Store x nt)\<rparr>)
      | _ \<Rightarrow> None)"
| "conc_step np s (P_store i) =
     (case p_pc s i of P_Store x nt \<Rightarrow>
        Some (s\<lparr>tail_mo := tail_mo s @ [nt], p_seen_tail := (p_seen_tail s)(i := length (tail_mo s)),
                p_pc := (p_pc s)(i := P_Idle), enqd := enqd s @ [x]\<rparr>)
      | _ \<Rightarrow> None)"
| "conc_step np s (C_begin h) =
     (if c_pc s = C_Idle \<and> c_seen_head s \<le> h \<and> h < length (head_mo s)
      then Some (s\<lparr>c_pc := C_LoadTail (head_mo s ! h), c_seen_head := h\<rparr>)
      else None)"
| "conc_step np s (C_check t) =
     (case c_pc s of C_LoadTail ch \<Rightarrow>
        if c_seen_tail s \<le> t \<and> t < length (tail_mo s)
        then Some (s\<lparr>c_pc := (if ch = tail_mo s ! t then C_Idle else C_Read ch), c_seen_tail := t\<rparr>)
        else None
      | _ \<Rightarrow> None)"
| "conc_step np s C_read =
     (case c_pc s of C_Read ch \<Rightarrow> Some (s\<lparr>c_pc := C_Store ch (cc_buffer s ! unat ch)\<rparr>)
      | _ \<Rightarrow> None)"
| "conc_step np s C_store =
     (case c_pc s of C_Store ch x \<Rightarrow>
        Some (s\<lparr>head_mo := head_mo s @ [conc_next s ch], c_seen_head := length (head_mo s),
                c_pc := C_Idle, deqd := deqd s @ [x]\<rparr>)
      | _ \<Rightarrow> None)"

inductive conc_reachable :: "nat \<Rightarrow> 'a ring_queue \<Rightarrow> 'a conc \<Rightarrow> bool" for np q where
  init: "conc_reachable np q (conc_init q)"
| step: "conc_reachable np q s \<Longrightarrow> conc_step np s a = Some s' \<Longrightarrow> conc_reachable np q s'"

text \<open>A schedule: the threads' steps in the order they happen.\<close>

fun conc_run :: "nat \<Rightarrow> 'a conc \<Rightarrow> 'a conc_action list \<Rightarrow> 'a conc option" where
  "conc_run np s [] = Some s"
| "conc_run np s (a # as) = (case conc_step np s a of None \<Rightarrow> None | Some s1 \<Rightarrow> conc_run np s1 as)"

lemma conc_run_reachable:
  "conc_reachable np q s \<Longrightarrow> conc_run np s as = Some s' \<Longrightarrow> conc_reachable np q s'"
  by (induction as arbitrary: s) (auto split: option.splits intro: conc_reachable.step)

lemma conc_step_capacity: "conc_step np s a = Some s' \<Longrightarrow> cc_capacity s' = cc_capacity s"
  by (cases a) (auto split: if_splits prod_pc.splits cons_pc.splits)

lemma conc_reachable_capacity: "conc_reachable np q s \<Longrightarrow> cc_capacity s = rq_capacity q"
  by (induction rule: conc_reachable.induct) (auto simp: conc_init_def conc_step_capacity)

section \<open>The invariant of one producer and one consumer\<close>

definition idx :: "size_t \<Rightarrow> nat \<Rightarrow> size_t" where
  "idx cap k = of_nat (k mod unat cap)"

definition spsc_shape :: "'a conc \<Rightarrow> bool" where
  "spsc_shape s \<longleftrightarrow> 0 < unat (cc_capacity s) \<and> unat (cc_capacity s) \<le> 2 ^ 63
     \<and> length (cc_buffer s) = unat (cc_capacity s)
     \<and> tail_mo s = map (idx (cc_capacity s)) [0..<Suc (length (enqd s))]
     \<and> head_mo s = map (idx (cc_capacity s)) [0..<Suc (length (deqd s))]
     \<and> p_seen_tail s 0 = length (enqd s) \<and> c_seen_head s = length (deqd s)
     \<and> p_seen_head s 0 \<le> length (deqd s)
     \<and> length (enqd s) < p_seen_head s 0 + unat (cc_capacity s)
     \<and> length (deqd s) \<le> c_seen_tail s \<and> c_seen_tail s \<le> length (enqd s)
     \<and> (\<forall>i > 0. p_pc s i = P_Idle)"

definition spsc_data :: "'a conc \<Rightarrow> bool" where
  "spsc_data s \<longleftrightarrow> deqd s = take (length (deqd s)) (enqd s)
     \<and> (\<forall>k. length (deqd s) \<le> k \<and> k < length (enqd s)
          \<longrightarrow> cc_buffer s ! (k mod unat (cc_capacity s)) = enqd s ! k)"

fun spsc_prod :: "size_t \<Rightarrow> nat \<Rightarrow> nat \<Rightarrow> 'a list \<Rightarrow> 'a prod_pc \<Rightarrow> bool" where
  "spsc_prod cap T seen buf P_Idle = True"
| "spsc_prod cap T seen buf (P_LoadHead x ct nt) = (ct = idx cap T \<and> nt = idx cap (Suc T))"
| "spsc_prod cap T seen buf (P_Write x ct nt) =
     (ct = idx cap T \<and> nt = idx cap (Suc T) \<and> Suc T < seen + unat cap)"
| "spsc_prod cap T seen buf (P_Store x nt) =
     (nt = idx cap (Suc T) \<and> Suc T < seen + unat cap \<and> buf ! (T mod unat cap) = x)"

fun spsc_cons :: "size_t \<Rightarrow> nat \<Rightarrow> nat \<Rightarrow> 'a list \<Rightarrow> 'a cons_pc \<Rightarrow> bool" where
  "spsc_cons cap H seen xs C_Idle = True"
| "spsc_cons cap H seen xs (C_LoadTail ch) = (ch = idx cap H)"
| "spsc_cons cap H seen xs (C_Read ch) = (ch = idx cap H \<and> H < seen)"
| "spsc_cons cap H seen xs (C_Store ch x) = (ch = idx cap H \<and> H < seen \<and> x = xs ! H)"

definition spsc_inv :: "'a conc \<Rightarrow> bool" where
  "spsc_inv s \<longleftrightarrow> spsc_shape s \<and> spsc_data s
     \<and> spsc_prod (cc_capacity s) (length (enqd s)) (p_seen_head s 0) (cc_buffer s) (p_pc s 0)
     \<and> spsc_cons (cc_capacity s) (length (deqd s)) (c_seen_tail s) (enqd s) (c_pc s)"

lemmas spsc_defs = spsc_inv_def spsc_shape_def spsc_data_def

lemma spsc_cons_snoc:
  "spsc_cons cap H seen xs pc \<Longrightarrow> seen \<le> length xs \<Longrightarrow> spsc_cons cap H seen (xs @ ys) pc"
  by (cases pc) (auto simp: nth_append)

lemma unat_idx [simp]:
  assumes "0 < unat cap" shows "unat (idx cap k) = k mod unat cap"
proof -
  have "k mod unat cap < unat cap" using assms by simp
  also have "\<dots> < 2 ^ 64" using unsigned_less [of cap] by simp
  finally show ?thesis by (simp add: idx_def unat_of_nat)
qed

lemma conc_next_idx:
  assumes "spsc_shape s" shows "conc_next s (idx (cc_capacity s) k) = idx (cc_capacity s) (Suc k)"
proof -
  have cap: "0 < unat (cc_capacity s)" "unat (cc_capacity s) \<le> 2 ^ 63"
    using assms by (simp_all add: spsc_shape_def)
  then have lt: "k mod unat (cc_capacity s) < 2 ^ 63"
    using mod_less_divisor [OF cap(1), of k] by linarith
  have "unat (idx (cc_capacity s) k + 1) = Suc (k mod unat (cc_capacity s))"
    using lt cap by (simp add: unat_word_ariths)
  then have "unat (conc_next s (idx (cc_capacity s) k)) = Suc k mod unat (cc_capacity s)"
    by (simp add: conc_next_def unat_mod mod_Suc_eq)
  then show ?thesis using cap by (simp add: word_unat_eq_iff)
qed

lemma idx_wrap: "idx cap (a + unat cap) = idx cap a"
  by (simp add: idx_def)

lemma mod_neq_window:
  "k < (m::nat) \<Longrightarrow> m < k + n \<Longrightarrow> k mod n \<noteq> m mod n"
  using mod_add_inj [of 0 n "m - k" k] by fastforce

lemma map_idx_nth: "k \<le> n \<Longrightarrow> map f [0..<Suc n] ! k = f k"
  by (simp del: upt_Suc)

section \<open>Every step keeps the invariant\<close>

lemma spsc_init:
  assumes "rq_wf q" "rq_head q = 0" "rq_tail q = 0"
  shows "spsc_inv (conc_init q)"
  using assms by (simp add: spsc_defs conc_init_def rq_wf_def idx_def)

lemma spsc_P_begin:
  assumes inv: "spsc_inv s" and st: "conc_step (Suc 0) s (P_begin i x t) = Some s'"
  shows "spsc_inv s'"
proof -
  from st have i: "i = 0" "p_seen_tail s 0 \<le> t" "t < length (tail_mo s)"
    and s': "s' = s\<lparr>p_pc := (p_pc s)(i := P_LoadHead x (tail_mo s ! t) (conc_next s (tail_mo s ! t))),
                   p_seen_tail := (p_seen_tail s)(i := t)\<rparr>"
    by (auto split: if_splits)
  have sh: "spsc_shape s" using inv by (simp add: spsc_inv_def)
  then have t: "t = length (enqd s)" using i by (simp add: spsc_shape_def)
  then have "tail_mo s ! t = idx (cc_capacity s) (length (enqd s))"
    using sh by (simp add: spsc_shape_def map_idx_nth del: upt_Suc)
  then show ?thesis
    using inv conc_next_idx [OF sh] i t
    by (simp add: s' spsc_defs del: upt_Suc)
qed

lemma spsc_P_check:
  assumes inv: "spsc_inv s" and st: "conc_step (Suc 0) s (P_check i h) = Some s'"
  shows "spsc_inv s'"
proof -
  from st obtain x ct nt where pc: "p_pc s 0 = P_LoadHead x ct nt"
    and i: "i = 0" "p_seen_head s 0 \<le> h" "h < length (head_mo s)"
    and s': "s' = s\<lparr>p_pc := (p_pc s)(0 := if nt = head_mo s ! h then P_Idle else P_Write x ct nt),
                   p_seen_head := (p_seen_head s)(0 := h)\<rparr>"
    by (auto split: if_splits prod_pc.splits)
  have sh: "spsc_shape s" using inv by (simp add: spsc_inv_def)
  let ?n = "unat (cc_capacity s)" and ?T = "length (enqd s)"
  have h: "h \<le> length (deqd s)" and n: "0 < ?n" and T: "?T < h + ?n"
    using i sh by (simp_all add: spsc_shape_def)
  then have hd: "head_mo s ! h = idx (cc_capacity s) h"
    using sh by (simp add: spsc_shape_def map_idx_nth del: upt_Suc)
  have nt: "ct = idx (cc_capacity s) ?T" "nt = idx (cc_capacity s) (Suc ?T)"
    using inv pc by (simp_all add: spsc_inv_def)
  have room: "Suc ?T < h + ?n" if "nt \<noteq> head_mo s ! h"
  proof -
    have "Suc ?T \<noteq> h + ?n" using that hd nt idx_wrap [of "cc_capacity s" h] by metis
    then show ?thesis using T by linarith
  qed
  show ?thesis
    using inv nt room h T i by (auto simp: s' spsc_defs simp del: upt_Suc)
qed

lemma spsc_P_write:
  assumes inv: "spsc_inv s" and st: "conc_step (Suc 0) s (P_write i) = Some s'"
  shows "spsc_inv s'"
proof -
  have i: "i = 0" using inv st by (cases i) (auto simp: spsc_inv_def spsc_shape_def)
  from st i obtain x ct nt where pc: "p_pc s 0 = P_Write x ct nt"
    and s': "s' = s\<lparr>cc_buffer := (cc_buffer s)[unat ct := x], p_pc := (p_pc s)(0 := P_Store x nt)\<rparr>"
    by (auto split: prod_pc.splits)
  have sh: "spsc_shape s" using inv by (simp add: spsc_inv_def)
  let ?n = "unat (cc_capacity s)" and ?T = "length (enqd s)"
  have n: "0 < ?n" "length (cc_buffer s) = ?n" and T: "?T < length (deqd s) + ?n"
    using sh by (simp_all add: spsc_shape_def)
  have ct: "unat ct = ?T mod ?n" using inv pc n by (simp add: spsc_inv_def)
  have "(cc_buffer s)[?T mod ?n := x] ! (k mod ?n) = enqd s ! k"
    if "length (deqd s) \<le> k" "k < ?T" for k
  proof -
    have "k mod ?n \<noteq> ?T mod ?n" using that T by (intro mod_neq_window) simp_all
    then show ?thesis using that inv by (simp add: spsc_inv_def spsc_data_def)
  qed
  then show ?thesis
    using inv pc ct n by (simp add: s' spsc_defs del: upt_Suc)
qed

lemma spsc_P_store:
  assumes inv: "spsc_inv s" and st: "conc_step (Suc 0) s (P_store i) = Some s'"
  shows "spsc_inv s'"
proof -
  have i: "i = 0" using inv st by (cases i) (auto simp: spsc_inv_def spsc_shape_def)
  from st i obtain x nt where pc: "p_pc s 0 = P_Store x nt"
    and s': "s' = s\<lparr>tail_mo := tail_mo s @ [nt], p_seen_tail := (p_seen_tail s)(0 := length (tail_mo s)),
                p_pc := (p_pc s)(0 := P_Idle), enqd := enqd s @ [x]\<rparr>"
    by (auto split: prod_pc.splits)
  have nt: "nt = idx (cc_capacity s) (Suc (length (enqd s)))"
    using inv pc by (simp add: spsc_inv_def)
  have "spsc_shape s'"
    using inv pc nt by (simp add: s' spsc_inv_def spsc_shape_def)
  moreover have "spsc_data s'"
    using inv pc by (auto simp: s' spsc_defs nth_append less_Suc_eq)
  ultimately show ?thesis using inv by (simp add: spsc_inv_def s' spsc_cons_snoc spsc_shape_def)
qed

lemma spsc_C_begin:
  assumes inv: "spsc_inv s" and st: "conc_step (Suc 0) s (C_begin h) = Some s'"
  shows "spsc_inv s'"
proof -
  from st have h: "c_seen_head s \<le> h" "h < length (head_mo s)"
    and s': "s' = s\<lparr>c_pc := C_LoadTail (head_mo s ! h), c_seen_head := h\<rparr>"
    by (auto split: if_splits)
  have sh: "spsc_shape s" using inv by (simp add: spsc_inv_def)
  then have "h = length (deqd s)" using h by (simp add: spsc_shape_def)
  moreover have "head_mo s ! length (deqd s) = idx (cc_capacity s) (length (deqd s))"
    using sh by (simp add: spsc_shape_def map_idx_nth del: upt_Suc)
  ultimately show ?thesis
    using inv by (simp add: s' spsc_defs del: upt_Suc)
qed

lemma spsc_C_check:
  assumes inv: "spsc_inv s" and st: "conc_step (Suc 0) s (C_check t) = Some s'"
  shows "spsc_inv s'"
proof -
  from st obtain ch where pc: "c_pc s = C_LoadTail ch"
    and t: "c_seen_tail s \<le> t" "t < length (tail_mo s)"
    and s': "s' = s\<lparr>c_pc := (if ch = tail_mo s ! t then C_Idle else C_Read ch), c_seen_tail := t\<rparr>"
    by (auto split: if_splits cons_pc.splits)
  have sh: "spsc_shape s" using inv by (simp add: spsc_inv_def)
  have bounds: "length (deqd s) \<le> t" "t \<le> length (enqd s)"
    using sh t by (simp_all add: spsc_shape_def)
  have "tail_mo s ! t = idx (cc_capacity s) t"
    using sh bounds by (simp add: spsc_shape_def map_idx_nth del: upt_Suc)
  moreover have "ch = idx (cc_capacity s) (length (deqd s))"
    using inv pc by (simp add: spsc_inv_def)
  ultimately have "length (deqd s) < t" if "ch \<noteq> tail_mo s ! t"
    using that bounds by (cases "t = length (deqd s)") auto
  then show ?thesis
    using inv pc bounds by (auto simp: s' spsc_defs simp del: upt_Suc)
qed

lemma spsc_C_read:
  assumes inv: "spsc_inv s" and st: "conc_step (Suc 0) s C_read = Some s'"
  shows "spsc_inv s'"
proof -
  from st obtain ch where pc: "c_pc s = C_Read ch"
    and s': "s' = s\<lparr>c_pc := C_Store ch (cc_buffer s ! unat ch)\<rparr>"
    by (auto split: cons_pc.splits)
  have "cc_buffer s ! unat ch = enqd s ! length (deqd s)"
    using inv pc by (simp add: spsc_defs)
  then show ?thesis
    using inv pc by (simp add: s' spsc_defs del: upt_Suc)
qed

lemma spsc_C_store:
  assumes inv: "spsc_inv s" and st: "conc_step (Suc 0) s C_store = Some s'"
  shows "spsc_inv s'"
proof -
  from st obtain ch x where pc: "c_pc s = C_Store ch x"
    and s': "s' = s\<lparr>head_mo := head_mo s @ [conc_next s ch], c_seen_head := length (head_mo s),
                c_pc := C_Idle, deqd := deqd s @ [x]\<rparr>"
    by (auto split: cons_pc.splits)
  have sh: "spsc_shape s" using inv by (simp add: spsc_inv_def)
  have x: "x = enqd s ! length (deqd s)" "length (deqd s) < length (enqd s)"
    and nx: "conc_next s ch = idx (cc_capacity s) (Suc (length (deqd s)))"
    using inv pc conc_next_idx [OF sh] by (auto simp: spsc_defs)
  have "spsc_shape s'"
    using inv pc nx by (simp add: s' spsc_inv_def spsc_shape_def)
  moreover have "spsc_data s'"
    using inv x take_Suc_conv_app_nth [OF x(2)] by (auto simp: s' spsc_inv_def spsc_data_def)
  ultimately show ?thesis using inv by (simp add: spsc_inv_def s')
qed

lemmas spsc_steps = spsc_P_begin spsc_P_check spsc_P_write spsc_P_store
  spsc_C_begin spsc_C_check spsc_C_read spsc_C_store

lemma spsc_step: "spsc_inv s \<Longrightarrow> conc_step (Suc 0) s a = Some s' \<Longrightarrow> spsc_inv s'"
  by (cases a) (metis spsc_steps)+

lemma spsc_reachable:
  assumes "conc_reachable (Suc 0) q s" "rq_wf q" "rq_head q = 0" "rq_tail q = 0"
  shows "spsc_inv s"
  using assms by (induction rule: conc_reachable.induct) (auto intro: spsc_init spsc_step)

section \<open>What the queue guarantees its two threads\<close>

text \<open>
  C1: one producer, one consumer. In every state that any interleaving of the two threads
  (with any stale index reads the memory model allows) can reach from a newly constructed
  queue, the items delivered are exactly the first items accepted, in order: nothing is
  lost, duplicated or reordered; and at most \<open>capacity - 1\<close> accepted items are waiting.
\<close>

theorem spsc_fifo:
  assumes "rq_new m d c = Inr q" "unat m \<le> 2 ^ 63" "conc_reachable 1 q s"
  shows "deqd s = take (length (deqd s)) (enqd s)
     \<and> length (deqd s) \<le> length (enqd s) \<and> length (enqd s) < length (deqd s) + unat c"
proof -
  have "rq_wf q" "rq_head q = 0" "rq_tail q = 0" "rq_capacity q = c"
    using rq_new_wf [OF assms(1,2)] assms(1) by (auto simp: rq_new_def split: if_splits)
  then have "spsc_inv s" "cc_capacity s = c"
    using assms(3) spsc_reachable [of q s] conc_reachable_capacity [of 1 q s] by simp_all
  then show ?thesis by (auto simp: spsc_defs)
qed


theorem spsc_fifo_witness:
  "\<exists>s. conc_reachable 1 \<lparr>rq_capacity = 2, rq_buffer = [0, 0::nat], rq_head = 0, rq_tail = 0\<rparr> s
     \<and> deqd s = [7] \<and> take 1 (enqd s) = [7] \<and> length (enqd s) < 1 + unat (2 :: size_t)"
proof -
  let ?q = "\<lparr>rq_capacity = 2, rq_buffer = [0, 0::nat], rq_head = 0, rq_tail = 0\<rparr>"
  let ?as = "[P_begin 0 7 0, P_check 0 0, P_write 0, P_store 0, C_begin 0, C_check 1, C_read, C_store]"
  have new: "rq_new 4 0 2 = Inr ?q" by (simp add: rq_new_def replicate_numeral)
  obtain s where s: "conc_run 1 (conc_init ?q) ?as = Some s" "deqd s = [7]"
    by (simp add: conc_init_def conc_next_def)
  have r: "conc_reachable 1 ?q s"
    using conc_run_reachable [OF conc_reachable.init s(1)] .
  from spsc_fifo [OF new _ r] r s(2) show ?thesis by (intro exI [of _ s]) simp
qed

text \<open>
  C14: the two threads never race on a slot. Whenever the producer is about to write a slot
  and the consumer is about to read one, the slots differ, so the unsynchronised accesses
  \<open>buffer_[current_tail] = data\<close> and \<open>data = buffer_[current_head]\<close> never conflict.
\<close>

theorem spsc_no_slot_race:
  assumes "rq_new m d c = Inr q" "unat m \<le> 2 ^ 63" "conc_reachable 1 q s"
    and "p_pc s 0 = P_Write x ct nt" "c_pc s = C_Read ch"
  shows "ct \<noteq> ch"
proof -
  have "rq_wf q" "rq_head q = 0" "rq_tail q = 0"
    using rq_new_wf [OF assms(1,2)] assms(1) by (auto simp: rq_new_def split: if_splits)
  then have inv: "spsc_inv s" using assms(3) spsc_reachable [of q s] by simp
  let ?n = "unat (cc_capacity s)"
  have "length (deqd s) < length (enqd s)" "length (enqd s) < length (deqd s) + ?n" "0 < ?n"
    using inv assms(4,5) by (auto simp: spsc_defs)
  then have "length (deqd s) mod ?n \<noteq> length (enqd s) mod ?n" by (intro mod_neq_window)
  moreover have "unat ct = length (enqd s) mod ?n" "unat ch = length (deqd s) mod ?n"
    using inv assms(4,5) \<open>0 < ?n\<close> by (auto simp: spsc_inv_def)
  ultimately show ?thesis by auto
qed

theorem spsc_no_slot_race_witness:
  "\<exists>s. conc_reachable 1 \<lparr>rq_capacity = 3, rq_buffer = [0, 0, 0::nat], rq_head = 0, rq_tail = 0\<rparr> s
     \<and> p_pc s 0 = P_Write 8 1 2 \<and> c_pc s = C_Read 0 \<and> (1 :: size_t) \<noteq> 0"
proof -
  let ?q = "\<lparr>rq_capacity = 3, rq_buffer = [0, 0, 0::nat], rq_head = 0, rq_tail = 0\<rparr>"
  let ?as = "[P_begin 0 7 0, P_check 0 0, P_write 0, P_store 0, P_begin 0 8 1, P_check 0 0, C_begin 0, C_check 1]"
  have new: "rq_new 4 0 3 = Inr ?q" by (simp add: rq_new_def replicate_numeral)
  obtain s where s: "conc_run 1 (conc_init ?q) ?as = Some s"
      "p_pc s 0 = P_Write 8 1 2" "c_pc s = C_Read 0"
    by (simp add: conc_init_def conc_next_def)
  have r: "conc_reachable 1 ?q s"
    using conc_run_reachable [OF conc_reachable.init s(1)] .
  from spsc_no_slot_race [OF new _ r s(2,3)] r s show ?thesis by (intro exI [of _ s]) simp
qed

text \<open>
  C36: two producers break it. A queue shared by two producer threads can reach a state in
  which both \<open>enqueue\<close> calls have returned \<open>true\<close>, every thread is idle again, the consumer
  has drained the queue (it has read the newest indices, which are equal), and yet only the
  second item was ever delivered: the first is lost without any error. This is how the six
  workers of \<open>SixDofCalculator\<close> use \<open>rq_sixdof_\<close>.
\<close>

theorem mpsc_loses_items:
  "\<exists>s. conc_reachable 2 \<lparr>rq_capacity = 100, rq_buffer = replicate 100 z, rq_head = 0, rq_tail = 0\<rparr> s
     \<and> enqd s = [a, b] \<and> deqd s = [b]
     \<and> last (head_mo s) = last (tail_mo s) \<and> (\<forall>i. p_pc s i = P_Idle) \<and> c_pc s = C_Idle"
proof -
  let ?q = "\<lparr>rq_capacity = 100, rq_buffer = replicate 100 z, rq_head = 0, rq_tail = 0\<rparr>"
  let ?as = "[P_begin 0 a 0, P_begin 1 b 0, P_check 0 0, P_check 1 0, P_write 0, P_write 1,
     P_store 0, P_store 1, C_begin 0, C_check 2, C_read, C_store]"
  obtain s where s: "conc_run 2 (conc_init ?q) ?as = Some s"
      "enqd s = [a, b]" "deqd s = [b]" "last (head_mo s) = last (tail_mo s)"
      "\<forall>i. p_pc s i = P_Idle" "c_pc s = C_Idle"
    by (simp add: conc_init_def conc_next_def)
  then show ?thesis using conc_run_reachable [OF conc_reachable.init s(1)] by blast
qed

end
