(* ===== verification/Wharf_Dock.thy ===== *)
theory Wharf_Dock
  imports Cbyd_Prelude
begin

text \<open>
  \<open>include/common_base.h\<close>, \<open>include/wharf_dock_checker.h\<close> and \<open>src/wharf_dock_checker.cpp\<close>:
  fitting the edge of the wharf by a line and choosing, from a sliding window of 50 ship
  poses, the base frame at which the ship is considered moored.
\<close>

section \<open>Data\<close>

record point3d =
  pt_x :: real
  pt_y :: real
  pt_z :: real

record ship_pose =
  sp_tx :: real
  sp_ty :: real
  sp_tz :: real
  sp_rx :: real
  sp_ry :: real
  sp_rz :: real
  sp_timestamp :: u64

text \<open>\<open>base_frame_\<close> is uninitialised until a base frame is found: \<open>None\<close>.\<close>

record wharf_checker =
  wharf_A :: real
  wharf_B :: real
  wharf_C :: real
  wharf_yaw :: real
  pose_buf :: "ship_pose list"
  has_found_base_frame :: bool
  base_frame :: "ship_pose option"

definition WINDOW_SIZE :: nat where "WINDOW_SIZE = 50"
definition MAX_ANGLE_ERR :: real where "MAX_ANGLE_ERR = 3"
definition MAX_DIST_MIN :: real where "MAX_DIST_MIN = 1"
definition MAX_DIST_MAX :: real where "MAX_DIST_MAX = 8"
definition MAX_YAW_FLUCTUATION :: real where "MAX_YAW_FLUCTUATION = 2"
definition MAX_DIST_FLUCTUATION :: real where "MAX_DIST_FLUCTUATION = 1 / 2"

lemmas wharf_consts [simp] = WINDOW_SIZE_def MAX_ANGLE_ERR_def MAX_DIST_MIN_def
  MAX_DIST_MAX_def MAX_YAW_FLUCTUATION_def MAX_DIST_FLUCTUATION_def

definition wharf_new :: wharf_checker where
  "wharf_new = \<lparr>wharf_A = 0, wharf_B = 0, wharf_C = 0, wharf_yaw = 0, pose_buf = [],
     has_found_base_frame = False, base_frame = None\<rparr>"

section \<open>Operations\<close>

text \<open>The accumulation loop of \<open>fitWharfLine\<close>: sums of \<open>x\<close>, \<open>y\<close>, \<open>x\<^sup>2\<close>, \<open>y\<^sup>2\<close> and \<open>x y\<close>.\<close>

fun fit_sums :: "real \<times> real \<times> real \<times> real \<times> real \<Rightarrow> point3d list
    \<Rightarrow> real \<times> real \<times> real \<times> real \<times> real" where
  "fit_sums acc [] = acc"
| "fit_sums (x_sum, y_sum, x2_sum, y2_sum, xy_sum) (p # ps) =
     fit_sums (x_sum + pt_x p, y_sum + pt_y p, x2_sum + pt_x p * pt_x p,
               y2_sum + pt_y p * pt_y p, xy_sum + pt_x p * pt_y p) ps"

definition fitWharfLine :: "point3d list \<Rightarrow> wharf_checker \<Rightarrow> bool \<times> wharf_checker" where
  "fitWharfLine wharf_points w =
     (let n = length wharf_points in
      if n < 2 then (False, w)
      else let (x_sum, y_sum, x2_sum, y2_sum, xy_sum) = fit_sums (0, 0, 0, 0, 0) wharf_points;
               A = of_nat n * xy_sum - x_sum * y_sum;
               B = y_sum * y_sum - of_nat n * y2_sum;
               C = x_sum * (y2_sum - xy_sum) - y_sum * (x2_sum - xy_sum);
               norm = sqrt (A * A + B * B)
           in if norm < 1 / 10 ^ 6 then (False, w)
              else (True, w\<lparr>wharf_A := A / norm, wharf_B := B / norm, wharf_C := C / norm\<rparr>))"

definition calcWharfYawDegree :: "wharf_checker \<Rightarrow> real \<times> wharf_checker" where
  "calcWharfYawDegree w =
     (let angle_rad = atan2 (- wharf_A w) (wharf_B w);
          yaw = angle_rad * 180 / pi
      in (yaw, w\<lparr>wharf_yaw := yaw\<rparr>))"

definition wrapAngle :: "real \<Rightarrow> real" where
  "wrapAngle deg =
     (let d = fmod (deg + 180) 360;
          d' = (if d < 0 then d + 360 else d)
      in d' - 180)"

definition distanceToWharf :: "wharf_checker \<Rightarrow> real \<Rightarrow> real \<Rightarrow> real" where
  "distanceToWharf w x y = \<bar>wharf_A w * x + wharf_B w * y + wharf_C w\<bar>"

definition addPoseFrame :: "ship_pose \<Rightarrow> wharf_checker \<Rightarrow> wharf_checker" where
  "addPoseFrame pose w =
     (if has_found_base_frame w then w
      else let buf = pose_buf w @ [pose]
           in w\<lparr>pose_buf := (if WINDOW_SIZE < length buf then tl buf else buf)\<rparr>)"

text \<open>One pass over the window: sums and extrema of heading and distance.\<close>

type_synonym window_stats = "real \<times> real \<times> real \<times> real \<times> real \<times> real"

fun scan_pose :: "wharf_checker \<Rightarrow> window_stats \<Rightarrow> ship_pose \<Rightarrow> window_stats" where
  "scan_pose w (yaw_sum, dist_sum, ymin, ymax, dmin, dmax) p =
     (let yaw = wrapAngle (sp_rz p);
          dist = distanceToWharf w (sp_tx p) (sp_ty p)
      in (yaw_sum + yaw, dist_sum + dist,
          if yaw < ymin then yaw else ymin, if yaw > ymax then yaw else ymax,
          if dist < dmin then dist else dmin, if dist > dmax then dist else dmax))"

definition scan_window :: "wharf_checker \<Rightarrow> window_stats" where
  "scan_window w = foldl (scan_pose w) (0, 0, 10 ^ 9, - (10 ^ 9), 10 ^ 9, - (10 ^ 9)) (pose_buf w)"

text \<open>
  \<open>getStableDockBaseFrame\<close>: \<open>Some\<close> of the frame for \<open>true\<close>, \<open>None\<close> for \<open>false\<close> (the reference
  argument is then not written).
\<close>

definition getStableDockBaseFrame :: "wharf_checker \<Rightarrow> ship_pose option \<times> wharf_checker" where
  "getStableDockBaseFrame w =
     (if has_found_base_frame w then (base_frame w, w)
      else if length (pose_buf w) < WINDOW_SIZE then (None, w)
      else let (yaw_sum, dist_sum, ymin, ymax, dmin, dmax) = scan_window w;
               yaw_mean = wrapAngle (yaw_sum / of_nat WINDOW_SIZE);
               dist_mean = dist_sum / of_nat WINDOW_SIZE;
               yaw_fluct = ymax - ymin;
               dist_fluct = dmax - dmin;
               angle_err = \<bar>wrapAngle (yaw_mean - wharf_yaw w)\<bar>;
               c1 = angle_err < MAX_ANGLE_ERR;
               c2 = (MAX_DIST_MIN \<le> dist_mean \<and> dist_mean \<le> MAX_DIST_MAX);
               c3 = yaw_fluct < MAX_YAW_FLUCTUATION;
               c4 = dist_fluct < MAX_DIST_FLUCTUATION
           in if c1 \<and> c2 \<and> c3 \<and> c4
              then let f = pose_buf w ! (WINDOW_SIZE div 2)
                   in (Some f, w\<lparr>base_frame := Some f, has_found_base_frame := True\<rparr>)
              else (None, w))"

definition getWharfLine :: "wharf_checker \<Rightarrow> real \<times> real \<times> real" where
  "getWharfLine w = (wharf_A w, wharf_B w, wharf_C w)"

section \<open>Headings\<close>

lemma fmod_range:
  assumes "0 < y" shows "\<bar>fmod x y\<bar> < y"
proof -
  have eq: "x = y * (x / y)" using assms by simp
  have "\<bar>x / y - of_int (trunc (x / y))\<bar> < 1"
    unfolding trunc_def by (auto simp: abs_less_iff; linarith)
  then have "y * \<bar>x / y - of_int (trunc (x / y))\<bar> < y * 1"
    using assms by (intro mult_strict_left_mono)
  moreover have "fmod x y = y * (x / y - of_int (trunc (x / y)))"
    using assms by (simp add: fmod_def right_diff_distrib)
  ultimately show ?thesis using assms by (simp add: abs_mult)
qed

text \<open>\<open>wrapAngle\<close> is subtraction of whole turns, chosen by the floor.\<close>

lemma wrapAngle_floor: "wrapAngle deg = deg - 360 * of_int \<lfloor>(deg + 180) / 360\<rfloor>"
proof -
  define q where "q = (deg + 180) / 360"
  have deg: "deg + 180 = 360 * q" by (simp add: q_def)
  have f: "fmod (deg + 180) 360 = 360 * (q - of_int (trunc q))"
    by (simp add: fmod_def q_def right_diff_distrib)
  have "wrapAngle deg + 180 = 360 * (q - of_int \<lfloor>q\<rfloor>)"
  proof (cases "0 \<le> q \<or> q = of_int \<lceil>q\<rceil>")
    case True
    then have "trunc q = \<lfloor>q\<rfloor>" by (metis ceiling_of_int floor_of_int trunc_def)
    moreover have "\<not> q - of_int \<lfloor>q\<rfloor> < 0" by linarith
    ultimately show ?thesis by (simp add: wrapAngle_def f)
  next
    case False
    then have t: "trunc q = \<lfloor>q\<rfloor> + 1" unfolding trunc_def by (simp; linarith)
    have turn: "360 * q < 360 * r + 360" if "q < r + 1" for r :: real using that by simp
    have lt: "360 * q < 360 * of_int \<lfloor>q\<rfloor> + 360"
      by (rule turn) (rule real_of_int_floor_add_one_gt)
    show ?thesis using lt unfolding wrapAngle_def f t Let_def by simp
  qed
  then have "wrapAngle deg = (360 * q - 180) - 360 * of_int \<lfloor>q\<rfloor>" by argo
  also have "360 * q - 180 = deg" using deg by argo
  finally show ?thesis by (simp only: q_def)
qed

lemma wrapAngle_bounds: "- 180 \<le> wrapAngle deg \<and> wrapAngle deg < 180"
proof -
  have "of_int \<lfloor>(deg + 180) / 360\<rfloor> \<le> (deg + 180) / 360"
    "(deg + 180) / 360 < of_int \<lfloor>(deg + 180) / 360\<rfloor> + 1" by linarith+
  then show ?thesis unfolding wrapAngle_floor by (simp add: field_simps)
qed

lemma wrapAngle_turns: "wrapAngle (deg + 360 * of_int k) = wrapAngle deg"
proof -
  have "(deg + 360 * of_int k + 180) / 360 = (deg + 180) / 360 + of_int k" by (simp add: field_simps)
  then have "\<lfloor>(deg + 360 * of_int k + 180) / 360\<rfloor> = \<lfloor>(deg + 180) / 360\<rfloor> + k"
    by (simp only: floor_add_int)
  then show ?thesis unfolding wrapAngle_floor by simp
qed

lemma wrapAngle_id: "- 180 \<le> deg \<Longrightarrow> deg < 180 \<Longrightarrow> wrapAngle deg = deg"
proof -
  assume "- 180 \<le> deg" "deg < 180"
  then have "\<lfloor>(deg + 180) / 360\<rfloor> = 0" by (simp add: floor_eq_iff field_simps)
  then show ?thesis by (simp add: wrapAngle_floor)
qed

section \<open>The fitted line\<close>

lemma fit_sums_eq:
  "fit_sums (a, b, c, d, e) ps =
     (a + sum_list (map pt_x ps), b + sum_list (map pt_y ps),
      c + sum_list (map (\<lambda>p. pt_x p * pt_x p) ps), d + sum_list (map (\<lambda>p. pt_y p * pt_y p) ps),
      e + sum_list (map (\<lambda>p. pt_x p * pt_y p) ps))"
  by (induction ps arbitrary: a b c d e) (simp_all add: algebra_simps)

lemma fitWharfLine_False: "fst (fitWharfLine ps w) = False \<Longrightarrow> snd (fitWharfLine ps w) = w"
  by (auto simp: fitWharfLine_def Let_def split: if_splits prod.splits)

lemma fitWharfLine_normalised:
  assumes "fitWharfLine ps w = (True, w')"
  shows "(wharf_A w')\<^sup>2 + (wharf_B w')\<^sup>2 = 1"
proof -
  from assms obtain A B C where AB: "\<not> sqrt (A * A + B * B) < 1 / 10 ^ 6"
    and w': "w' = w\<lparr>wharf_A := A / sqrt (A * A + B * B), wharf_B := B / sqrt (A * A + B * B),
                   wharf_C := C / sqrt (A * A + B * B)\<rparr>"
    by (auto simp: fitWharfLine_def Let_def split: if_splits prod.splits)
  have sq: "(sqrt (A * A + B * B))\<^sup>2 = A * A + B * B" by simp
  have nz: "A * A + B * B \<noteq> 0"
  proof
    assume "A * A + B * B = 0"
    then have "sqrt (A * A + B * B) = 0" by simp
    with AB show False by simp
  qed
  show ?thesis unfolding w'
    using sq nz by (simp add: power_divide flip: add_divide_distrib) (simp add: power2_eq_square)
qed

lemma sum_list_const_mult: "\<forall>p\<in>set ps. g p = (c::real) \<Longrightarrow>
    sum_list (map (\<lambda>p. f p * g p) ps) = sum_list (map f ps) * c"
  by (induction ps) (auto simp: algebra_simps)

lemma sum_list_const: "\<forall>p\<in>set ps. g p = (c::real) \<Longrightarrow> sum_list (map g ps) = of_nat (length ps) * c"
  by (induction ps) (auto simp: algebra_simps)

lemma sums_on_line:
  fixes m b :: real
  assumes "\<forall>p\<in>set ps. pt_y p = m * pt_x p + b"
  shows "sum_list (map pt_y ps) = m * sum_list (map pt_x ps) + of_nat (length ps) * b"
    and "sum_list (map (\<lambda>p. pt_x p * pt_y p) ps)
       = m * sum_list (map (\<lambda>p. pt_x p * pt_x p) ps) + b * sum_list (map pt_x ps)"
    and "sum_list (map (\<lambda>p. pt_y p * pt_y p) ps)
       = m * m * sum_list (map (\<lambda>p. pt_x p * pt_x p) ps) + 2 * m * b * sum_list (map pt_x ps)
         + of_nat (length ps) * b * b"
  using assms by (induction ps) (simp_all add: algebra_simps)

text \<open>The coefficients before normalisation, for points on a common line.\<close>

lemma fit_coefficients_on_line:
  fixes m b :: real
  assumes "\<forall>p\<in>set ps. pt_y p = m * pt_x p + b"
    and "fit_sums (0, 0, 0, 0, 0) ps = (sx, sy, sx2, sy2, sxy)"
  shows "sy * sy - of_nat (length ps) * sy2 = - m * (of_nat (length ps) * sxy - sx * sy)"
proof -
  let ?n = "of_nat (length ps) :: real"
  have sy: "sy = m * sx + ?n * b" and sxy: "sxy = m * sx2 + b * sx"
    and sy2: "sy2 = m * m * sx2 + 2 * m * b * sx + ?n * b * b"
    using assms(2) sums_on_line [OF assms(1)] by (auto simp: fit_sums_eq)
  show ?thesis unfolding sy sxy sy2 by (simp add: algebra_simps)
qed

text \<open>
  The line \<open>fitWharfLine\<close> reports for collinear points is not the line through them.
  For points on \<open>y = m x + b\<close> the result satisfies \<open>B = - m A\<close>, so its slope is \<open>1 / m\<close>
  instead of \<open>m\<close>; a wharf edge parallel to the \<open>x\<close> axis (\<open>m = 0\<close>) is always refused, with
  the old line kept; and for the two points \<open>(0, 0)\<close> and \<open>(1, 2)\<close> the reported line passes
  the first of them at distance \<open>2 / sqrt 5\<close>.
\<close>

theorem fitWharfLine_wrong_line:
  "((\<forall>p\<in>set ps. pt_y p = m * pt_x p + b) \<longrightarrow> fitWharfLine ps w = (True, w') \<longrightarrow>
      wharf_B w' = - m * wharf_A w')
   \<and> ((\<forall>p\<in>set ps. pt_y p = b) \<longrightarrow> fitWharfLine ps w = (False, w))
   \<and> (\<exists>w2. fitWharfLine [\<lparr>pt_x = 0, pt_y = 0, pt_z = 0\<rparr>, \<lparr>pt_x = 1, pt_y = 2, pt_z = 0\<rparr>] w = (True, w2)
         \<and> distanceToWharf w2 0 0 = 2 / sqrt 5)"
proof (intro conjI impI)
  assume "\<forall>p\<in>set ps. pt_y p = m * pt_x p + b" "fitWharfLine ps w = (True, w')"
  then show "wharf_B w' = - m * wharf_A w'"
    using fit_coefficients_on_line [of ps m b]
    by (auto simp: fitWharfLine_def Let_def split: if_splits prod.splits)
next
  assume flat: "\<forall>p\<in>set ps. pt_y p = b"
  obtain sx sy sx2 sy2 sxy where f: "fit_sums (0, 0, 0, 0, 0) ps = (sx, sy, sx2, sy2, sxy)"
    using prod_cases5 by blast
  have "sy * sy - of_nat (length ps) * sy2 = 0"
    using fit_coefficients_on_line [of ps 0 b] flat f by simp
  moreover have "of_nat (length ps) * sxy - sx * sy = 0"
    using sums_on_line [of ps 0 b] flat f by (auto simp: fit_sums_eq)
  ultimately show "fitWharfLine ps w = (False, w)" by (simp add: fitWharfLine_def f Let_def)
next
  have "sqrt 20 = 2 * sqrt (5::real)" using real_sqrt_mult [of 4 5] by simp
  moreover have "1 / 10 ^ 6 \<le> (1::real)" "1 \<le> sqrt (20::real)" by simp_all
  ultimately show "\<exists>w2. fitWharfLine [\<lparr>pt_x = 0, pt_y = 0, pt_z = 0\<rparr>,
      \<lparr>pt_x = 1, pt_y = 2, pt_z = 0\<rparr>] w = (True, w2) \<and> distanceToWharf w2 0 0 = 2 / sqrt 5"
    by (simp add: fitWharfLine_def distanceToWharf_def Let_def)
qed

theorem fitWharfLine_wrong_line_witness:
  "\<exists>w2. fitWharfLine [\<lparr>pt_x = 0, pt_y = 0, pt_z = 0\<rparr>, \<lparr>pt_x = 1, pt_y = 2, pt_z = 0\<rparr>] wharf_new = (True, w2)
     \<and> wharf_B w2 = - 2 * wharf_A w2"
proof -
  let ?ps = "[\<lparr>pt_x = 0, pt_y = 0, pt_z = 0\<rparr>, \<lparr>pt_x = 1, pt_y = 2, pt_z = 0\<rparr>]"
  obtain w2 where w2: "fitWharfLine ?ps wharf_new = (True, w2)"
    using fitWharfLine_wrong_line [of ?ps 2 0 wharf_new] by blast
  moreover have "\<forall>p\<in>set ?ps. pt_y p = 2 * pt_x p + 0" by simp
  ultimately have "wharf_B w2 = - 2 * wharf_A w2"
    using fitWharfLine_wrong_line [of ?ps 2 0 wharf_new w2] by blast
  with w2 show ?thesis by blast
qed

section \<open>The window and the decision\<close>

definition pose_yaw :: "ship_pose \<Rightarrow> real" where
  "pose_yaw p = wrapAngle (sp_rz p)"

definition pose_dist :: "wharf_checker \<Rightarrow> ship_pose \<Rightarrow> real" where
  "pose_dist w p = distanceToWharf w (sp_tx p) (sp_ty p)"

text \<open>
  The intended meaning of "moored": a full window in which no two headings differ by two
  degrees, no two distances to the wharf by half a metre, the mean distance is between one
  and eight metres, and the mean heading is within three degrees of the wharf's.
\<close>

definition moored :: "wharf_checker \<Rightarrow> bool" where
  "moored w \<longleftrightarrow> length (pose_buf w) = 50
     \<and> (\<forall>p\<in>set (pose_buf w). \<forall>q\<in>set (pose_buf w). pose_yaw p - pose_yaw q < 2)
     \<and> (\<forall>p\<in>set (pose_buf w). \<forall>q\<in>set (pose_buf w). pose_dist w p - pose_dist w q < 1 / 2)
     \<and> 1 \<le> sum_list (map (pose_dist w) (pose_buf w)) / 50
     \<and> sum_list (map (pose_dist w) (pose_buf w)) / 50 \<le> 8
     \<and> \<bar>wrapAngle (sum_list (map pose_yaw (pose_buf w)) / 50 - wharf_yaw w)\<bar> < 3"

lemma scan_eq:
  "foldl (scan_pose w) (a, b, c, d, e, f) ps =
     (a + sum_list (map pose_yaw ps), b + sum_list (map (pose_dist w) ps),
      foldl min c (map pose_yaw ps), foldl max d (map pose_yaw ps),
      foldl min e (map (pose_dist w) ps), foldl max f (map (pose_dist w) ps))"
  by (induction ps arbitrary: a b c d e f)
    (simp_all add: Let_def pose_yaw_def pose_dist_def min_def max_def algebra_simps)

lemma pose_yaw_range: "- (10 ^ 9) \<le> pose_yaw p \<and> pose_yaw p \<le> 10 ^ 9"
  using wrapAngle_bounds [of "sp_rz p"] by (auto simp: pose_yaw_def)

lemma mean_of_window:
  assumes "length ps = 50"
  shows "- 180 \<le> sum_list (map pose_yaw ps) / 50 \<and> sum_list (map pose_yaw ps) / 50 < 180"
proof -
  have "- 180 * of_nat (length qs) \<le> sum_list (map pose_yaw qs)
      \<and> sum_list (map pose_yaw qs) \<le> 180 * of_nat (length qs)
      \<and> (qs \<noteq> [] \<longrightarrow> sum_list (map pose_yaw qs) < 180 * of_nat (length qs))" for qs
  proof (induction qs)
    case (Cons q qs)
    then show ?case using wrapAngle_bounds [of "sp_rz q"] by (simp add: pose_yaw_def)
  qed simp
  from this [of ps] assms show ?thesis by force
qed

lemma pose_dist_nonneg: "0 \<le> pose_dist w p"
  by (simp add: pose_dist_def distanceToWharf_def)

lemma pose_dist_bounded:
  assumes "sum_list (map (pose_dist w) ps) \<le> 400" "p \<in> set ps"
  shows "pose_dist w p \<le> 400"
  using sum_list_bound_member [of "map (pose_dist w) ps" "pose_dist w p"] assms
  by (simp add: pose_dist_nonneg)

lemma getStable_search:
  assumes "\<not> has_found_base_frame w" "length (pose_buf w) \<le> 50"
  shows "getStableDockBaseFrame w =
     (if moored w
      then (Some (pose_buf w ! 25), w\<lparr>base_frame := Some (pose_buf w ! 25), has_found_base_frame := True\<rparr>)
      else (None, w))"
proof (cases "length (pose_buf w) = 50")
  case False
  then show ?thesis using assms by (simp add: getStableDockBaseFrame_def moored_def)
next
  case True
  let ?ys = "map pose_yaw (pose_buf w)" and ?ds = "map (pose_dist w) (pose_buf w)"
  have ne: "?ys \<noteq> []" "?ds \<noteq> []" using True by auto
  have mean: "wrapAngle (sum_list ?ys / 50) = sum_list ?ys / 50"
    using mean_of_window [OF True] by (intro wrapAngle_id) auto
  have c3: "foldl max (- (10 ^ 9)) ?ys - foldl min (10 ^ 9) ?ys < 2
      \<longleftrightarrow> (\<forall>p\<in>set (pose_buf w). \<forall>q\<in>set (pose_buf w). pose_yaw p - pose_yaw q < 2)"
    using spread_less_iff [OF ne(1), of "- (10 ^ 9)" "10 ^ 9" 2] pose_yaw_range by simp
  have c4: "foldl max (- (10 ^ 9)) ?ds - foldl min (10 ^ 9) ?ds < 1 / 2
      \<longleftrightarrow> (\<forall>p\<in>set (pose_buf w). \<forall>q\<in>set (pose_buf w). pose_dist w p - pose_dist w q < 1 / 2)"
    if "sum_list ?ds / 50 \<le> 8"
  proof -
    have "- (10 ^ 9) \<le> pose_dist w p \<and> pose_dist w p \<le> 10 ^ 9" if "p \<in> set (pose_buf w)" for p
      using pose_dist_bounded [OF _ that] pose_dist_nonneg [of w p] \<open>sum_list ?ds / 50 \<le> 8\<close> by fastforce
    then show ?thesis using spread_less_iff [OF ne(2), of "- (10 ^ 9)" "10 ^ 9" "1 / 2"] by simp
  qed
  show ?thesis
    using assms True c3 c4
    by (auto simp: getStableDockBaseFrame_def scan_window_def scan_eq mean moored_def Let_def)
qed

lemma addPoseFrame_window:
  assumes "\<not> has_found_base_frame w" "pose_buf w = last_n 50 ps"
  shows "addPoseFrame p w = w\<lparr>pose_buf := last_n 50 (ps @ [p])\<rparr>"
proof -
  let ?buf = "pose_buf w @ [p]"
  have buf: "(if WINDOW_SIZE < length ?buf then tl ?buf else ?buf) = last_n 50 ?buf"
  proof (cases "WINDOW_SIZE < length ?buf")
    case True
    then have "length ?buf = Suc 50" using assms(2) by simp
    then have "tl ?buf = last_n 50 ?buf" by (rule tl_eq_last_n)
    with True show ?thesis by simp
  qed simp
  show ?thesis
    by (simp only: addPoseFrame_def Let_def buf assms(1) if_False) (simp add: assms(2) last_n_snoc_last_n)
qed

lemma addPoseFrames_window:
  "\<not> has_found_base_frame w \<Longrightarrow> pose_buf w = []
     \<Longrightarrow> foldl (\<lambda>w p. addPoseFrame p w) w ps = w\<lparr>pose_buf := last_n 50 ps\<rparr>"
proof (induction ps rule: rev_induct)
  case Nil
  then show ?case by (cases w) simp
next
  case (snoc p ps)
  then show ?case
    using addPoseFrame_window [of "w\<lparr>pose_buf := last_n 50 ps\<rparr>" ps p] by simp
qed

text \<open>Use of the checker after start-up: poses arrive and the base frame is asked for.\<close>

datatype wharf_op = Add_pose ship_pose | Ask_base

fun wharf_run :: "wharf_checker \<Rightarrow> wharf_op list \<Rightarrow> ship_pose option list \<times> wharf_checker" where
  "wharf_run w [] = ([], w)"
| "wharf_run w (Add_pose p # ops) = wharf_run (addPoseFrame p w) ops"
| "wharf_run w (Ask_base # ops) =
     (let (r, w1) = getStableDockBaseFrame w; (rs, w2) = wharf_run w1 ops in (r # rs, w2))"

lemma wharf_run_found:
  assumes "has_found_base_frame w" "base_frame w = Some f"
  shows "set (fst (wharf_run w ops)) \<subseteq> {Some f} \<and> snd (wharf_run w ops) = w"
  using assms
proof (induction ops)
  case (Cons op ops)
  then show ?case
    by (cases op) (auto simp: addPoseFrame_def getStableDockBaseFrame_def split_beta)
qed simp

text \<open>
  \<open>wrapAngle\<close> normalises a heading to \<open>[-180, 180)\<close> by whole turns: the result lies in
  that interval, differs from the argument by a multiple of 360 degrees, depends on the
  argument only up to whole turns, and leaves normalised headings alone. (The header's
  comment says \<open>[-180, 180]\<close>; 180 itself is mapped to -180.)
\<close>

theorem wrapAngle_spec:
  "- 180 \<le> wrapAngle deg \<and> wrapAngle deg < 180
   \<and> (\<exists>k::int. wrapAngle deg = deg + 360 * of_int k)
   \<and> (\<forall>k::int. wrapAngle (deg + 360 * of_int k) = wrapAngle deg)
   \<and> wrapAngle (wrapAngle deg) = wrapAngle deg \<and> wrapAngle 180 = - 180"
proof (intro conjI)
  show "\<exists>k::int. wrapAngle deg = deg + 360 * of_int k"
    by (rule exI [of _ "- \<lfloor>(deg + 180) / 360\<rfloor>"]) (simp add: wrapAngle_floor)
  show "wrapAngle (wrapAngle deg) = wrapAngle deg"
    using wrapAngle_bounds [of deg] by (intro wrapAngle_id) auto
  show "wrapAngle 180 = - 180" by (simp add: wrapAngle_floor)
qed (use wrapAngle_bounds [of deg] wrapAngle_turns in auto)

text \<open>
  C5: the base frame. After any number of poses, \<open>getStableDockBaseFrame\<close> answers from the
  last fifty of them: it returns \<open>true\<close> exactly when that window is moored, the frame it
  returns is the twenty-fifth from the end, and from then on every later call returns that
  same frame, whatever poses are added.
\<close>

theorem dock_base_frame:
  assumes "\<not> has_found_base_frame w" "pose_buf w = []"
  shows "fst (getStableDockBaseFrame (foldl (\<lambda>w p. addPoseFrame p w) w ps))
       = (if moored (w\<lparr>pose_buf := last_n 50 ps\<rparr>) then Some (ps ! (length ps - 25)) else None)
    \<and> (getStableDockBaseFrame (foldl (\<lambda>w p. addPoseFrame p w) w ps) = (Some f, w')
       \<longrightarrow> set (fst (wharf_run w' ops)) \<subseteq> {Some f})"
proof -
  let ?w = "w\<lparr>pose_buf := last_n 50 ps\<rparr>"
  have window: "foldl (\<lambda>w p. addPoseFrame p w) w ps = ?w"
    using assms by (rule addPoseFrames_window)
  have search: "getStableDockBaseFrame ?w = (if moored ?w
      then (Some (last_n 50 ps ! 25), ?w\<lparr>base_frame := Some (last_n 50 ps ! 25), has_found_base_frame := True\<rparr>)
      else (None, ?w))"
    using getStable_search [of ?w] assms by simp
  have mid: "last_n 50 ps ! 25 = ps ! (length ps - 25)" if "moored ?w"
  proof -
    have "min 50 (length ps) = 50" using that by (simp add: moored_def)
    then have "50 \<le> length ps" by simp
    then show ?thesis by (simp add: last_n_def)
  qed
  show ?thesis unfolding window search
    using mid wharf_run_found [of "?w\<lparr>base_frame := Some f, has_found_base_frame := True\<rparr>" f ops]
    by (auto split: if_splits)
qed

theorem dock_base_frame_witness:
  "fst (getStableDockBaseFrame (foldl (\<lambda>w p. addPoseFrame p w) (wharf_new\<lparr>wharf_B := 1\<rparr>)
      (replicate 50 \<lparr>sp_tx = 0, sp_ty = 5, sp_tz = 0, sp_rx = 0, sp_ry = 0, sp_rz = 0, sp_timestamp = 0\<rparr>)))
   = Some \<lparr>sp_tx = 0, sp_ty = 5, sp_tz = 0, sp_rx = 0, sp_ry = 0, sp_rz = 0, sp_timestamp = 0\<rparr>"
proof -
  let ?p = "\<lparr>sp_tx = 0, sp_ty = 5, sp_tz = 0, sp_rx = 0, sp_ry = 0, sp_rz = 0, sp_timestamp = 0\<rparr>"
  let ?w = "wharf_new\<lparr>wharf_B := 1\<rparr>"
  have w: "\<not> has_found_base_frame ?w" "pose_buf ?w = []" by (simp_all add: wharf_new_def)
  have "moored (?w\<lparr>pose_buf := last_n 50 (replicate 50 ?p)\<rparr>)"
    by (simp add: moored_def pose_yaw_def pose_dist_def distanceToWharf_def wharf_new_def
        sum_list_replicate wrapAngle_id)
  then show ?thesis
    using dock_base_frame [OF w, of "replicate 50 ?p" ?p ?w "[]"] by simp
qed

end
