(* ===== verification/Lidar_Sdk.thy ===== *)
theory Lidar_Sdk
  imports Cbyd_Prelude
begin

text \<open>
  \<open>include/LSSDK/Include/GetLidarData.h\<close> and \<open>GetLidarData.cpp\<close>: the base class of the lidar SDK.
  It receives UDP packets into a queue, hands finished frames to the application, and edits the
  configuration packet that is sent back to the device. The theory models its members and all of
  its operations; the sockets are arguments (what a system call answered), the mutex makes each
  operation atomic.
\<close>

section \<open>Data\<close>

type_synonym packet = "u8 list"

text \<open>\<open>MuchLidarData\<close>. The time stamp is converted from a \<open>double\<close>: \<open>None\<close> is a value that
  does not fit, for which C++ leaves the result undefined.\<close>

record much_lidar_data =
  ml_X :: real
  ml_Y :: real
  ml_Z :: real
  ml_ID :: nat
  ml_H_angle :: real
  ml_V_angle :: real
  ml_Distance :: real
  ml_Intensity :: nat
  ml_Mtimestamp_nsce :: "u64 option"

type_synonym frame = "much_lidar_data list"

record lidar_state_param =
  lp_LidarIP :: string
  lp_ComputerIP :: string
  lp_GatewayIP :: string
  lp_SubnetMaskIP :: string
  lp_DataPort :: int
  lp_DevPort :: int
  lp_ReceiverTemperature :: real
  lp_ReceiverHighVoltage :: real
  lp_MotorSpeed :: real
  lp_PTP_State :: int
  lp_GPS_State :: int
  lp_PPS_State :: int
  lp_StandbyMode :: int
  lp_Clock_Source :: int
  lp_PhaseLockedSwich :: int
  lp_PhaseLockedState :: int
  lp_RunningTime :: real

definition lidar_state_default :: lidar_state_param where
  "lidar_state_default = \<lparr>lp_LidarIP = ''-1,-1,-1,-1'', lp_ComputerIP = ''-1,-1,-1,-1'',
     lp_GatewayIP = ''-1,-1,-1,-1'', lp_SubnetMaskIP = ''-1,-1,-1,-1'', lp_DataPort = - 1, lp_DevPort = - 1,
     lp_ReceiverTemperature = - 1, lp_ReceiverHighVoltage = - 1, lp_MotorSpeed = - 1, lp_PTP_State = - 1,
     lp_GPS_State = - 1, lp_PPS_State = - 1, lp_StandbyMode = - 1, lp_Clock_Source = - 1,
     lp_PhaseLockedSwich = - 1, lp_PhaseLockedState = - 1, lp_RunningTime = - 1\<rparr>"

text \<open>
  The members of \<open>GetLidarData\<close>. \<open>gl_isSuccessfulFlag\<close> is \<open>None\<close> until it is first assigned (it
  has no initialiser), \<open>gl_Per\<close> is \<open>None\<close> while \<open>LidarPerFrameDatePer\<close> is null. \<open>gl_messages\<close>
  collects what \<open>messFunction\<close> prints, \<open>gl_calls\<close> the calls of the registered callback.
\<close>

record lidar =
  gl_dataPort :: int
  gl_devPort :: int
  gl_computerIP :: string
  gl_groupIp :: string
  gl_isQuit :: bool
  gl_isFrameOK :: bool
  gl_islidarDevCome :: bool
  gl_isSendUDP :: bool
  gl_isSuccessfulFlag :: "bool option"
  gl_mDataInfoString :: string
  gl_mDevInfoString :: string
  gl_dataDev :: packet
  gl_Rest_UCWP_buff :: packet
  gl_ip_sa :: string
  gl_SpeedValue :: int
  gl_is_speedFlag :: bool
  gl_sleepers :: nat         \<comment> \<open>running threads of \<open>startSleepThread\<close>\<close>
  gl_allDataValue :: "packet list"
  gl_allTimestamp :: u64
  gl_lastAllTimestamp :: u64
  gl_PointIntervalT_ns :: real
  gl_messageCount :: int
  gl_DistanceIsNotZero :: int
  gl_Get :: frame
  gl_Per :: "frame option"
  gl_callback :: bool
  gl_calls :: "(frame \<times> bool option \<times> string) list"
  gl_messages :: "(string \<times> int) list"

section \<open>Messages, frames and packets\<close>

text \<open>\<open>messFunction\<close>: the code decides which status text the message becomes.\<close>

definition messFunction :: "string \<Rightarrow> int \<Rightarrow> ('a) lidar_scheme \<Rightarrow> 'a lidar_scheme" where
  "messFunction strValue gValue s =
     (let s0 = s\<lparr>gl_messages := gl_messages s @ [(strValue, gValue)]\<rparr>;
          s1 = (if (10000 \<le> gValue \<and> gValue \<le> 10009) \<or> (10030 \<le> gValue \<and> gValue \<le> 10039)
                then s0\<lparr>gl_isSuccessfulFlag := Some False, gl_mDataInfoString := strValue\<rparr> else s0)
      in if 10010 \<le> gValue \<and> gValue \<le> 10019 then s1\<lparr>gl_mDevInfoString := strValue\<rparr> else s1)"

definition setPortAndIP :: "int \<Rightarrow> int \<Rightarrow> string \<Rightarrow> string \<Rightarrow> 'a lidar_scheme \<Rightarrow> 'a lidar_scheme" where
  "setPortAndIP mDataPort mDevPort mDestIP mGroupIp s =
     s\<lparr>gl_dataPort := mDataPort, gl_devPort := mDevPort, gl_computerIP := mDestIP, gl_groupIp := mGroupIp\<rparr>"

definition setChangeLidarIP :: "'a lidar_scheme \<Rightarrow> 'a lidar_scheme" where
  "setChangeLidarIP s = messFunction ''This version of Lidar does not support 'setChangeLidarIP()'!!!'' 0 s"

definition setCallbackFunction :: "bool \<Rightarrow> 'a lidar_scheme \<Rightarrow> 'a lidar_scheme" where
  "setCallbackFunction cb s = s\<lparr>gl_callback := cb\<rparr>"

text \<open>\<open>LidarStart\<close> clears the flag and starts the three detached threads whose passes follow.\<close>

definition LidarStart :: "'a lidar_scheme \<Rightarrow> 'a lidar_scheme" where
  "LidarStart s = s\<lparr>gl_isQuit := False\<rparr>"

definition LidarStop :: "'a lidar_scheme \<Rightarrow> 'a lidar_scheme" where
  "LidarStop s = s\<lparr>gl_isQuit := True\<rparr>"

definition getDataPacketState :: "'a lidar_scheme \<Rightarrow> string" where
  "getDataPacketState s = gl_mDataInfoString s"

text \<open>The body returns the data text, not the device text.\<close>

definition getDevPacketState :: "'a lidar_scheme \<Rightarrow> string" where
  "getDevPacketState s = gl_mDataInfoString s"

definition sendLidarData :: "'a lidar_scheme \<Rightarrow> 'a lidar_scheme" where
  "sendLidarData s =
     (let s1 = (if gl_DistanceIsNotZero s < 20
                then messFunction ''Data error!!! All lidar distanceValue are 0!'' 10032 s
                else s\<lparr>gl_isSuccessfulFlag := Some True, gl_mDataInfoString := ''Obtaining data successfully!''\<rparr>);
          s2 = s1\<lparr>gl_DistanceIsNotZero := 0\<rparr>;
          s3 = (if gl_callback s2
                then s2\<lparr>gl_calls := gl_calls s2 @ [(gl_Get s2, gl_isSuccessfulFlag s2, gl_mDataInfoString s2)]\<rparr>
                else s2)
      in s3\<lparr>gl_Per := Some (gl_Get s3), gl_Get := [], gl_isFrameOK := True\<rparr>)"

text \<open>The frame is moved out: the next call finds a null pointer until a new frame is sent.\<close>

definition getLidarPerFrameDate :: "'a lidar_scheme \<Rightarrow> (bool option \<times> frame option \<times> string) \<times> 'a lidar_scheme" where
  "getLidarPerFrameDate s =
     ((gl_isSuccessfulFlag s, gl_Per s, gl_mDataInfoString s), s\<lparr>gl_isFrameOK := False, gl_Per := None\<rparr>)"

definition clearQueue :: "'a lidar_scheme \<Rightarrow> 'a lidar_scheme" where
  "clearQueue s = s\<lparr>gl_allDataValue := []\<rparr>"

text \<open>The header that marks a device packet.\<close>

definition is_dev_packet :: "packet \<Rightarrow> bool" where
  "is_dev_packet d \<longleftrightarrow> (d ! 0 = 0x00 \<or> d ! 0 = 0xa5) \<and> d ! 1 = 0xff \<and> d ! 2 = 0x00 \<and> d ! 3 = 0x5a"

text \<open>\<open>std::to_string\<close> of a byte, and four bytes as dotted text.\<close>

definition digit_char :: "nat \<Rightarrow> char" where
  "digit_char n = ''0123456789'' ! n"

definition byte_string :: "u8 \<Rightarrow> string" where
  "byte_string b =
     (let n = unat b
      in if n < 10 then [digit_char n]
         else if n < 100 then [digit_char (n div 10), digit_char (n mod 10)]
         else [digit_char (n div 100), digit_char (n div 10 mod 10), digit_char (n mod 10)])"

definition ip_string :: "packet \<Rightarrow> nat \<Rightarrow> string" where
  "ip_string d i = byte_string (d ! i) @ ''.'' @ byte_string (d ! (i + 1)) @ ''.''
     @ byte_string (d ! (i + 2)) @ ''.'' @ byte_string (d ! (i + 3))"

text \<open>
  \<open>CollectionDataArrive\<close>: packets shorter than 1206 bytes are ignored, the others are copied
  into a zeroed buffer of 1212 bytes. \<open>None\<close>: the copy overruns that buffer.
\<close>

definition CollectionDataArrive :: "packet \<Rightarrow> 'a lidar_scheme \<Rightarrow> 'a lidar_scheme option" where
  "CollectionDataArrive pData s =
     (if length pData < 1206 then Some s
      else if 1212 < length pData then None
      else let dataV = pData @ replicate (1212 - length pData) 0;
               s1 = s\<lparr>gl_allDataValue := gl_allDataValue s @ [dataV]\<rparr>
           in Some (if is_dev_packet dataV
                    then s1\<lparr>gl_dataDev := take 1206 pData, gl_ip_sa := ip_string (take 1206 pData) 10,
                            gl_islidarDevCome := True\<rparr>
                    else s1))"

section \<open>The receiving threads\<close>

text \<open>
  One pass of \<open>getDataSock\<close> and of \<open>getDevSock\<close>. A call of \<open>recvfrom\<close> fails or fills a prefix of a
  buffer of 1212 bytes. The first component tells whether the loop goes on.
\<close>

datatype received = Recv_error | Recv packet

definition sock_pass :: "string \<times> int \<Rightarrow> string \<times> int \<Rightarrow> string \<times> int \<Rightarrow> received
    \<Rightarrow> 'a lidar_scheme \<Rightarrow> (bool \<times> 'a lidar_scheme) option" where
  "sock_pass quit failed timeout r s =
     (if gl_isQuit s then Some (False, messFunction (fst quit) (snd quit) s)
      else case r of
          Recv_error \<Rightarrow> Some (True, messFunction (fst failed) (snd failed) s)
        | Recv p \<Rightarrow>
            if p = [] then Some (True, messFunction (fst timeout) (snd timeout) s)
            else map_option (\<lambda>s'. (True, s')) (CollectionDataArrive p s))"

definition nl :: string where "nl = [CHR 0x0A]"

definition getDataSock :: "received \<Rightarrow> 'a lidar_scheme \<Rightarrow> (bool \<times> 'a lidar_scheme) option" where
  "getDataSock =
     sock_pass (''Exit to obtain network data packet!!!'' @ nl, 10009)
       (''The mDataPort failed to obtain data!!!'' @ nl, 10003) (''mDataPort recvfrom timeout !!!'' @ nl, 10004)"

definition getDevSock :: "received \<Rightarrow> 'a lidar_scheme \<Rightarrow> (bool \<times> 'a lidar_scheme) option" where
  "getDevSock =
     sock_pass (''Exit to obtain network data!!!'' @ nl, 10019)
       (''The mDevPort failed to obtain data!!!'' @ nl, 10013) (''mDevPort recvfrom timeout !!!'' @ nl, 10014)"

text \<open>What the threads do before their loops, given whether \<open>bind\<close> and the timeout option succeed.\<close>

definition data_sock_setup :: "bool \<Rightarrow> bool \<Rightarrow> 'a lidar_scheme \<Rightarrow> 'a lidar_scheme" where
  "data_sock_setup bound timed s =
     (let s1 = (if bound then s else messFunction (''Bind mDataPort failed!!!'' @ nl) 10001 s)
      in if timed then s1 else messFunction (''mDataPort Set SO_RCVTIMEO timeout failed !!!'' @ nl) 10002 s1)"

definition dev_sock_setup :: "bool \<Rightarrow> bool \<Rightarrow> 'a lidar_scheme \<Rightarrow> 'a lidar_scheme" where
  "dev_sock_setup bound timed s =
     (let s1 = (if bound then s else messFunction (''Bind mDevPort failed!!!'' @ nl) 10011 s)
      in if timed then s1 else messFunction (''mDevPort Set SO_RCVTIMEO timeout failed !!!'' @ nl) 10012 s1)"

section \<open>Device state and configuration packet\<close>

definition getLidarParamState_base :: "lidar_state_param \<Rightarrow> 'a lidar_scheme
    \<Rightarrow> bool \<times> string option \<times> lidar_state_param" where
  "getLidarParamState_base p s =
     (if gl_islidarDevCome s
      then let d = gl_dataDev s
           in (True, None, p\<lparr>lp_LidarIP := ip_string d 10, lp_ComputerIP := ip_string d 14,
                 lp_GatewayIP := ip_string d 32, lp_SubnetMaskIP := ip_string d 36,
                 lp_DataPort := uint (d ! 24) * 256 + uint (d ! 25),
                 lp_DevPort := uint (d ! 26) * 256 + uint (d ! 27)\<rparr>)
      else (False, Some ''Equipment package is not update!!!'', p))"

text \<open>\<open>for (int i = a; i < b; i++) buff[i] = 0x00;\<close>\<close>

definition zero_range :: "nat \<Rightarrow> nat \<Rightarrow> packet \<Rightarrow> packet" where
  "zero_range a b buff = foldl (\<lambda>buf i. buf[i := 0]) buff [a..<b]"

definition ucwp_header :: "packet \<Rightarrow> packet" where
  "ucwp_header buff = buff[0 := 0xAA, 1 := 0x00, 2 := 0xFF, 3 := 0x11, 4 := 0x22, 5 := 0x22, 6 := 0xAA, 7 := 0xAA]"

definition setLidarParam :: "'a lidar_scheme \<Rightarrow> bool \<times> 'a lidar_scheme" where
  "setLidarParam s =
     (if \<not> gl_isSendUDP s then (True, s)
      else if gl_islidarDevCome s
      then (True, s\<lparr>gl_islidarDevCome := False, gl_isSendUDP := False,
                   gl_Rest_UCWP_buff := ucwp_header (zero_range 160 168 (zero_range 52 60 (gl_dataDev s)))\<rparr>)
      else (False, messFunction ''Equipment package is not update!!!'' 0 s))"

text \<open>\<open>sendPackUDP\<close>: \<open>sent\<close> is the answer of \<open>sendto\<close>; the packet and its address are returned.\<close>

definition sendPackUDP :: "bool \<Rightarrow> 'a lidar_scheme \<Rightarrow> bool \<times> (packet \<times> string \<times> int) option \<times> 'a lidar_scheme" where
  "sendPackUDP sent s =
     (if sent then (True, Some (gl_Rest_UCWP_buff s, gl_ip_sa s, 2368), s\<lparr>gl_isSendUDP := True\<rparr>) else (False, None, s))"

definition not_updated :: string where "not_updated = ''Equipment package is not update!!!''"

text \<open>
  \<open>startSleepThread\<close> starts a detached thread; \<open>sleepTime\<close>, its function, clears the flag, sleeps ten
  seconds and sets it: two steps.
\<close>

definition startSleepThread :: "'a lidar_scheme \<Rightarrow> 'a lidar_scheme" where
  "startSleepThread s = s\<lparr>gl_sleepers := gl_sleepers s + 1\<rparr>"

definition sleepTime_begin :: "'a lidar_scheme \<Rightarrow> 'a lidar_scheme" where
  "sleepTime_begin s = s\<lparr>gl_is_speedFlag := False\<rparr>"

definition sleepTime_end :: "'a lidar_scheme \<Rightarrow> 'a lidar_scheme" where
  "sleepTime_end s = s\<lparr>gl_is_speedFlag := True, gl_sleepers := gl_sleepers s - 1\<rparr>"

definition setLidarRotateSpeed_base :: "int \<Rightarrow> 'a lidar_scheme \<Rightarrow> (bool \<times> string option) \<times> 'a lidar_scheme" where
  "setLidarRotateSpeed_base SpeedValue s =
     (let (ok, s1) = setLidarParam (s\<lparr>gl_SpeedValue := SpeedValue\<rparr>)
      in if ok
         then ((True, None), startSleepThread (s1\<lparr>gl_Rest_UCWP_buff := (gl_Rest_UCWP_buff s1)
                [8 := word_of_int (trunc (SpeedValue / 256)),
                 9 := word_of_int (SpeedValue - 256 * trunc (SpeedValue / 256))]\<rparr>))
         else ((False, Some not_updated), s1))"

definition setDataPort :: "int \<Rightarrow> 'a lidar_scheme \<Rightarrow> (bool \<times> string option) \<times> 'a lidar_scheme" where
  "setDataPort DataPort s =
     (let (ok, s1) = setLidarParam s; b = gl_Rest_UCWP_buff s1
      in if ok
         then let devPort = uint (b ! 26) * 256 + uint (b ! 27)
              in if DataPort < 1025 \<or> 65535 < DataPort \<or> DataPort = devPort
                 then ((False, Some ''DataPort range 1025-65535 and DataPort and devport cannot be equal, please check the input parameters''), s1)
                 else ((True, None), s1\<lparr>gl_Rest_UCWP_buff :=
                         b[24 := word_of_int (DataPort div 256), 25 := word_of_int (DataPort mod 256)]\<rparr>)
         else ((False, Some not_updated), s1))"

definition setDevPort :: "int \<Rightarrow> 'a lidar_scheme \<Rightarrow> (bool \<times> string option) \<times> 'a lidar_scheme" where
  "setDevPort DevPort s =
     (let (ok, s1) = setLidarParam s; b = gl_Rest_UCWP_buff s1
      in if ok
         then let dataPort = uint (b ! 24) * 256 + uint (b ! 25)
              in if DevPort < 1025 \<or> 65535 < DevPort \<or> DevPort = dataPort
                 then ((False, Some ''DataPort range 1025-65535 and DataPort and devport cannot be equal, please check the input parameters''), s1)
                 else ((True, None), s1\<lparr>gl_Rest_UCWP_buff :=
                         b[26 := word_of_int (DevPort div 256), 27 := word_of_int (DevPort mod 256)]\<rparr>)
         else ((False, Some not_updated), s1))"

section \<open>Addresses\<close>

text \<open>
  \<open>regex_match\<close> against four times \<open>25[0-5]|2[0-4][0-9]|[01]?[0-9][0-9]?\<close> separated by dots: the
  expression has no dot inside an octet, so the text matches exactly when its dot-separated parts
  are four octets.
\<close>

fun octet_pat :: "string \<Rightarrow> bool" where
  "octet_pat [a] \<longleftrightarrow> is_digit a"
| "octet_pat [a, b] \<longleftrightarrow> is_digit a \<and> is_digit b"
| "octet_pat [a, b, c] \<longleftrightarrow>
     (a = CHR ''2'' \<and> b = CHR ''5'' \<and> c \<in> set ''012345'')
     \<or> (a = CHR ''2'' \<and> b \<in> set ''01234'' \<and> is_digit c)
     \<or> (a \<in> set ''01'' \<and> is_digit b \<and> is_digit c)"
| "octet_pat _ \<longleftrightarrow> False"

fun dot_parts :: "string \<Rightarrow> string list" where
  "dot_parts [] = [[]]"
| "dot_parts (c # s) =
     (if c = CHR ''.'' then [] # dot_parts s else (c # hd (dot_parts s)) # tl (dot_parts s))"

definition ipv4_match :: "string \<Rightarrow> bool" where
  "ipv4_match s \<longleftrightarrow> length (dot_parts s) = 4 \<and> list_all octet_pat (dot_parts s)"

text \<open>
  The loop that cuts the text at its dots: \<open>pos = find(".", i)\<close>; if there is one, the part before
  it is stored and the index moves behind it.
\<close>

function cut_loop :: "string \<Rightarrow> nat \<Rightarrow> string list" where
  "cut_loop s i =
     (if i < length s
      then case find_from (CHR ''.'') s i of
             Some pos \<Rightarrow> take (pos - i) (drop i s) # cut_loop s (pos + 1)
           | None \<Rightarrow> cut_loop s (i + 1)
      else [])"
  by auto
termination
  by (relation "measure (\<lambda>(s, i). length s - i)") (auto dest!: find_from_bounds)

declare cut_loop.simps [simp del]

definition ip_result :: "string \<Rightarrow> string list" where
  "ip_result s = cut_loop (s @ ''.'') 0"

text \<open>\<open>atoi\<close> and \<open>stoi\<close> on a text of digits.\<close>

definition digit_val :: "char \<Rightarrow> nat" where
  "digit_val c = (of_char c :: nat) - 48"

definition atoi :: "string \<Rightarrow> nat" where
  "atoi s = foldl (\<lambda>n c. 10 * n + digit_val c) 0 s"

definition checkDefaultIP :: "string list \<Rightarrow> 'a lidar_scheme \<Rightarrow> bool \<times> 'a lidar_scheme" where
  "checkDefaultIP ip s =
     (let h = atoi (ip ! 0); e = atoi (ip ! 3)
      in if h = 0 \<or> h = 127 \<or> (224 \<le> h \<and> h \<le> 255)
         then (False, messFunction (''The Lidar IP cannot be set to '' @ byte_string (of_nat h) @ ''.x.x.x!!!'') 0 s)
         else if e = 255
         then (False, messFunction ''The Lidar IP cannot be set to broadcast(x.x.x.255)!!!'' 0 s)
         else (True, s))"

definition checkDestIP :: "string list \<Rightarrow> 'a lidar_scheme \<Rightarrow> bool \<times> 'a lidar_scheme" where
  "checkDestIP ip s =
     (let h = atoi (ip ! 0)
      in if h = 0 \<or> h = 127 \<or> (240 \<le> h \<and> h \<le> 255)
         then (False, messFunction (''The Dest IP cannot be set to '' @ byte_string (of_nat h) @ ''.x.x.x!!!'') 0 s)
         else (True, s))"

definition write_ip :: "nat \<Rightarrow> string list \<Rightarrow> 'a lidar_scheme \<Rightarrow> 'a lidar_scheme" where
  "write_ip i ip s = s\<lparr>gl_Rest_UCWP_buff := (gl_Rest_UCWP_buff s)
     [i := of_nat (atoi (ip ! 0)), i + 1 := of_nat (atoi (ip ! 1)),
      i + 2 := of_nat (atoi (ip ! 2)), i + 3 := of_nat (atoi (ip ! 3))]\<rparr>"

definition bad_ip_format :: string where
  "bad_ip_format = ''The IP format entered is incorrect, please check the input parameters''"

definition setLidarIP :: "string \<Rightarrow> 'a lidar_scheme \<Rightarrow> (bool \<times> string option) \<times> 'a lidar_scheme" where
  "setLidarIP LidarIPValue s =
     (if \<not> ipv4_match LidarIPValue then ((False, Some bad_ip_format), s)
      else let (ok, s1) = setLidarParam s
           in if \<not> ok then ((False, Some not_updated), s1)
              else let IP_result = ip_result LidarIPValue
                   in if length IP_result < 4 \<or> (length IP_result = 4 \<and> IP_result ! 3 = [])
                      then ((False, Some ''Please enter the full Lidar IP address!!!Failed to set the Lidar IP address!!!''), s1)
                      else let (good, s2) = checkDefaultIP IP_result s1
                           in if \<not> good then ((False, Some ''Failed to set the Lidar IP address!!!''), s2)
                              else ((True, Some ''Successfully set!''), write_ip 10 IP_result s2))"

definition setComputerIP :: "string \<Rightarrow> 'a lidar_scheme \<Rightarrow> (bool \<times> string option) \<times> 'a lidar_scheme" where
  "setComputerIP ComputerIPValue s =
     (if \<not> ipv4_match ComputerIPValue then ((False, Some bad_ip_format), s)
      else let (ok, s1) = setLidarParam s
           in if \<not> ok then ((False, Some not_updated), s1)
              else let IP_result = ip_result ComputerIPValue
                   in if length IP_result < 4
                      then ((False, Some ''Please enter the full Dest IP address!!! Failed to set the Dest(Computer) IP address!!!''), s1)
                      else if length IP_result = 4 \<and> IP_result ! 3 = []
                      then ((False, Some ''Please enter the full Dest IP address!!!Failed to set the Dest(Computer) IP address!!!''), s1)
                      else let (good, s2) = checkDestIP IP_result s1
                           in if \<not> good then ((False, Some ''Failed to set the computer IP address!!!''), s2)
                              else ((True, None), write_ip 14 IP_result s2))"

section \<open>Address texts\<close>

lemma digit_char_table:
  "list_all (\<lambda>m. is_digit (digit_char m) \<and> digit_val (digit_char m) = m \<and> digit_char m \<noteq> CHR ''.''
     \<and> (digit_char m = CHR ''2'' \<longleftrightarrow> m = 2) \<and> (digit_char m = CHR ''5'' \<longleftrightarrow> m = 5)
     \<and> (digit_char m \<in> set ''01'' \<longleftrightarrow> m \<le> 1) \<and> (digit_char m \<in> set ''01234'' \<longleftrightarrow> m \<le> 4)
     \<and> (digit_char m \<in> set ''012345'' \<longleftrightarrow> m \<le> 5)) [0..<10]"
  by code_simp

lemma digit_char_conj:
  assumes "m < 10"
  shows "is_digit (digit_char m) \<and> digit_val (digit_char m) = m \<and> digit_char m \<noteq> CHR ''.''
     \<and> (digit_char m = CHR ''2'' \<longleftrightarrow> m = 2) \<and> (digit_char m = CHR ''5'' \<longleftrightarrow> m = 5)
     \<and> (digit_char m \<in> set ''01'' \<longleftrightarrow> m \<le> 1) \<and> (digit_char m \<in> set ''01234'' \<longleftrightarrow> m \<le> 4)
     \<and> (digit_char m \<in> set ''012345'' \<longleftrightarrow> m \<le> 5)"
proof -
  have "m \<in> set [0..<10]" using assms by simp
  then show ?thesis by (rule bspec [OF digit_char_table [unfolded list_all_iff]])
qed

lemmas digit_char_props =
  digit_char_conj [THEN conjunct1]
  digit_char_conj [THEN conjunct2, THEN conjunct1]
  digit_char_conj [THEN conjunct2, THEN conjunct2, THEN conjunct1]
  digit_char_conj [THEN conjunct2, THEN conjunct2, THEN conjunct2, THEN conjunct1]
  digit_char_conj [THEN conjunct2, THEN conjunct2, THEN conjunct2, THEN conjunct2, THEN conjunct1]
  digit_char_conj [THEN conjunct2, THEN conjunct2, THEN conjunct2, THEN conjunct2, THEN conjunct2, THEN conjunct1]
  digit_char_conj [THEN conjunct2, THEN conjunct2, THEN conjunct2, THEN conjunct2, THEN conjunct2, THEN conjunct2, THEN conjunct1]
  digit_char_conj [THEN conjunct2, THEN conjunct2, THEN conjunct2, THEN conjunct2, THEN conjunct2, THEN conjunct2, THEN conjunct2]

lemma byte_string_props:
  "octet_pat (byte_string b)" "atoi (byte_string b) = unat b" "CHR ''.'' \<notin> set (byte_string b)" "byte_string b \<noteq> []"
proof -
  define n where "n = unat b"
  define x y z where "x = n div 100" and "y = n div 10 mod 10" and "z = n mod 10"
  have n: "n < 256" using unsigned_less [of b, where 'a = nat] by (simp add: n_def)
  have "n = 10 * (n div 10) + z" "n div 10 = 10 * x + y" "y < 10" "z < 10"
    by (simp_all add: x_def y_def z_def div_mult2_eq [of n 10 10, simplified])
  then have xyz: "x < 10" "y < 10" "z < 10" "n = 100 * x + 10 * y + z" "n div 10 = 10 * x + y" using n by linarith+
  have p: "x = 1 \<or> (x = 2 \<and> (y \<le> 4 \<or> (y = 5 \<and> z \<le> 5)))" if "100 \<le> n" using that xyz n by linarith
  have short: "n < 100 \<Longrightarrow> x = 0" "n < 10 \<Longrightarrow> x = 0 \<and> y = 0" using xyz(4) by presburger+
  note d = digit_char_props [OF xyz(1)] digit_char_props [OF xyz(2)] digit_char_props [OF xyz(3)]
  have v: "n = z" if "n < 10" using short(2) [OF that] xyz(4) by linarith
  have v2: "n div 10 = y" "n = 10 * y + z" if "n < 100" using short(1) [OF that] xyz(4,5) by linarith+
  have s: "byte_string b = (if n < 10 then [digit_char z] else if n < 100 then [digit_char y, digit_char z]
      else [digit_char x, digit_char y, digit_char z])"
    unfolding byte_string_def Let_def n_def [symmetric] x_def [symmetric] y_def [symmetric] z_def [symmetric]
    by (rule if_cong [OF refl]; (rule if_cong [OF refl])?) (simp_all only: v [symmetric] v2(1))
  have "octet_pat [digit_char x, digit_char y, digit_char z]" if "100 \<le> n"
    using p [OF that] unfolding octet_pat.simps d(4-8,12-16,20-24) by (auto simp: d(9,17))
  then show "octet_pat (byte_string b)" unfolding s by (auto simp: d(9,17))
  show "atoi (byte_string b) = unat b" unfolding s n_def [symmetric] using v v2(2) xyz(4) by (simp add: atoi_def d(2,10,18))
  show "CHR ''.'' \<notin> set (byte_string b)" unfolding s using d(3,11,19) by auto
  show "byte_string b \<noteq> []" unfolding s by simp
qed

lemma dot_parts_no_dot: "CHR ''.'' \<notin> set u \<Longrightarrow> dot_parts u = [u]"
  by (induction u) auto

lemma dot_parts_dot: "CHR ''.'' \<notin> set u \<Longrightarrow> dot_parts (u @ CHR ''.'' # w) = u # dot_parts w"
  by (induction u) auto

lemma cut_loop_parts: "cut_loop (pre @ t @ ''.'') (length pre) = dot_parts t"
proof (induction "length t" arbitrary: pre t rule: less_induct)
  case less
  have hit: "find_from (CHR ''.'') (pre @ u @ CHR ''.'' # v) (length pre) = Some (length pre + length u)"
    if "CHR ''.'' \<notin> set u" for u v
    using that by (simp add: find_from_def Let_def takeWhile_append takeWhile_eq_all_conv)
  show ?case
  proof (cases "CHR ''.'' \<in> set t")
    case False
    have "cut_loop (pre @ t @ ''.'') (length (pre @ t @ ''.'')) = []" by (subst cut_loop.simps) simp
    then show ?thesis
      using hit [of t "[]"] False by (subst cut_loop.simps) (simp add: dot_parts_no_dot)
  next
    case True
    then obtain u w where t: "t = u @ CHR ''.'' # w" "CHR ''.'' \<notin> set u" by (metis split_list_first)
    have "cut_loop (pre @ t @ ''.'') (length pre)
        = u # cut_loop ((pre @ u @ ''.'') @ w @ ''.'') (length (pre @ u @ ''.''))"
      using hit [OF t(2), of "w @ ''.''"] by (subst cut_loop.simps) (simp add: t(1))
    also have "\<dots> = u # dot_parts w" using less [of w "pre @ u @ ''.''"] t(1) by simp
    finally show ?thesis using t by (simp add: dot_parts_dot)
  qed
qed

lemma ip_result_parts: "ip_result t = dot_parts t"
  using cut_loop_parts [of "[]" t] by (simp add: ip_result_def)


definition dotted_ip :: "u8 \<Rightarrow> u8 \<Rightarrow> u8 \<Rightarrow> u8 \<Rightarrow> string" where
  "dotted_ip a b c d = byte_string a @ ''.'' @ byte_string b @ ''.'' @ byte_string c @ ''.'' @ byte_string d"

lemma dotted_ip_parts: "dot_parts (dotted_ip a b c d) = [byte_string a, byte_string b, byte_string c, byte_string d]"
  by (simp add: dotted_ip_def dot_parts_dot dot_parts_no_dot byte_string_props)

lemma dotted_ip_match: "ipv4_match (dotted_ip a b c d)"
  by (simp add: ipv4_match_def dotted_ip_parts byte_string_props)

text \<open>
  The contract of the address setters: a text that is no address changes nothing; otherwise the
  configuration packet is prepared, the address checked, and its bytes written at \<open>pos\<close>.
\<close>

locale ip_setter =
  fixes set_ip :: "string \<Rightarrow> 'a lidar_scheme \<Rightarrow> (bool \<times> string option) \<times> 'a lidar_scheme"
    and pos :: nat and allowed :: "nat \<Rightarrow> nat \<Rightarrow> bool"
  assumes rejects: "\<not> ipv4_match t \<Longrightarrow> \<not> fst (fst (set_ip t s)) \<and> snd (set_ip t s) = s"
    and accepts: "ipv4_match t \<Longrightarrow> setLidarParam s = (True, s1) \<Longrightarrow> ip_result t = [w, x, y, z] \<Longrightarrow> z \<noteq> [] \<Longrightarrow>
      fst (fst (set_ip t s)) = allowed (atoi w) (atoi z)
      \<and> gl_Rest_UCWP_buff (snd (set_ip t s))
          = gl_Rest_UCWP_buff (if allowed (atoi w) (atoi z) then write_ip pos [w, x, y, z] s1 else s1)"
begin

lemma set_dotted:
  assumes "setLidarParam s = (True, s1)" "length (gl_Rest_UCWP_buff s1) = 1206" "pos + 3 < 1206"
  shows "fst (fst (set_ip (dotted_ip a b c d) s)) = allowed (unat a) (unat d)
     \<and> (allowed (unat a) (unat d) \<longrightarrow> ip_string (gl_Rest_UCWP_buff (snd (set_ip (dotted_ip a b c d) s))) pos = dotted_ip a b c d)
     \<and> (\<forall>i. i < pos \<or> pos + 3 < i \<longrightarrow> gl_Rest_UCWP_buff (snd (set_ip (dotted_ip a b c d) s)) ! i = gl_Rest_UCWP_buff s1 ! i)"
proof -
  let ?t = "dotted_ip a b c d" and ?ok = "allowed (unat a) (unat d)"
  let ?b = "gl_Rest_UCWP_buff s1"
  have parts: "ip_result ?t = [byte_string a, byte_string b, byte_string c, byte_string d]"
    by (simp add: ip_result_parts dotted_ip_parts)
  have w: "gl_Rest_UCWP_buff (write_ip pos [byte_string a, byte_string b, byte_string c, byte_string d] s1)
      = ?b[pos := a, pos + 1 := b, pos + 2 := c, pos + 3 := d]"
    by (simp add: write_ip_def byte_string_props)
  have set: "fst (fst (set_ip ?t s)) = ?ok"
    "gl_Rest_UCWP_buff (snd (set_ip ?t s)) = (if ?ok then ?b[pos := a, pos + 1 := b, pos + 2 := c, pos + 3 := d] else ?b)"
    using accepts [OF dotted_ip_match assms(1) parts byte_string_props(4)] w by (simp_all add: byte_string_props)
  have "ip_string (?b[pos := a, pos + 1 := b, pos + 2 := c, pos + 3 := d]) pos = ?t"
    using assms(2,3) by (simp add: ip_string_def dotted_ip_def)
  then show ?thesis unfolding set by simp
qed

end

definition lidar_ip_allowed :: "nat \<Rightarrow> nat \<Rightarrow> bool" where
  "lidar_ip_allowed h e \<longleftrightarrow> h \<noteq> 0 \<and> h \<noteq> 127 \<and> \<not> (224 \<le> h \<and> h \<le> 255) \<and> e \<noteq> 255"

definition dest_ip_allowed :: "nat \<Rightarrow> nat \<Rightarrow> bool" where
  "dest_ip_allowed h e \<longleftrightarrow> h \<noteq> 0 \<and> h \<noteq> 127 \<and> \<not> (240 \<le> h \<and> h \<le> 255)"

lemma messFunction_buff [simp]: "gl_Rest_UCWP_buff (messFunction m c s) = gl_Rest_UCWP_buff s"
  by (simp add: messFunction_def Let_def)

interpretation lidar_ip: ip_setter setLidarIP 10 lidar_ip_allowed
  by unfold_locales (auto simp: setLidarIP_def checkDefaultIP_def lidar_ip_allowed_def Let_def)

interpretation computer_ip: ip_setter setComputerIP 14 dest_ip_allowed
  by unfold_locales (auto simp: setComputerIP_def checkDestIP_def dest_ip_allowed_def Let_def)

end
