(* ===== verification/Lidar_Point.thy ===== *)
theory Lidar_Point
  imports Lidar_Sdk
begin

text \<open>
  The state of the LS decoder (\<open>include/LSSDK/Include/GetLidarData_LS.h\<close>, a subclass of the SDK's base
  class) and its geometry: the angle tables of the base class and \<open>XYZ_calculate\<close> of
  \<open>GetLidarData_LS.cpp\<close>, which turns one measurement into a point.

  Floating point numbers are real numbers here; the angle tables are the values the constructor
  of the base class computes, for its constant \<open>PI = 3.1415926\<close>. A table access out of range gives
  \<open>None\<close>.
\<close>

section \<open>State\<close>

record lidar_ls = lidar +
  ls_StackFrame :: int
  ls_count :: int
  ls_fDistanceAcc :: real
  ls_fH_AngleAcc :: real
  ls_fV_AngleAcc :: real
  ls_HorizontalPoints :: int
  ls_fPutTheMirrorOffAngle :: "real list"
  ls_DeadZoneOffset :: real
  ls_PointCloudLastData :: frame

definition mirror_standard :: "real list" where "mirror_standard = [3 / 2, - 1 / 2, 1 / 2, - 3 / 2]"
definition mirror_192 :: "real list" where "mirror_192 = [3 / 2, 1 / 2, - 1 / 2, - 3 / 2]"

text \<open>The constructor, on the members of the base class.\<close>

definition ls_new :: "lidar_ls \<Rightarrow> lidar_ls" where
  "ls_new s = s\<lparr>ls_StackFrame := 1, ls_DeadZoneOffset := 637 / 100, ls_fPutTheMirrorOffAngle := mirror_standard,
     ls_fDistanceAcc := 1 / 1000, ls_fH_AngleAcc := 1 / 100, ls_fV_AngleAcc := 25 / 10000, ls_count := 0,
     ls_HorizontalPoints := 0, ls_PointCloudLastData := [], gl_Get := []\<rparr>"

section \<open>Angle tables\<close>

definition PI :: real where "PI = 31415926 / 10 ^ 7"

definition angle_of :: "int \<Rightarrow> real" where
  "angle_of FF = real_of_int FF / 1000 * PI / 180"

definition cosAngleValue :: "int \<Rightarrow> real" where "cosAngleValue FF = cos (angle_of FF)"
definition sinAngleValue :: "int \<Rightarrow> real" where "sinAngleValue FF = sin (angle_of FF)"

text \<open>C++ \<open>%\<close> keeps the sign of the dividend.\<close>

definition NegativeToPositive :: "real \<Rightarrow> int" where
  "NegativeToPositive value =
     (let valueT = trunc (value * 1000)
      in if 0 \<le> valueT then (if 360000 < valueT then valueT mod 360000 else valueT)
         else if valueT < - 360000 then - ((- valueT) mod 360000) + 360000
         else valueT + 360000)"

definition in_table :: "real \<Rightarrow> bool" where
  "in_table value \<longleftrightarrow> 0 \<le> NegativeToPositive value \<and> NegativeToPositive value < 360000"

section \<open>Coordinates\<close>

record point_xyz =
  xyz_1 :: "real \<times> real \<times> real"
  xyz_2 :: "real \<times> real \<times> real"

text \<open>
  Result: the new horizontal and vertical angle (they are passed by reference) and the point.
  Channel numbers have two bits, the mirror table four entries.
\<close>

definition XYZ_calculate :: "lidar_ls \<Rightarrow> nat \<Rightarrow> real \<Rightarrow> real \<Rightarrow> real \<Rightarrow> real
    \<Rightarrow> (real \<times> real \<times> point_xyz) option" where
  "XYZ_calculate s tChannelID fAngle_H fAngle_V tDistance tDistance2 =
     (let mirror = ls_fPutTheMirrorOffAngle s ! tChannelID;
          galvano = fAngle_V + ls_DeadZoneOffset s
      in if \<not> (in_table mirror \<and> in_table galvano \<and> in_table fAngle_H) then None
         else let c = (\<lambda>v. cosAngleValue (NegativeToPositive v));
                  sn = (\<lambda>v. sinAngleValue (NegativeToPositive v));
                  fAngle_R0 = c 30 * c mirror * c galvano - sn galvano * sn mirror;
                  fSinV_angle = 2 * fAngle_R0 * sn galvano + sn mirror;
                  fCosV_angle = sqrt (1 - fSinV_angle * fSinV_angle);
                  fSinCite = (2 * fAngle_R0 * c galvano * sn 30 - c mirror * sn 60) / fCosV_angle;
                  fCosCite = sqrt (1 - fSinCite * fSinCite);
                  fSinCite_H = sn fAngle_H * fCosCite + c fAngle_H * fSinCite;
                  fCosCite_H = c fAngle_H * fCosCite - sn fAngle_H * fSinCite;
                  place = (\<lambda>d. (d * fCosV_angle * fSinCite_H, d * fCosV_angle * fCosCite_H, d * fSinV_angle))
              in Some (arcsin fSinCite_H * 180 / PI, arcsin fSinV_angle * 180 / PI,
                       \<lparr>xyz_1 = place tDistance, xyz_2 = (if 0 < tDistance2 then place tDistance2 else (0, 0, 0))\<rparr>))"

section \<open>The mirror reflects\<close>

lemma reflection_unit:
  fixes cm sm cg sg c s :: real
  assumes "cm\<^sup>2 + sm\<^sup>2 = 1" "cg\<^sup>2 + sg\<^sup>2 = 1" "c\<^sup>2 + s\<^sup>2 = 1" "R = c * cm * cg - sg * sm"
  shows "(2 * R * cg * s - cm * (2 * s * c))\<^sup>2 + (2 * R * cg * c - cm * (c\<^sup>2 - s\<^sup>2))\<^sup>2 + (2 * R * sg + sm)\<^sup>2 = 1"
  using assms by algebra

lemma reflection_height:
  fixes cm sm cg sg c s :: real
  assumes "cm\<^sup>2 + sm\<^sup>2 = 1" "cg\<^sup>2 + sg\<^sup>2 = 1" "c\<^sup>2 + s\<^sup>2 = 1" "R = c * cm * cg - sg * sm"
  shows "(2 * R * sg + sm)\<^sup>2 + (s * cm)\<^sup>2 + (sm * (2 * sg * cg) - c * cm * (1 - 2 * sg\<^sup>2))\<^sup>2 = 1"
  using assms by algebra

lemma in_table_small: "\<bar>v\<bar> < 360 \<Longrightarrow> in_table v"
proof -
  assume a: "\<bar>v\<bar> < 360"
  have "trunc (v * 1000) < 360000" "- 360000 < trunc (v * 1000)"
    using a by (auto simp: trunc_def floor_less_iff less_ceiling_iff abs_less_iff; linarith)+
  then show ?thesis by (auto simp: in_table_def NegativeToPositive_def Let_def)
qed

lemma table_unit: "(cosAngleValue i)\<^sup>2 + (sinAngleValue i)\<^sup>2 = 1"
  by (simp add: cosAngleValue_def sinAngleValue_def)

lemma NegativeToPositive_const [simp]: "NegativeToPositive 30 = 30000" "NegativeToPositive 60 = 60000"
  by (simp_all add: NegativeToPositive_def trunc_def)

lemma sin_60_30: "sinAngleValue 60000 = 2 * sinAngleValue 30000 * cosAngleValue 30000"
proof -
  have "angle_of 60000 = 2 * angle_of 30000" by (simp add: angle_of_def)
  then show ?thesis by (simp add: sinAngleValue_def cosAngleValue_def sin_double)
qed

lemma angle_30: "0 < angle_of 30000" "angle_of 30000 < pi"
  using pi_ge_two by (simp_all add: angle_of_def PI_def)


text \<open>The four mirror angles have a positive cosine.\<close>

definition ls_ok :: "lidar_ls \<Rightarrow> bool" where
  "ls_ok s \<longleftrightarrow> ls_fPutTheMirrorOffAngle s \<in> {mirror_standard, mirror_192}
     \<and> ls_DeadZoneOffset s \<in> {637 / 100, 1082 / 100} \<and> ls_fH_AngleAcc s = 1 / 100
     \<and> ls_fV_AngleAcc s \<in> {25 / 10000, 1 / 100} \<and> ls_fDistanceAcc s \<in> {1 / 1000, 4 / 1000}"

lemma mirror_cases:
  assumes "ls_ok s" "ch < 4"
  shows "ls_fPutTheMirrorOffAngle s ! ch \<in> {3 / 2, 1 / 2, - 1 / 2, - 3 / 2}"
proof -
  have "ch \<in> {0, 1, 2, 3}" using assms(2) by auto
  then show ?thesis using assms(1) by (auto simp: ls_ok_def mirror_standard_def mirror_192_def)
qed

lemma pi_greater: "26 / 10 < pi"
proof (rule ccontr)
  assume a: "\<not> 26 / 10 < pi"
  have "\<bar>sin (65 / 100 :: real)\<bar> \<le> 65 / 100" using abs_sin_x_le_abs_x [of "65 / 100 :: real"] by simp
  then have "(sin (65 / 100 :: real))\<^sup>2 \<le> (65 / 100)\<^sup>2" by (metis abs_le_square_iff abs_of_nonneg zero_le_divide_iff zero_le_numeral)
  moreover have "cos (2 * (65 / 100 :: real)) = 1 - 2 * (sin (65 / 100))\<^sup>2" by (rule cos_double_sin)
  ultimately have "0 < cos (13 / 10 :: real)" by (simp add: power_divide)
  moreover have "cos (13 / 10) \<le> cos (pi / 2)"
    using a pi_ge_two by (intro cos_monotone_0_pi_le) auto
  ultimately show False by simp
qed

lemma mirror_cos:
  assumes "ls_ok s" "ch < 4"
  shows "cosAngleValue (NegativeToPositive (ls_fPutTheMirrorOffAngle s ! ch)) \<noteq> 0"
proof -
  have small: "cosAngleValue 1500 > 0" "cosAngleValue 500 > 0"
    using pi_ge_two by (auto simp: cosAngleValue_def angle_of_def PI_def intro!: cos_gt_zero)
  have big: "cosAngleValue 358500 > 0" "cosAngleValue 359500 > 0"
  proof -
    have shift: "cosAngleValue i = cos (2 * pi - angle_of i)" for i
      by (simp add: cosAngleValue_def cos_diff)
    show "cosAngleValue 358500 > 0" "cosAngleValue 359500 > 0"
      unfolding shift using pi_greater pi_less_4
      by (rule_tac [!] cos_gt_zero_pi) (simp_all add: angle_of_def PI_def)
  qed
  have "NegativeToPositive (3 / 2) = 1500" "NegativeToPositive (1 / 2) = 500"
    "NegativeToPositive (- 1 / 2) = 359500" "NegativeToPositive (- 3 / 2) = 358500"
    by (simp_all add: NegativeToPositive_def trunc_def)
  then have "\<forall>v\<in>{3 / 2, 1 / 2, - 1 / 2, - 3 / 2}. cosAngleValue (NegativeToPositive v) \<noteq> 0"
    using small big by simp
  then show ?thesis using mirror_cases [OF assms] by (rule bspec)
qed


lemma XYZ_distance:
  assumes "ls_ok s" "ch < 4" "\<bar>H\<bar> < 360" "\<bar>V\<bar> < 300"
  shows "\<exists>H' V' p. XYZ_calculate s ch H V D D2 = Some (H', V', p)
     \<and> (case xyz_1 p of (x, y, z) \<Rightarrow> x\<^sup>2 + y\<^sup>2 + z\<^sup>2 = D\<^sup>2)
     \<and> (case xyz_2 p of (x, y, z) \<Rightarrow> x\<^sup>2 + y\<^sup>2 + z\<^sup>2 = (if 0 < D2 then D2\<^sup>2 else 0))"
proof -
  define mirror galvano where "mirror = ls_fPutTheMirrorOffAngle s ! ch" and "galvano = V + ls_DeadZoneOffset s"
  have "mirror \<in> {3 / 2, 1 / 2, - 1 / 2, - 3 / 2}" using mirror_cases [OF assms(1,2)] by (simp add: mirror_def)
  moreover have "\<bar>galvano\<bar> < 360" using assms(1,4) by (auto simp: galvano_def ls_ok_def)
  ultimately have tab: "in_table mirror" "in_table galvano" "in_table H"
    using assms(3) by (auto intro!: in_table_small)
  define cm sm cg sg ch' sh c s' where d: "cm = cosAngleValue (NegativeToPositive mirror)"
    "sm = sinAngleValue (NegativeToPositive mirror)" "cg = cosAngleValue (NegativeToPositive galvano)"
    "sg = sinAngleValue (NegativeToPositive galvano)" "ch' = cosAngleValue (NegativeToPositive H)"
    "sh = sinAngleValue (NegativeToPositive H)" "c = cosAngleValue 30000" "s' = sinAngleValue 30000"
  note unit = table_unit [of "NegativeToPositive mirror", folded d] table_unit [of "NegativeToPositive galvano", folded d]
    table_unit [of "NegativeToPositive H", folded d] table_unit [of 30000, folded d]
  define R where "R = c * cm * cg - sg * sm"
  define rz where "rz = 2 * R * sg + sm"
  define rx where "rx = 2 * R * cg * s' - cm * (2 * s' * c)"
  define cv where "cv = sqrt (1 - rz * rz)"
  define sc where "sc = rx / cv"
  define cc where "cc = sqrt (1 - sc * sc)"
  have "s' * cm \<noteq> 0"
    using mirror_cos [OF assms(1,2)] sin_gt_zero [OF angle_30] by (simp add: d mirror_def sinAngleValue_def)
  then have "0 < (s' * cm)\<^sup>2" by (metis zero_less_power2)
  moreover have "0 \<le> (sm * (2 * sg * cg) - c * cm * (1 - 2 * sg\<^sup>2))\<^sup>2" by simp
  ultimately have rz: "rz\<^sup>2 < 1"
    using reflection_height [OF unit(1,2,4) R_def] unfolding rz_def by linarith
  have "0 \<le> (2 * R * cg * c - cm * (c\<^sup>2 - s'\<^sup>2))\<^sup>2" by simp
  then have rx: "rx\<^sup>2 \<le> 1 - rz\<^sup>2"
    using reflection_unit [OF unit(1,2,4) R_def] unfolding rx_def rz_def by linarith
  have cv: "cv\<^sup>2 = 1 - rz\<^sup>2" "0 < cv" using rz by (simp_all add: cv_def power2_eq_square)
  have "sc\<^sup>2 \<le> 1" using rx rz by (simp add: sc_def power_divide cv(1))
  then have cc: "cc\<^sup>2 = 1 - sc\<^sup>2" by (simp add: cc_def power2_eq_square)
  have H: "(sh * cc + ch' * sc)\<^sup>2 + (ch' * cc - sh * sc)\<^sup>2 = 1"
    using unit(3) cc by algebra
  have pt: "(x * cv * (sh * cc + ch' * sc))\<^sup>2 + (x * cv * (ch' * cc - sh * sc))\<^sup>2 + (x * rz)\<^sup>2 = x\<^sup>2" for x
    using H cv(1) by algebra
  let ?p = "\<lambda>x. (x * cv * (sh * cc + ch' * sc), x * cv * (ch' * cc - sh * sc), x * rz)"
  have "XYZ_calculate s ch H V D D2 = Some (arcsin (sh * cc + ch' * sc) * 180 / PI, arcsin rz * 180 / PI,
      \<lparr>xyz_1 = ?p D, xyz_2 = (if 0 < D2 then ?p D2 else (0, 0, 0))\<rparr>)"
    unfolding XYZ_calculate_def Let_def mirror_def [symmetric] galvano_def [symmetric] NegativeToPositive_const
      sin_60_30 d [symmetric] R_def [symmetric] rz_def [symmetric] rx_def [symmetric] cv_def [symmetric]
      sc_def [symmetric] cc_def [symmetric]
    using tab by simp
  then show ?thesis using pt [of D] pt [of D2] by simp
qed



text \<open>
  C7: a decoded point lies at the measured distance. For every channel, every horizontal angle below
  360 degrees and vertical angle below 300 degrees, and any parameters the decoder can have, all
  table lookups of \<open>XYZ_calculate\<close> are in range and the point it returns has exactly the
  measured distance from the origin: the mirror formula is a reflection of a unit vector, so
  the square roots never see a negative number and the division never a zero. A second echo
  without a distance becomes the origin itself.
\<close>

theorem XYZ_calculate_distance:
  assumes "ls_ok s" "ch < 4" "\<bar>H\<bar> < 360" "\<bar>V\<bar> < 300"
  shows "\<exists>H' V' p. XYZ_calculate s ch H V D D2 = Some (H', V', p)
     \<and> (case xyz_1 p of (x, y, z) \<Rightarrow> x\<^sup>2 + y\<^sup>2 + z\<^sup>2 = D\<^sup>2)
     \<and> (case xyz_2 p of (x, y, z) \<Rightarrow> x\<^sup>2 + y\<^sup>2 + z\<^sup>2 = (if 0 < D2 then D2\<^sup>2 else 0))"
  by (rule XYZ_distance [OF assms])

definition sample_ls :: lidar_ls where
  "sample_ls = ls_new \<lparr>gl_dataPort = 2368, gl_devPort = 2369, gl_computerIP = [], gl_groupIp = [], gl_isQuit = False,
     gl_isFrameOK = False, gl_islidarDevCome = True, gl_isSendUDP = True, gl_isSuccessfulFlag = None,
     gl_mDataInfoString = [], gl_mDevInfoString = [], gl_dataDev = replicate 1206 0, gl_Rest_UCWP_buff = replicate 1206 0,
     gl_ip_sa = [], gl_SpeedValue = 0, gl_is_speedFlag = False, gl_sleepers = 0, gl_allDataValue = [], gl_allTimestamp = 1490, gl_lastAllTimestamp = 0,
     gl_PointIntervalT_ns = 10, gl_messageCount = 0, gl_DistanceIsNotZero = 0, gl_Get = [], gl_Per = None,
     gl_callback = True, gl_calls = [], gl_messages = [], ls_StackFrame = 1, ls_count = 0, ls_fDistanceAcc = 0,
     ls_fH_AngleAcc = 0, ls_fV_AngleAcc = 0, ls_HorizontalPoints = 0, ls_fPutTheMirrorOffAngle = [],
     ls_DeadZoneOffset = 0, ls_PointCloudLastData = []\<rparr>"

lemma sample_ls_props:
  "ls_ok sample_ls" "ls_count sample_ls = 0" "gl_Get sample_ls = []" "gl_isQuit sample_ls = False"
  "gl_allDataValue sample_ls = []" "gl_callback sample_ls" "gl_calls sample_ls = []" "gl_Per sample_ls = None"
  "ls_StackFrame sample_ls = 1" "ls_PointCloudLastData sample_ls = []" "gl_allTimestamp sample_ls = 1490"
  "gl_lastAllTimestamp sample_ls = 0" "gl_PointIntervalT_ns sample_ls = 10"
  "gl_islidarDevCome sample_ls" "gl_isSendUDP sample_ls" "gl_dataDev sample_ls = replicate 1206 0"
  by (simp_all add: sample_ls_def ls_ok_def ls_new_def)

theorem XYZ_calculate_distance_witness:
  "\<exists>H' V' p. XYZ_calculate sample_ls 2 10 5 30 0 = Some (H', V', p)
     \<and> (case xyz_1 p of (x, y, z) \<Rightarrow> x\<^sup>2 + y\<^sup>2 + z\<^sup>2 = 30\<^sup>2) \<and> (case xyz_2 p of (x, y, z) \<Rightarrow> x\<^sup>2 + y\<^sup>2 + z\<^sup>2 = 0)"
  using XYZ_calculate_distance [OF sample_ls_props(1), of 2 10 5 30 0] by simp


end
