(* ===== verification/Lidar_LS.thy ===== *)
theory Lidar_LS
  imports Lidar_Point
begin

text \<open>
  \<open>include/LSSDK/Include/GetLidarData_LS.cpp\<close>: the decoder of the LS lidars. \<open>LidarRun\<close> takes packets from
  the queue of the base class; a device packet sets the decoder's parameters, a data packet
  carries 149 single-echo blocks of 8 bytes or 99 double-echo blocks of 12 bytes and a time
  stamp. A block is a frame marker or one measurement.

  The two packet formats share the contract \<open>echo_decoder\<close>: what they decode depends on the
  decoder's parameters only, and exists for all parameters the decoder can have.
\<close>

section \<open>Blocks\<close>

definition is_marker :: "packet \<Rightarrow> nat \<Rightarrow> bool" where
  "is_marker d i \<longleftrightarrow> d ! i = 0xff \<and> d ! (i + 1) = 0xaa \<and> d ! (i + 2) = 0xbb \<and> d ! (i + 3) = 0xcc \<and> d ! (i + 4) = 0xdd"

definition raw_distance :: "packet \<Rightarrow> nat \<Rightarrow> int" where
  "raw_distance d i = uint (d ! i) * 2 ^ 16 + uint (d ! (i + 1)) * 2 ^ 8 + uint (d ! (i + 2))"

definition raw_angle_H :: "packet \<Rightarrow> nat \<Rightarrow> int" where
  "raw_angle_H d i =
     (let a = uint (d ! i) * 2 ^ 8 + uint (d ! (i + 1)) in if 32767 < a then a - 65536 else a)"

definition channel_ID :: "packet \<Rightarrow> nat \<Rightarrow> nat" where
  "channel_ID d i = unat (drop_bit 6 (d ! (i + 2)))"

text \<open>The sign is bit 5; a negative value gets its two high bits set before it is taken as 16 bits.\<close>

definition raw_angle_V :: "packet \<Rightarrow> nat \<Rightarrow> int" where
  "raw_angle_V d i =
     (let t = d ! (i + 2)
      in if and (drop_bit 5 t) 1 = 1
         then let v = or (uint t * 2 ^ 8 + uint (d ! (i + 3))) 0xc000 in if 32767 < v then v - 65536 else v
         else uint (and t 0x3f) * 2 ^ 8 + uint (d ! (i + 3)))"

definition count_nonzero :: "int \<Rightarrow> int \<Rightarrow> int" where
  "count_nonzero tDistance n = (if 30 < n then n else if tDistance \<noteq> 0 then n + 1 else n)"

text \<open>Conversion of a \<open>double\<close> to \<open>uint64_t\<close>.\<close>

definition to_u64 :: "real \<Rightarrow> u64 option" where
  "to_u64 r = (if - 1 < r \<and> r < 2 ^ 64 then Some (word_of_int (trunc r)) else None)"

definition point_time :: "lidar_ls \<Rightarrow> nat \<Rightarrow> u64 option" where
  "point_time s back = to_u64 (real (unat (gl_allTimestamp s)) - gl_PointIntervalT_ns s * real back)"

text \<open>A finished frame; with a stack of frames the points of the previous one come first.\<close>

definition finish_frame :: "lidar_ls \<Rightarrow> lidar_ls" where
  "finish_frame s =
     (let s1 = (if 1 < ls_StackFrame s
                then s\<lparr>gl_Get := ls_PointCloudLastData s @ gl_Get s, ls_PointCloudLastData := gl_Get s\<rparr> else s)
      in (sendLidarData s1)\<lparr>ls_count := 0, gl_messageCount := 0\<rparr>)"

definition frame_overrun :: "lidar_ls \<Rightarrow> lidar_ls" where
  "frame_overrun s =
     (if gl_messageCount s = 1 then s
      else (messFunction ''Frame synchronization failure!!!'' 10031 s)\<lparr>gl_messageCount := 1\<rparr>)"

definition lidar_point :: "nat \<Rightarrow> real \<Rightarrow> real \<Rightarrow> real \<Rightarrow> nat \<Rightarrow> u64 option \<Rightarrow> real \<times> real \<times> real \<Rightarrow> much_lidar_data" where
  "lidar_point ID H V D intensity t p =
     \<lparr>ml_X = fst p, ml_Y = fst (snd p), ml_Z = snd (snd p), ml_ID = ID, ml_H_angle = H, ml_V_angle = V,
      ml_Distance = D, ml_Intensity = intensity, ml_Mtimestamp_nsce = t\<rparr>"

text \<open>The measurement in the single-echo block at \<open>i\<close>, and the two in a double-echo block.\<close>

definition single_points :: "packet \<Rightarrow> nat \<Rightarrow> lidar_ls \<Rightarrow> frame option" where
  "single_points d i s =
     (let H = real_of_int (raw_angle_H d i) * ls_fH_AngleAcc s;
          V = real_of_int (raw_angle_V d i) * ls_fV_AngleAcc s;
          dist = real_of_int (raw_distance d (i + 4)) * ls_fDistanceAcc s
      in case XYZ_calculate s (channel_ID d i) H V dist (- 1) of
           None \<Rightarrow> None
         | Some (H', V', p) \<Rightarrow>
             Some [lidar_point (channel_ID d i) H' V' dist (unat (d ! (i + 7))) (point_time s (148 - i div 8)) (xyz_1 p)])"

definition double_points :: "packet \<Rightarrow> nat \<Rightarrow> lidar_ls \<Rightarrow> frame option" where
  "double_points d i s =
     (let H = real_of_int (raw_angle_H d i) * ls_fH_AngleAcc s;
          V = real_of_int (raw_angle_V d i) * ls_fV_AngleAcc s;
          dist = real_of_int (raw_distance d (i + 4)) * ls_fDistanceAcc s;
          dist2 = real_of_int (raw_distance d (i + 8)) * ls_fDistanceAcc s;
          t = point_time s (98 - i div 12)
      in case XYZ_calculate s (channel_ID d i) H V dist dist2 of
           None \<Rightarrow> None
         | Some (H', V', p) \<Rightarrow>
             Some [lidar_point (channel_ID d i) H' V' dist (unat (d ! (i + 7))) t (xyz_1 p),
                   lidar_point (channel_ID d i) H' V' dist2 (unat (d ! (i + 11))) t (xyz_2 p)])"

text \<open>One pass of the block loop; \<open>points\<close> is one of the two decoders.\<close>

definition echo_block :: "(packet \<Rightarrow> nat \<Rightarrow> lidar_ls \<Rightarrow> frame option) \<Rightarrow> packet \<Rightarrow> nat \<Rightarrow> lidar_ls \<Rightarrow> lidar_ls option" where
  "echo_block points d i s =
     (let s0 = (if is_marker d i then s\<lparr>ls_count := ls_count s + 1\<rparr> else s)
      in if ls_count s0 = 1 then Some (finish_frame s0)
         else if 3000000 < length (gl_Get s0) then Some (frame_overrun s0)
         else if ls_count s0 = 0
         then let tDistance = raw_distance d (i + 4);
                  s1 = s0\<lparr>gl_DistanceIsNotZero := count_nonzero tDistance (gl_DistanceIsNotZero s0)\<rparr>
              in if tDistance \<le> 0 then Some s1
                 else case points d i s1 of None \<Rightarrow> None | Some ps \<Rightarrow> Some (s1\<lparr>gl_Get := gl_Get s1 @ ps\<rparr>)
         else Some s0)"

fun block_loop :: "(nat \<Rightarrow> lidar_ls \<Rightarrow> lidar_ls option) \<Rightarrow> nat list \<Rightarrow> lidar_ls \<Rightarrow> lidar_ls option" where
  "block_loop f [] s = Some s"
| "block_loop f (i # is) s = (case f i s of None \<Rightarrow> None | Some s' \<Rightarrow> block_loop f is s')"

definition handleSingleEcho :: "packet \<Rightarrow> lidar_ls \<Rightarrow> lidar_ls option" where
  "handleSingleEcho d s =
     block_loop (echo_block single_points d) (map (\<lambda>k. 8 * k) [0..<149])
       (s\<lparr>gl_PointIntervalT_ns := real (unat (gl_allTimestamp s - gl_lastAllTimestamp s)) / 149\<rparr>)"

definition handleDoubleEcho :: "packet \<Rightarrow> lidar_ls \<Rightarrow> lidar_ls option" where
  "handleDoubleEcho d s =
     block_loop (echo_block double_points d) (map (\<lambda>k. 12 * k) [0..<99])
       (s\<lparr>gl_PointIntervalT_ns := real (unat (gl_allTimestamp s - gl_lastAllTimestamp s)) / 99\<rparr>)"

section \<open>Packets\<close>

text \<open>\<open>timegm\<close>: seconds since 1970 of a calendar date; months beyond the year carry over.\<close>

definition leap_days :: "int \<Rightarrow> int" where
  "leap_days y = y div 4 - y div 100 + y div 400"

definition is_leap :: "int \<Rightarrow> bool" where
  "is_leap y \<longleftrightarrow> y mod 4 = 0 \<and> (y mod 100 \<noteq> 0 \<or> y mod 400 = 0)"

definition month_days :: "int \<Rightarrow> nat \<Rightarrow> int" where
  "month_days y m = [0, 31, 59, 90, 120, 151, 181, 212, 243, 273, 304, 334] ! m + (if 2 \<le> m \<and> is_leap y then 1 else 0)"

definition timegm :: "int \<Rightarrow> int \<Rightarrow> int \<Rightarrow> int \<Rightarrow> int \<Rightarrow> int \<Rightarrow> int" where
  "timegm year mon mday hour minute sec =
     (let y = year + mon div 12; m = nat (mon mod 12);
          days = 365 * (y - 1970) + leap_days (y - 1) - leap_days 1969 + month_days y m + (mday - 1)
      in ((days * 24 + hour) * 60 + minute) * 60 + sec)"

definition byte_at :: "packet \<Rightarrow> nat \<Rightarrow> u64" where
  "byte_at d i = ucast (d ! i)"

definition packet_nsec :: "packet \<Rightarrow> u64" where
  "packet_nsec d = push_bit 24 (byte_at d 1200) + push_bit 16 (byte_at d 1201) + push_bit 8 (byte_at d 1202) + byte_at d 1203"

definition ptp_sec :: "packet \<Rightarrow> u64" where
  "ptp_sec d = push_bit 32 (byte_at d 1195) + push_bit 24 (byte_at d 1196) + push_bit 16 (byte_at d 1197)
     + push_bit 8 (byte_at d 1198) + byte_at d 1199"

definition gps_sec :: "packet \<Rightarrow> u64" where
  "gps_sec d = word_of_int (timegm (uint (d ! 1194) + 2000) (uint (d ! 1195) - 1) (uint (d ! 1196))
     (uint (d ! 1197)) (uint (d ! 1198)) (uint (d ! 1199)))"

definition packet_time :: "packet \<Rightarrow> u64" where
  "packet_time d = (if d ! 1194 = 0xff then ptp_sec d else gps_sec d) * 1000000000 + packet_nsec d"

text \<open>A device packet.\<close>

definition set_192 :: "lidar_ls \<Rightarrow> lidar_ls" where
  "set_192 s = s\<lparr>ls_StackFrame := 1, ls_fV_AngleAcc := 1 / 100, ls_fDistanceAcc := 4 / 1000,
     ls_fPutTheMirrorOffAngle := mirror_192, ls_DeadZoneOffset := 1082 / 100\<rparr>"

definition device_packet :: "packet \<Rightarrow> lidar_ls \<Rightarrow> lidar_ls" where
  "device_packet d s =
     (let s1 = s\<lparr>ls_HorizontalPoints := uint (d ! 184) * 2 ^ 8 + uint (d ! 185)\<rparr>;
          s2 = (if d ! 231 = 64 \<or> d ! 231 = 65 then s1\<lparr>ls_StackFrame := 2\<rparr>
                else if d ! 231 = 192 then set_192 s1
                else s1\<lparr>ls_fDistanceAcc := 1 / 1000, ls_fH_AngleAcc := 1 / 100, ls_fV_AngleAcc := 25 / 10000,
                        ls_StackFrame := 1, ls_DeadZoneOffset := 637 / 100, ls_fPutTheMirrorOffAngle := mirror_standard\<rparr>);
          majorVersion = uint (d ! 1202); minorVersion1 = uint (d ! 1203) div 16
      in s2\<lparr>ls_fV_AngleAcc := (if 1 < majorVersion \<or> (majorVersion = 1 \<and> 1 < minorVersion1) then 25 / 10000 else 1 / 100)\<rparr>)"

text \<open>One pass of \<open>LidarRun\<close>; the first component tells whether the loop goes on.\<close>

definition LidarRun :: "lidar_ls \<Rightarrow> (bool \<times> lidar_ls) option" where
  "LidarRun s =
     (if gl_isQuit s then Some (False, clearQueue s)
      else case gl_allDataValue s of
          [] \<Rightarrow> Some (True, s)
        | front # rest \<Rightarrow>
            (let d = take 1206 front; s1 = s\<lparr>gl_allDataValue := rest\<rparr>
             in if is_dev_packet d then Some (True, device_packet d s1)
                else let s2 = s1\<lparr>gl_allTimestamp := packet_time d\<rparr>;
                         s3 = (if d ! 1204 = 192 \<and> ls_HorizontalPoints s2 \<noteq> 0 then set_192 s2 else s2)
                     in case (if d ! 1205 = 2 then handleDoubleEcho d s3 else handleSingleEcho d s3) of
                          None \<Rightarrow> None
                        | Some s4 \<Rightarrow> Some (True, s4\<lparr>gl_lastAllTimestamp := gl_allTimestamp s4\<rparr>)))"

section \<open>Decoded fields\<close>

lemma uint_byte: "0 \<le> uint (b :: u8)" "uint (b :: u8) \<le> 255" "unat (b :: u8) \<le> 255"
  using uint_bounded [of b] unsigned_less [of b, where 'a = nat] by auto

lemma angle_H_range: "- 32768 \<le> raw_angle_H d i \<and> raw_angle_H d i \<le> 32767"
proof -
  obtain a b where ab: "uint (d ! i) = a" "uint (d ! (i + 1)) = b" by blast
  have "0 \<le> a" "a \<le> 255" "0 \<le> b" "b \<le> 255" using uint_byte ab by auto
  then show ?thesis unfolding raw_angle_H_def ab Let_def by auto
qed

lemma channel_eq: "channel_ID d i = unat (d ! (i + 2)) div 64"
  unfolding channel_ID_def unat_drop_bit_eq by (simp add: drop_bit_eq_div)

lemma channel_less: "channel_ID d i < 4"
  using uint_byte(3) [of "d ! (i + 2)"] by (simp only: channel_eq)

lemma or_high_bits:
  fixes x :: int
  assumes "0 \<le> x" "x < 2 ^ (n + k)"
  shows "or x (push_bit n (mask k)) = take_bit n x + push_bit n (mask k)"
proof -
  have x: "take_bit (n + k) x = x" using assms by (simp add: take_bit_int_eq_self)
  have "or x (push_bit n (mask k)) = concat_bit n x (mask k)"
  proof (rule bit_eqI)
    fix m
    have "bit x m \<Longrightarrow> m < n + k" using bit_take_bit_iff [of "n + k" x m] x by simp
    then show "bit (or x (push_bit n (mask k))) m = bit (concat_bit n x (mask k)) m"
      by (auto simp: bit_or_iff bit_push_bit_iff bit_concat_bit_iff bit_mask_iff)
  qed
  then show ?thesis by (simp add: concat_bit_eq)
qed

text \<open>The vertical angle is the low 14 bits in two's complement.\<close>

lemma byte_sign_bit: "and (drop_bit 5 (t :: u8)) 1 = 1 \<longleftrightarrow> 32 \<le> uint t mod 64"
proof -
  have "and (drop_bit 5 t) 1 = 1 \<longleftrightarrow> bit t 5"
    by (simp add: and_one_eq odd_iff_mod_2_eq_one [symmetric] bit_iff_odd_drop_bit)
  also have "\<dots> \<longleftrightarrow> bit (uint t) 5" by (simp add: bit_uint_iff)
  also have "\<dots> \<longleftrightarrow> odd (uint t div 32)" by (simp add: bit_iff_odd)
  also have "\<dots> \<longleftrightarrow> 32 \<le> uint t mod 64"
    using zmod_zmult2_eq [of 2 "uint t" 32] pos_mod_bound [of 32 "uint t"] pos_mod_sign [of 32 "uint t"]
    by (cases "odd (uint t div 32)") (simp_all add: odd_iff_mod_2_eq_one even_iff_mod_2_eq_zero)
  finally show ?thesis .
qed

lemma byte_low6: "uint (and (t :: u8) 0x3f) = uint t mod 64"
proof -
  have "and t 0x3f = take_bit 6 t" by (simp add: take_bit_eq_mask mask_numeral)
  then show ?thesis by (simp only: unsigned_take_bit_eq) (simp add: take_bit_eq_mod)
qed

lemma angle_V_eq:
  "raw_angle_V d i = (let v = uint (d ! (i + 2)) mod 64 * 256 + uint (d ! (i + 3)) in if 8192 \<le> v then v - 16384 else v)"
proof -
  obtain t where t: "d ! (i + 2) = t" by blast
  obtain a b where ab: "uint t = a" "uint (d ! (i + 3)) = b" by blast
  have r: "0 \<le> a" "a \<le> 255" "0 \<le> b" "b \<le> 255" using uint_byte ab by auto
  have "or (a * 2 ^ 8 + b) (push_bit 14 (mask 2)) = take_bit 14 (a * 2 ^ 8 + b) + push_bit 14 (mask 2)"
    using r by (intro or_high_bits) simp_all
  moreover have "(a * 256 + b) mod 16384 = a mod 64 * 256 + b"
    using zmod_zmult2_eq [of 64 "a * 256 + b" 256] r by simp
  ultimately have hi: "or (a * 2 ^ 8 + b) 0xc000 = a mod 64 * 256 + b + 49152"
    by (simp add: take_bit_eq_mod mask_numeral)
  have "0 \<le> a mod 64" "a mod 64 < 64" by simp_all
  then show ?thesis
    unfolding raw_angle_V_def Let_def t byte_sign_bit byte_low6 ab hi using r by auto
qed

lemma angle_V_range: "- 8192 \<le> raw_angle_V d i \<and> raw_angle_V d i \<le> 8191"
proof -
  obtain a b where ab: "uint (d ! (i + 2)) mod 64 = a" "uint (d ! (i + 3)) = b" by blast
  have "0 \<le> a" "a < 64" "0 \<le> b" "b \<le> 255" using uint_byte ab by auto
  then show ?thesis unfolding angle_V_eq Let_def ab by auto
qed


section \<open>Frames\<close>

definition decode_params :: "lidar_ls \<Rightarrow> real list \<times> real \<times> real \<times> real \<times> real \<times> u64 \<times> real" where
  "decode_params s = (ls_fPutTheMirrorOffAngle s, ls_DeadZoneOffset s, ls_fH_AngleAcc s, ls_fV_AngleAcc s,
     ls_fDistanceAcc s, gl_allTimestamp s, gl_PointIntervalT_ns s)"

lemma decode_params_update [simp]:
  "decode_params (s\<lparr>ls_count := n\<rparr>) = decode_params s" "decode_params (s\<lparr>gl_Get := f\<rparr>) = decode_params s"
  "decode_params (s\<lparr>gl_DistanceIsNotZero := m\<rparr>) = decode_params s"
  "decode_params (s\<lparr>gl_messageCount := m\<rparr>) = decode_params s"
  by (simp_all add: decode_params_def)

lemma ls_ok_params: "decode_params s = decode_params t \<Longrightarrow> ls_ok s = ls_ok t"
  by (simp add: decode_params_def ls_ok_def)

lemma messFunction_params [simp]:
  "decode_params (messFunction m c s) = decode_params s" "ls_count (messFunction m c s) = ls_count s"
  "ls_StackFrame (messFunction m c s) = ls_StackFrame s" "gl_Get (messFunction m c s) = gl_Get s"
  "gl_calls (messFunction m c s) = gl_calls s" "gl_callback (messFunction m c s) = gl_callback s"
  "gl_Per (messFunction m c s) = gl_Per s" "ls_PointCloudLastData (messFunction m c s) = ls_PointCloudLastData s"
  by (simp_all add: messFunction_def Let_def decode_params_def)

lemma sendLidarData_fields [simp]:
  "decode_params (sendLidarData s) = decode_params s" "ls_count (sendLidarData s) = ls_count s"
  "ls_StackFrame (sendLidarData s) = ls_StackFrame s" "gl_Get (sendLidarData s) = []"
  "map fst (gl_calls (sendLidarData s)) = map fst (gl_calls s) @ (if gl_callback s then [gl_Get s] else [])"
  "gl_callback (sendLidarData s) = gl_callback s" "gl_Per (sendLidarData s) = Some (gl_Get s)"
  "ls_PointCloudLastData (sendLidarData s) = ls_PointCloudLastData s"
  by (simp_all add: sendLidarData_def Let_def decode_params_def)
     (simp_all add: messFunction_def Let_def)

lemma finish_frame_fields [simp]:
  "decode_params (finish_frame s) = decode_params s" "ls_count (finish_frame s) = 0"
  "ls_StackFrame (finish_frame s) = ls_StackFrame s" "gl_Get (finish_frame s) = []"
  "gl_callback (finish_frame s) = gl_callback s"
  "gl_Per (finish_frame s) = Some ((if 1 < ls_StackFrame s then ls_PointCloudLastData s else []) @ gl_Get s)"
  "map fst (gl_calls (finish_frame s)) = map fst (gl_calls s)
     @ (if gl_callback s then [(if 1 < ls_StackFrame s then ls_PointCloudLastData s else []) @ gl_Get s] else [])"
  "ls_PointCloudLastData (finish_frame s) = (if 1 < ls_StackFrame s then gl_Get s else ls_PointCloudLastData s)"
proof -
  let ?s1 = "if 1 < ls_StackFrame s
     then s\<lparr>gl_Get := ls_PointCloudLastData s @ gl_Get s, ls_PointCloudLastData := gl_Get s\<rparr> else s"
  have "decode_params (finish_frame s) = decode_params (sendLidarData ?s1)"
    by (simp add: finish_frame_def Let_def decode_params_def)
  also have "\<dots> = decode_params ?s1" by simp
  finally show "decode_params (finish_frame s) = decode_params s" by (simp add: decode_params_def)
qed (simp_all add: finish_frame_def Let_def)

text \<open>The reference: markers cut the stream of points into frames.\<close>

fun frames_of :: "'p list \<Rightarrow> 'p option list \<Rightarrow> 'p list list \<times> 'p list" where
  "frames_of cur [] = ([], cur)"
| "frames_of cur (None # es) = (cur # fst (frames_of [] es), snd (frames_of [] es))"
| "frames_of cur (Some p # es) = frames_of (cur @ [p]) es"

lemma frames_of_points: "frames_of cur (map Some ps @ es) = frames_of (cur @ ps) es"
  by (induction ps arbitrary: cur) simp_all

text \<open>With a stack of two frames every frame is delivered together with its predecessor.\<close>

definition stacked :: "bool \<Rightarrow> 'p list \<Rightarrow> 'p list list \<Rightarrow> 'p list list" where
  "stacked two prev fs = (if two then map (\<lambda>(a, b). a @ b) (zip (prev # fs) fs) else fs)"

lemma stacked_simps [simp]: "stacked two prev [] = []"
  "stacked two prev (f # fs) = ((if two then prev else []) @ f) # stacked two f fs"
  by (simp_all add: stacked_def)

lemma stacked_eq_Nil [simp]: "stacked two prev fs = [] \<longleftrightarrow> fs = []"
  by (cases fs) simp_all

lemma stacked_one [simp]: "stacked False prev fs = fs"
  by (simp add: stacked_def)

definition block_event :: "(packet \<Rightarrow> nat \<Rightarrow> lidar_ls \<Rightarrow> frame option) \<Rightarrow> packet \<Rightarrow> lidar_ls \<Rightarrow> nat \<Rightarrow> much_lidar_data option list" where
  "block_event points d s i =
     (if is_marker d i then [None]
      else if raw_distance d (i + 4) \<le> 0 then [] else map Some (the (points d i s)))"

lemma block_event_marker: "is_marker d i \<Longrightarrow> block_event points d s i = [None]"
  by (simp add: block_event_def)

lemma block_event_other: "\<not> is_marker d i \<Longrightarrow>
    block_event points d s i = (if raw_distance d (i + 4) \<le> 0 then [] else map Some (the (points d i s)))"
  by (simp add: block_event_def)

text \<open>The invariant of the decoder between packets.\<close>

definition ls_inv :: "lidar_ls \<Rightarrow> bool" where
  "ls_inv s \<longleftrightarrow> ls_ok s \<and> ls_count s = 0 \<and> length (gl_Get s) \<le> 3000002 \<and> ls_StackFrame s \<in> {1, 2}"

locale echo_decoder =
  fixes points :: "packet \<Rightarrow> nat \<Rightarrow> lidar_ls \<Rightarrow> frame option"
  assumes params_only: "decode_params s = decode_params t \<Longrightarrow> points d i s = points d i t"
    and total: "ls_ok s \<Longrightarrow> \<exists>ps. points d i s = Some ps \<and> length ps \<le> 2"
begin

lemma points_nonzero [simp]: "points d i (s\<lparr>gl_DistanceIsNotZero := n\<rparr>) = points d i s"
  by (rule params_only) simp

lemma block_safe:
  assumes "ls_ok s" "ls_count s = 0" "length (gl_Get s) \<le> 3000002"
  shows "\<exists>s'. echo_block points d i s = Some s' \<and> decode_params s' = decode_params s \<and> ls_count s' = 0
     \<and> length (gl_Get s') \<le> 3000002 \<and> ls_StackFrame s' = ls_StackFrame s"
proof -
  obtain ps where "points d i s = Some ps" "length ps \<le> 2" using total assms(1) by blast
  then show ?thesis
    using assms(2,3) by (simp add: echo_block_def frame_overrun_def Let_def)
qed

lemma loop_safe:
  assumes "ls_ok s" "ls_count s = 0" "length (gl_Get s) \<le> 3000002"
  shows "\<exists>s'. block_loop (echo_block points d) is s = Some s' \<and> decode_params s' = decode_params s \<and> ls_count s' = 0
     \<and> length (gl_Get s') \<le> 3000002 \<and> ls_StackFrame s' = ls_StackFrame s"
  using assms
proof (induction "is" arbitrary: s)
  case (Cons i "is")
  obtain s1 where s1: "echo_block points d i s = Some s1" "decode_params s1 = decode_params s" "ls_count s1 = 0"
      "length (gl_Get s1) \<le> 3000002" "ls_StackFrame s1 = ls_StackFrame s"
    using block_safe [OF Cons.prems] by blast
  then show ?case using Cons.IH [of s1] Cons.prems(1) ls_ok_params [OF s1(2)] by simp
qed simp

lemma loop_inv: "ls_inv s \<Longrightarrow> \<exists>s'. block_loop (echo_block points d) is s = Some s' \<and> ls_inv s'"
  using loop_safe [of s d "is"] ls_ok_params [of _ s] unfolding ls_inv_def by metis

lemma block_event_params: "decode_params s = decode_params t \<Longrightarrow> block_event points d s = block_event points d t"
  using params_only [of s t] by (simp add: block_event_def fun_eq_iff)

lemma loop_frames:
  assumes "ls_ok s" "ls_count s = 0" "length (gl_Get s) + 2 * length is \<le> 3000000"
    "frames_of (gl_Get s) (concat (map (block_event points d s) is)) = (fs, cur)"
    "block_loop (echo_block points d) is s = Some s'"
  shows "gl_Get s' = cur
     \<and> map fst (gl_calls s') = map fst (gl_calls s)
         @ (if gl_callback s then stacked (1 < ls_StackFrame s) (ls_PointCloudLastData s) fs else [])
     \<and> gl_Per s' = (if fs = [] then gl_Per s else Some (last (stacked (1 < ls_StackFrame s) (ls_PointCloudLastData s) fs)))
     \<and> ls_PointCloudLastData s' = (if 1 < ls_StackFrame s then last (ls_PointCloudLastData s # fs) else ls_PointCloudLastData s)"
  using assms
proof (induction "is" arbitrary: s fs)
  case (Cons i "is")
  let ?ev = "\<lambda>s. concat (map (block_event points d s) is)"
  obtain ps where ps: "points d i s = Some ps" "length ps \<le> 2" using total Cons.prems(1) by blast
  obtain s1 where s1: "echo_block points d i s = Some s1" "decode_params s1 = decode_params s" "ls_count s1 = 0"
      "ls_StackFrame s1 = ls_StackFrame s"
    using block_safe [OF Cons.prems(1,2)] Cons.prems(3) by fastforce
  have ev: "?ev s1 = ?ev s" using block_event_params [OF s1(2)] by simp
  have loop: "block_loop (echo_block points d) is s1 = Some s'" using Cons.prems(5) s1(1) by simp
  note IH = Cons.IH [of s1, OF _ s1(3) _ _ loop]
  have ok: "ls_ok s1" using Cons.prems(1) ls_ok_params [OF s1(2)] by simp
  show ?case
  proof (cases "is_marker d i")
    case True
    then have "s1 = finish_frame (s\<lparr>ls_count := 1\<rparr>)"
      using s1(1) Cons.prems(2) by (simp add: echo_block_def)
    moreover obtain fs' where "frames_of [] (?ev s) = (fs', cur)" "fs = gl_Get s # fs'"
      using Cons.prems(4) True by (cases "frames_of [] (?ev s)") (simp add: block_event_marker)
    ultimately show ?thesis using IH [of fs'] ok ev Cons.prems(3) by (simp split: if_splits)
  next
    case False
    have "frames_of (gl_Get s1) (?ev s) = (fs, cur)" "gl_calls s1 = gl_calls s" "gl_callback s1 = gl_callback s"
      "gl_Per s1 = gl_Per s" "ls_PointCloudLastData s1 = ls_PointCloudLastData s" "length (gl_Get s1) \<le> length (gl_Get s) + 2"
      using s1(1) False Cons.prems(2,3,4) ps
      by (auto simp: echo_block_def Let_def block_event_other frames_of_points split: if_splits)
    then show ?thesis using IH [of fs] ok ev s1(4) Cons.prems(3) by simp
  qed
qed simp

end


lemma decode_total:
  assumes "ls_ok s"
  shows "\<exists>H' V' p. XYZ_calculate s (channel_ID d i) (real_of_int (raw_angle_H d i) * ls_fH_AngleAcc s)
      (real_of_int (raw_angle_V d i) * ls_fV_AngleAcc s) D D2 = Some (H', V', p)"
proof -
  have acc: "ls_fH_AngleAcc s = 1 / 100" "ls_fV_AngleAcc s = 25 / 10000 \<or> ls_fV_AngleAcc s = 1 / 100"
    using assms unfolding ls_ok_def by blast+
  have h: "\<bar>real_of_int (raw_angle_H d i)\<bar> \<le> 32768" using angle_H_range [of d i] by linarith
  have v: "\<bar>real_of_int (raw_angle_V d i)\<bar> \<le> 8192" using angle_V_range [of d i] by linarith
  have "\<bar>real_of_int (raw_angle_H d i) * ls_fH_AngleAcc s\<bar> < 360"
    using h by (simp add: acc(1) abs_mult)
  moreover have "\<bar>real_of_int (raw_angle_V d i) * ls_fV_AngleAcc s\<bar> < 300"
  proof -
    have "0 \<le> ls_fV_AngleAcc s" "ls_fV_AngleAcc s \<le> 1 / 100" using acc(2) by auto
    then show ?thesis using mult_mono [OF v, of "ls_fV_AngleAcc s" "1 / 100"] by (simp add: abs_mult)
  qed
  ultimately show ?thesis using XYZ_distance [OF assms channel_less] by blast
qed

lemma single_points_one: "ls_ok s \<Longrightarrow> \<exists>p. single_points d i s = Some [p]"
  using decode_total [of s d i "real_of_int (raw_distance d (i + 4)) * ls_fDistanceAcc s" "- 1"]
  by (auto simp: single_points_def Let_def)

interpretation single: echo_decoder single_points
proof
  show "decode_params s = decode_params t \<Longrightarrow> single_points d i s = single_points d i t" for s t d i
    by (simp add: single_points_def XYZ_calculate_def point_time_def decode_params_def Let_def)
  show "ls_ok s \<Longrightarrow> \<exists>ps. single_points d i s = Some ps \<and> length ps \<le> 2" for s d i
    using single_points_one [of s d i] by auto
qed

interpretation double: echo_decoder double_points
proof
  show "decode_params s = decode_params t \<Longrightarrow> double_points d i s = double_points d i t" for s t d i
    by (simp add: double_points_def XYZ_calculate_def point_time_def decode_params_def Let_def)
  show "ls_ok s \<Longrightarrow> \<exists>ps. double_points d i s = Some ps \<and> length ps \<le> 2" for s d i
    using decode_total [of s d i "real_of_int (raw_distance d (i + 4)) * ls_fDistanceAcc s"
        "real_of_int (raw_distance d (i + 8)) * ls_fDistanceAcc s"]
    by (auto simp: double_points_def Let_def)
qed

section \<open>Safety of the packet loop\<close>

lemma ls_ok_update [simp]:
  "ls_ok (s\<lparr>gl_PointIntervalT_ns := r\<rparr>) = ls_ok s" "ls_ok (s\<lparr>gl_allTimestamp := u\<rparr>) = ls_ok s"
  "ls_ok (s\<lparr>gl_lastAllTimestamp := u\<rparr>) = ls_ok s" "ls_ok (s\<lparr>gl_allDataValue := q\<rparr>) = ls_ok s"
  by (simp_all add: ls_ok_def)

lemma ls_inv_new: "ls_inv (ls_new s)"
  by (simp add: ls_inv_def ls_ok_def ls_new_def)

lemma ls_inv_update [simp]:
  "ls_inv (s\<lparr>gl_PointIntervalT_ns := r\<rparr>) = ls_inv s" "ls_inv (s\<lparr>gl_allTimestamp := u\<rparr>) = ls_inv s"
  "ls_inv (s\<lparr>gl_lastAllTimestamp := u\<rparr>) = ls_inv s" "ls_inv (s\<lparr>gl_allDataValue := q\<rparr>) = ls_inv s"
  by (simp_all add: ls_inv_def)

lemma ls_inv_device: "ls_inv s \<Longrightarrow> ls_inv (device_packet d s)" "ls_inv s \<Longrightarrow> ls_inv (set_192 s)"
  by (auto simp: ls_inv_def ls_ok_def device_packet_def set_192_def Let_def)

lemma echo_safe:
  assumes "ls_inv s"
  shows "\<exists>s'. handleSingleEcho d s = Some s' \<and> ls_inv s'" "\<exists>s'. handleDoubleEcho d s = Some s' \<and> ls_inv s'"
  unfolding handleSingleEcho_def handleDoubleEcho_def
  by (rule single.loop_inv, simp add: assms) (rule double.loop_inv, simp add: assms)

text \<open>The handlers leave the packet queue alone.\<close>

lemma messFunction_queue [simp]: "gl_allDataValue (messFunction m c s) = gl_allDataValue s"
  by (simp add: messFunction_def Let_def)

lemma echo_block_queue: "echo_block points d i s = Some s' \<Longrightarrow> gl_allDataValue s' = gl_allDataValue s"
  by (auto simp: echo_block_def frame_overrun_def finish_frame_def sendLidarData_def Let_def split: if_splits option.splits)

lemma block_loop_queue:
  "block_loop (echo_block points d) is s = Some s' \<Longrightarrow> gl_allDataValue s' = gl_allDataValue s"
  by (induction "is" arbitrary: s) (auto dest: echo_block_queue split: option.splits)

lemma device_queue [simp]: "gl_allDataValue (device_packet d s) = gl_allDataValue s" "gl_allDataValue (set_192 s) = gl_allDataValue s"
  by (simp_all add: device_packet_def set_192_def Let_def)

lemma LidarRun_safe:
  assumes "ls_inv s"
  shows "\<exists>s'. LidarRun s = Some (\<not> gl_isQuit s, s') \<and> ls_inv s'
     \<and> gl_allDataValue s' = (if gl_isQuit s then [] else tl (gl_allDataValue s))"
proof (cases "gl_isQuit s \<or> gl_allDataValue s = []")
  case True
  then show ?thesis using assms by (auto simp: LidarRun_def clearQueue_def)
next
  case False
  then obtain front rest where q: "gl_allDataValue s = front # rest" by (cases "gl_allDataValue s") auto
  define d s1 where "d = take 1206 front" and "s1 = s\<lparr>gl_allDataValue := rest\<rparr>"
  define s2 where "s2 = s1\<lparr>gl_allTimestamp := packet_time d\<rparr>"
  define s3 where "s3 = (if d ! 1204 = 192 \<and> ls_HorizontalPoints s2 \<noteq> 0 then set_192 s2 else s2)"
  define r where "r = (if d ! 1205 = 2 then handleDoubleEcho d s3 else handleSingleEcho d s3)"
  have inv: "ls_inv s1" "ls_inv s3" using assms by (simp_all add: s1_def s2_def s3_def ls_inv_device)
  obtain s4 where s4: "r = Some s4" "ls_inv s4" using echo_safe [OF inv(2), of d] by (cases "d ! 1205 = 2") (auto simp: r_def)
  have "gl_allDataValue s4 = rest"
    using s4(1) by (auto simp: r_def handleSingleEcho_def handleDoubleEcho_def s3_def s2_def s1_def
        split: if_splits dest!: block_loop_queue)
  moreover have "LidarRun s = (if is_dev_packet d then Some (True, device_packet d s1)
      else Some (True, s4\<lparr>gl_lastAllTimestamp := gl_allTimestamp s4\<rparr>))"
    unfolding LidarRun_def q list.case Let_def d_def [symmetric] s1_def [symmetric] s2_def [symmetric]
      s3_def [symmetric] r_def [symmetric] s4(1) option.case using False by simp
  ultimately show ?thesis using False q inv(1) s4(2) by (simp add: ls_inv_device) (simp add: s1_def)
qed


section \<open>Time stamps\<close>

lemma point_time_between:
  assumes "gl_PointIntervalT_ns s = real (unat (gl_allTimestamp s - gl_lastAllTimestamp s)) / real n" "k < n"
    "gl_lastAllTimestamp s \<le> gl_allTimestamp s"
  shows "\<exists>t. point_time s (n - 1 - k) = Some t
    \<and> unat t = unat (gl_lastAllTimestamp s) + (unat (gl_allTimestamp s) - unat (gl_lastAllTimestamp s)) * (k + 1) div n"
proof -
  define a l where "a = unat (gl_allTimestamp s)" and "l = unat (gl_lastAllTimestamp s)"
  have al: "l \<le> a" using assms(3) by (simp add: a_def l_def word_le_nat_alt)
  have a: "a < 2 ^ 64" using unsigned_less [of "gl_allTimestamp s", where 'a = nat] by (simp add: a_def)
  have diff: "unat (gl_allTimestamp s - gl_lastAllTimestamp s) = a - l"
    using assms(3) by (simp add: a_def l_def unat_sub)
  define r where "r = real a - real (a - l) / real n * real (n - 1 - k)"
  have n: "0 < n" using assms(2) by simp
  have "real (n - 1 - k) = real n - real (k + 1)" using assms(2) by linarith
  then have r: "r = real l + real ((a - l) * (k + 1)) / real n"
    using n al by (simp add: r_def field_simps of_nat_diff)
  define q where "q = l + (a - l) * (k + 1) div n"
  have fl: "\<lfloor>r\<rfloor> = int q"
    using int_add_floor [of "int l" "real ((a - l) * (k + 1)) / real n"]
    unfolding r q_def floor_divide_of_nat_eq by (simp only: of_int_of_nat_eq of_nat_add)
  have "(a - l) * (k + 1) \<le> (a - l) * n" using assms(2) by (intro mult_le_mono2) simp
  then have "real ((a - l) * (k + 1)) / real n \<le> real (a - l)"
    using n by (simp add: divide_le_eq del: of_nat_mult add: of_nat_mult [symmetric])
  then have "r \<le> real a" unfolding r using al by simp
  then have m: "q \<le> a" using fl floor_mono [of r "real a"] by simp
  have "0 \<le> r" unfolding r by simp
  moreover have "r < 2 ^ 64" using \<open>r \<le> real a\<close> a
    by (metis of_nat_less_iff of_nat_numeral of_nat_power order_le_less_trans)
  ultimately have "point_time s (n - 1 - k) = Some (word_of_int (int q))"
    unfolding point_time_def assms(1) diff a_def [symmetric] r_def [symmetric] to_u64_def trunc_def using fl by simp
  moreover have "unat (word_of_int (int q) :: u64) = q"
    using m a by (simp add: unsigned_of_nat take_bit_nat_eq_self)
  ultimately show ?thesis by (auto simp: a_def l_def q_def)
qed


lemma point_time_disorder:
  assumes "gl_PointIntervalT_ns s = real (unat (gl_allTimestamp s - gl_lastAllTimestamp s)) / real n" "0 < back" "0 < n"
    "n < 150" "gl_allTimestamp s < gl_lastAllTimestamp s" "unat (gl_lastAllTimestamp s) < 2 ^ 63" "point_time s back = Some t"
  shows "unat t + 6 * 10 ^ 16 \<le> unat (gl_allTimestamp s)"
proof -
  define a l where "a = unat (gl_allTimestamp s)" and "l = unat (gl_lastAllTimestamp s)"
  have al: "a < l" "l < 2 ^ 63" using assms(5,6) by (simp_all add: a_def l_def word_less_nat_alt)
  have diff: "unat (gl_allTimestamp s - gl_lastAllTimestamp s) = 2 ^ 64 + a - l"
    using al unat_sub_if_size [of "gl_allTimestamp s" "gl_lastAllTimestamp s"]
    by (simp add: a_def l_def word_size)
  define w where "w = 2 ^ 64 + a - l"
  define r where "r = real a - real w / real n * real back"
  have "2 ^ 63 \<le> w" using al by (simp add: w_def)
  then have "2 ^ 63 \<le> real w" by (metis of_nat_le_iff of_nat_numeral of_nat_power)
  then have "2 ^ 63 / 149 \<le> real w / real n"
    using assms(3,4) by (intro frac_le) simp_all
  then have "2 ^ 63 / 149 * 1 \<le> real w / real n * real back"
    using assms(2) by (intro mult_mono) simp_all
  then have r: "r \<le> real a - 2 ^ 63 / 149" by (simp add: r_def)
  have t: "- 1 < r" "t = word_of_int (trunc r)"
    using assms(7) by (auto simp: point_time_def to_u64_def assms(1) diff r_def w_def a_def split: if_splits)
  have "real a < 2 ^ 63" using al by (metis of_nat_less_iff of_nat_numeral of_nat_power order_less_trans)
  then have "r < 2 ^ 63" using r by simp
  then have z: "0 \<le> trunc r" "trunc r < 2 ^ 64" using t(1) by (auto simp: trunc_def floor_less_iff)
  then have "real (unat t) = of_int (trunc r)" by (simp add: t(2) unat_eq_nat_uint uint_word_of_int_eq take_bit_int_eq_self)
  moreover have "of_int (trunc r) \<le> max 0 r" by (simp add: trunc_def)
  ultimately have "real (unat t) \<le> max 0 r" by simp
  then have "real (unat t) + 6 * 10 ^ 16 \<le> real a" using r t(1) by (simp add: max_def split: if_splits)
  then have "real (unat t + 6 * 10 ^ 16) \<le> real a" by simp
  then show ?thesis unfolding a_def of_nat_le_iff .
qed

section \<open>Properties of the decoder\<close>

text \<open>
  C23: the decoder survives every packet. From the constructor on, whatever bytes arrive, a pass of
  \<open>LidarRun\<close> returns, takes one packet from the queue (all of them when it quits), keeps the
  parameters among the values the table lookups are safe for, and holds at most 3000002 points
  of an unfinished frame.
\<close>

theorem LidarRun_inv:
  "ls_inv (ls_new s0)
   \<and> (ls_inv s \<longrightarrow> (\<exists>s'. LidarRun s = Some (\<not> gl_isQuit s, s') \<and> ls_inv s'
        \<and> gl_allDataValue s' = (if gl_isQuit s then [] else tl (gl_allDataValue s))))"
  using ls_inv_new LidarRun_safe by blast

lemma sample_ls_inv: "ls_inv sample_ls"
  by (simp add: sample_ls_props ls_inv_def)

theorem LidarRun_inv_witness:
  "\<exists>s'. LidarRun (sample_ls\<lparr>gl_allDataValue := [replicate 1212 0xff]\<rparr>) = Some (True, s') \<and> ls_inv s' \<and> gl_allDataValue s' = []"
  using LidarRun_inv [of sample_ls "sample_ls\<lparr>gl_allDataValue := [replicate 1212 0xff]\<rparr>"] sample_ls_inv sample_ls_props by simp

text \<open>
  Frames are what lies between markers. For a decoder between packets with room for the
  points, the blocks of a packet extend the open frame point by point in order, blocks without a
  distance add nothing, and each marker closes the frame: it becomes the current frame and is
  handed to the callback, together with the frame before it when two frames are stacked. Both
  packet formats do so.
\<close>

theorem echo_frames:
  assumes "ls_inv s" "length (gl_Get s) \<le> 2999000"
    "(handle, points, n, w) \<in> {(handleSingleEcho, single_points, 149, 8), (handleDoubleEcho, double_points, 99, 12)}"
    "s1 = s\<lparr>gl_PointIntervalT_ns := real (unat (gl_allTimestamp s - gl_lastAllTimestamp s)) / real n\<rparr>"
    "frames_of (gl_Get s) (concat (map (\<lambda>k. block_event points d s1 (w * k)) [0..<n])) = (fs, cur)"
    "out = stacked (1 < ls_StackFrame s) (ls_PointCloudLastData s) fs"
  shows "\<exists>s'. handle d s = Some s' \<and> gl_Get s' = cur
     \<and> map fst (gl_calls s') = map fst (gl_calls s) @ (if gl_callback s then out else [])
     \<and> gl_Per s' = (if fs = [] then gl_Per s else Some (last out))"
proof -
  have s1: "ls_ok s1" "ls_count s1 = 0" "length (gl_Get s1) \<le> 3000002" "length (gl_Get s1) + 2 * length (map ((*) w) [0..<n]) \<le> 3000000"
    using assms(1-4) by (auto simp: ls_inv_def)
  have ev: "frames_of (gl_Get s1) (concat (map (block_event points d s1) (map ((*) w) [0..<n]))) = (fs, cur)"
    using assms(4,5) by (simp add: comp_def)
  have s: "gl_calls s1 = gl_calls s" "gl_callback s1 = gl_callback s" "gl_Per s1 = gl_Per s"
    "ls_StackFrame s1 = ls_StackFrame s" "ls_PointCloudLastData s1 = ls_PointCloudLastData s"
    by (simp_all add: assms(4))
  from assms(3) consider "handle = handleSingleEcho" "points = single_points" "n = 149" "w = 8"
    | "handle = handleDoubleEcho" "points = double_points" "n = 99" "w = 12" by auto
  then show ?thesis
  proof cases
    case 1
    then have h: "handle d s = block_loop (echo_block points d) (map ((*) w) [0..<n]) s1"
      using assms(4) by (simp add: handleSingleEcho_def)
    obtain s' where "block_loop (echo_block points d) (map ((*) w) [0..<n]) s1 = Some s'"
      using single.loop_safe [OF s1(1-3), of d "map ((*) w) [0..<n]"] 1(2) by auto
    then show ?thesis using single.loop_frames [OF s1(1,2,4), of d fs cur s'] ev 1(2) assms(6) s h by simp
  next
    case 2
    then have h: "handle d s = block_loop (echo_block points d) (map ((*) w) [0..<n]) s1"
      using assms(4) by (simp add: handleDoubleEcho_def)
    obtain s' where "block_loop (echo_block points d) (map ((*) w) [0..<n]) s1 = Some s'"
      using double.loop_safe [OF s1(1-3), of d "map ((*) w) [0..<n]"] 2(2) by auto
    then show ?thesis using double.loop_frames [OF s1(1,2,4), of d fs cur s'] ev 2(2) assms(6) s h by simp
  qed
qed

text \<open>The single-echo packet with one measurement and one marker.\<close>

definition sample_packet :: packet where
  "sample_packet = [0, 100, 0, 20, 0, 0x10, 0, 7] @ [0xff, 0xaa, 0xbb, 0xcc, 0xdd, 0, 0, 0] @ replicate 1190 0"

lemma sample_packet_nth: "16 \<le> i \<Longrightarrow> i < 1206 \<Longrightarrow> sample_packet ! i = 0"
  by (simp add: sample_packet_def nth_append nth_Cons')

lemma sample_packet_rest: "2 \<le> k \<Longrightarrow> k < 149 \<Longrightarrow> block_event points sample_packet s (8 * k) = []"
  by (simp add: block_event_def is_marker_def raw_distance_def sample_packet_nth)

lemma sample_packet_tail: "n \<le> 149 \<Longrightarrow> concat (map (\<lambda>k. block_event points sample_packet s (8 * k)) [2..<n]) = []"
  by (induction n) (auto simp: sample_packet_rest)

lemma sample_packet_events:
  "concat (map (\<lambda>k. block_event points sample_packet s (8 * k)) [0..<149]) = map Some (the (points sample_packet 0 s)) @ [None]"
proof -
  have upt: "[0..<149] = [0, 1] @ [2..<149]" using upt_add_eq_append [of 0 2 147] by (simp add: upt_rec)
  have "block_event points sample_packet s 0 = map Some (the (points sample_packet 0 s))"
    "block_event points sample_packet s 8 = [None]"
    by (simp_all add: block_event_def is_marker_def raw_distance_def sample_packet_def)
  then show ?thesis unfolding upt map_append concat_append sample_packet_tail [OF order_refl] by simp
qed

theorem echo_frames_witness:
  "\<exists>p s'. handleSingleEcho sample_packet sample_ls = Some s' \<and> gl_Get s' = [] \<and> map fst (gl_calls s') = [[p]] \<and> gl_Per s' = Some [p]"
proof -
  let ?s1 = "sample_ls\<lparr>gl_PointIntervalT_ns := real (unat (gl_allTimestamp sample_ls - gl_lastAllTimestamp sample_ls)) / real 149\<rparr>"
  have "ls_ok ?s1" by (simp add: sample_ls_props)
  then obtain p where p: "single_points sample_packet 0 ?s1 = Some [p]"
    using single_points_one by blast
  have fr: "frames_of (gl_Get sample_ls) (concat (map (\<lambda>k. block_event single_points sample_packet ?s1 (8 * k)) [0..<149])) = ([[p]], [])"
    unfolding sample_packet_events p by (simp add: sample_ls_props)
  have "length (gl_Get sample_ls) \<le> 2999000" by (simp add: sample_ls_props)
  from echo_frames [OF sample_ls_inv this _ refl fr refl]
  show ?thesis by (intro exI [of _ p]) (simp add: sample_ls_props)
qed

lemma uint_cat: "uint (word_cat (a :: u8) (b :: u8) :: 16 word) = uint a * 256 + uint b"
proof -
  have "uint (word_cat a b :: 16 word) = take_bit 16 (concat_bit 8 (uint b) (uint a))"
    by (simp add: word_cat_eq' uint_word_of_int_eq)
  also have "concat_bit 8 (uint b) (uint a) = uint a * 256 + uint b"
    using uint_byte [of b] by (simp add: concat_bit_eq take_bit_int_eq_self push_bit_eq_mult)
  finally show ?thesis using uint_byte [of a] uint_byte [of b] by (simp add: take_bit_int_eq_self)
qed

lemma signed_cases:
  assumes "0 \<le> u" "u < 2 ^ Suc n"
  shows "signed_take_bit n u = (if 2 ^ n \<le> u then u - 2 ^ Suc n else (u :: int))"
proof -
  have "(u + 2 ^ n) mod 2 ^ Suc n = (if 2 ^ n \<le> u then u + 2 ^ n - 2 ^ Suc n else u + 2 ^ n)"
    using assms mod_pos_pos_trivial [of "u + 2 ^ n - 2 ^ Suc n" "2 ^ Suc n"] mod_pos_pos_trivial [of "u + 2 ^ n" "2 ^ Suc n"]
    by (auto simp: minus_mod_self2 simp del: power_Suc) simp_all
  then show ?thesis by (simp add: signed_take_bit_eq_take_bit_shift take_bit_eq_mod)
qed

text \<open>
  C26: the fields of a block. The horizontal angle is the signed 16-bit number in its first two bytes,
  the vertical angle the signed 14-bit number in the low bits of the next two, the channel their two
  high bits: the decoder's case distinctions on sign bits compute exactly this.
\<close>

theorem block_fields:
  "raw_angle_H d i = sint (word_cat (d ! i) (d ! (i + 1)) :: 16 word)
   \<and> raw_angle_V d i = sint (ucast (word_cat (d ! (i + 2)) (d ! (i + 3)) :: 16 word) :: 14 word)
   \<and> int (channel_ID d i) = uint (word_cat (d ! (i + 2)) (d ! (i + 3)) :: 16 word) div 2 ^ 14"
proof (intro conjI)
  obtain a b where ab: "uint (d ! i) = a" "uint (d ! (i + 1)) = b" by blast
  have "0 \<le> a" "a \<le> 255" "0 \<le> b" "b \<le> 255" using uint_byte ab by auto
  then show "raw_angle_H d i = sint (word_cat (d ! i) (d ! (i + 1)) :: 16 word)"
    unfolding raw_angle_H_def sint_uint uint_cat ab Let_def using signed_cases [of "a * 256 + b" 15] by auto
next
  obtain a b where ab: "uint (d ! (i + 2)) = a" "uint (d ! (i + 3)) = b" by blast
  have r: "0 \<le> a" "a \<le> 255" "0 \<le> b" "b \<le> 255" using uint_byte ab by auto
  have m: "(a * 256 + b) mod 16384 = a mod 64 * 256 + b"
    using zmod_zmult2_eq [of 64 "a * 256 + b" 256] r by simp
  have "0 \<le> a mod 64" "a mod 64 < 64" by simp_all
  moreover have "uint (ucast (word_cat (d ! (i + 2)) (d ! (i + 3)) :: 16 word) :: 14 word) = a mod 64 * 256 + b"
    unfolding unsigned_ucast_eq uint_cat ab by (simp add: take_bit_eq_mod m)
  ultimately show "raw_angle_V d i = sint (ucast (word_cat (d ! (i + 2)) (d ! (i + 3)) :: 16 word) :: 14 word)"
    unfolding angle_V_eq sint_uint ab Let_def using signed_cases [of "a mod 64 * 256 + b" 13] r by auto
  show "int (channel_ID d i) = uint (word_cat (d ! (i + 2)) (d ! (i + 3)) :: 16 word) div 2 ^ 14"
    using zdiv_zmult2_eq [of 64 "a * 256 + b" 256] r ab
    by (simp add: channel_eq uint_cat zdiv_int flip: uint_nat)
qed



end
