(* ===== verification/Lidar_Stream.thy ===== *)
theory Lidar_Stream
  imports Lidar_LS "HOL-Library.Sublist"
begin

text \<open>
  The threads of a running lidar object, \<open>GetLidarData.cpp\<close> and \<open>GetLidarData_LS.cpp\<close>: the two receiving
  threads, the decoder thread and the application, which polls \<open>isFrameOK\<close> and calls
  \<open>getLidarPerFrameDate\<close>. Their steps end where another thread can see the difference: the decoder
  takes a packet, handles one block, states the result of a frame, publishes the frame; the
  application takes the frame under the lock and reads the flag after it. \<open>LidarStop\<close> is never called
  by the program, so the threads run on.

  The reference is the sequence of packets in the order of arrival: what the blocks say, cut at the
  markers.
\<close>

section \<open>The two halves of \<open>sendLidarData\<close>\<close>

definition send_status :: "lidar_ls \<Rightarrow> lidar_ls" where
  "send_status s =
     (let s1 = (if gl_DistanceIsNotZero s < 20
                then messFunction ''Data error!!! All lidar distanceValue are 0!'' 10032 s
                else s\<lparr>gl_isSuccessfulFlag := Some True, gl_mDataInfoString := ''Obtaining data successfully!''\<rparr>);
          s2 = s1\<lparr>gl_DistanceIsNotZero := 0\<rparr>
      in if gl_callback s2
         then s2\<lparr>gl_calls := gl_calls s2 @ [(gl_Get s2, gl_isSuccessfulFlag s2, gl_mDataInfoString s2)]\<rparr>
         else s2)"

definition send_publish :: "lidar_ls \<Rightarrow> lidar_ls" where
  "send_publish s = s\<lparr>gl_Per := Some (gl_Get s), gl_Get := [], gl_isFrameOK := True\<rparr>"

lemma sendLidarData_halves: "sendLidarData s = send_publish (send_status s)"
  by (simp add: sendLidarData_def send_publish_def send_status_def Let_def)

definition stack_frame :: "lidar_ls \<Rightarrow> lidar_ls" where
  "stack_frame s =
     (if 1 < ls_StackFrame s
      then s\<lparr>gl_Get := ls_PointCloudLastData s @ gl_Get s, ls_PointCloudLastData := gl_Get s\<rparr> else s)"

definition publish_frame :: "lidar_ls \<Rightarrow> lidar_ls" where
  "publish_frame s = (send_publish s)\<lparr>ls_count := 0, gl_messageCount := 0\<rparr>"

lemma finish_frame_halves: "finish_frame s = publish_frame (send_status (stack_frame s))"
  by (simp add: finish_frame_def publish_frame_def stack_frame_def sendLidarData_halves Let_def)

section \<open>Steps\<close>

text \<open>Where the decoder thread is, and where the application is in \<open>getLidarPerFrameDate\<close>.\<close>

datatype dec_pc = D_Idle | D_Blocks packet "nat list" | D_Publish packet "nat list"

datatype app_pc = A_Idle | A_Took "frame option" string

text \<open>
  \<open>st_published\<close> and \<open>st_polled\<close> record the frames the decoder has published and the answers
  \<open>getLidarPerFrameDate\<close> has given.
\<close>

record stream =
  st_lidar :: lidar_ls
  st_dec :: dec_pc
  st_app :: app_pc
  st_published :: "frame list"
  st_polled :: "(bool option \<times> frame option \<times> string) list"

definition is_double :: "packet \<Rightarrow> bool" where "is_double d \<longleftrightarrow> d ! 1205 = 2"

definition packet_points :: "packet \<Rightarrow> packet \<Rightarrow> nat \<Rightarrow> lidar_ls \<Rightarrow> frame option" where
  "packet_points d = (if is_double d then double_points else single_points)"

definition packet_blocks :: "packet \<Rightarrow> nat list" where
  "packet_blocks d = (if is_double d then map (\<lambda>k. 12 * k) [0..<99] else map (\<lambda>k. 8 * k) [0..<149])"

text \<open>What \<open>LidarRun\<close> and the handler set before the first block of a data packet, and after the last.\<close>

definition begin_packet :: "packet \<Rightarrow> lidar_ls \<Rightarrow> lidar_ls" where
  "begin_packet d s =
     (let s2 = s\<lparr>gl_allTimestamp := packet_time d\<rparr>;
          s3 = (if d ! 1204 = 192 \<and> ls_HorizontalPoints s2 \<noteq> 0 then set_192 s2 else s2)
      in s3\<lparr>gl_PointIntervalT_ns :=
              real (unat (gl_allTimestamp s3 - gl_lastAllTimestamp s3)) / (if is_double d then 99 else 149)\<rparr>)"

definition end_packet :: "lidar_ls \<Rightarrow> lidar_ls" where
  "end_packet s = s\<lparr>gl_lastAllTimestamp := gl_allTimestamp s\<rparr>"

text \<open>One step of the decoder thread. \<open>None\<close>: a table is read out of range.\<close>

definition decode_step :: "stream \<Rightarrow> stream option" where
  "decode_step s =
     (let l = st_lidar s
      in case st_dec s of
        D_Idle \<Rightarrow>
          (case gl_allDataValue l of
             [] \<Rightarrow> Some s
           | front # rest \<Rightarrow>
               (let d = take 1206 front; l1 = l\<lparr>gl_allDataValue := rest\<rparr>
                in Some (if is_dev_packet d then s\<lparr>st_lidar := device_packet d l1\<rparr>
                         else s\<lparr>st_lidar := begin_packet d l1, st_dec := D_Blocks d (packet_blocks d)\<rparr>)))
      | D_Blocks d [] \<Rightarrow> Some (s\<lparr>st_lidar := end_packet l, st_dec := D_Idle\<rparr>)
      | D_Blocks d (i # is) \<Rightarrow>
          (let l0 = (if is_marker d i then l\<lparr>ls_count := ls_count l + 1\<rparr> else l)
           in if ls_count l0 = 1
              then Some (s\<lparr>st_lidar := send_status (stack_frame l0), st_dec := D_Publish d is\<rparr>)
              else map_option (\<lambda>l'. s\<lparr>st_lidar := l', st_dec := D_Blocks d is\<rparr>) (echo_block (packet_points d) d i l))
      | D_Publish d is \<Rightarrow>
          Some (s\<lparr>st_lidar := publish_frame l, st_dec := D_Blocks d is, st_published := st_published s @ [gl_Get l]\<rparr>))"

text \<open>The application: it looks at \<open>isFrameOK\<close>, takes the frame under the lock, then reads the flag.\<close>

definition poll_step :: "stream \<Rightarrow> stream" where
  "poll_step s =
     (case st_app s of
        A_Idle \<Rightarrow>
          (if gl_isFrameOK (st_lidar s)
           then case getLidarPerFrameDate (st_lidar s) of
                  ((flag, temp, info), l) \<Rightarrow> s\<lparr>st_lidar := l, st_app := A_Took temp info\<rparr>
           else s)
      | A_Took temp info \<Rightarrow>
          s\<lparr>st_app := A_Idle, st_polled := st_polled s @ [(gl_isSuccessfulFlag (st_lidar s), temp, info)]\<rparr>)"

datatype stream_op = Data_recv received | Dev_recv received | Decode | Poll

fun stream_step :: "stream_op \<Rightarrow> stream \<Rightarrow> stream option" where
  "stream_step (Data_recv r) s = map_option (\<lambda>(_, l). s\<lparr>st_lidar := l\<rparr>) (getDataSock r (st_lidar s))"
| "stream_step (Dev_recv r) s = map_option (\<lambda>(_, l). s\<lparr>st_lidar := l\<rparr>) (getDevSock r (st_lidar s))"
| "stream_step Decode s = decode_step s"
| "stream_step Poll s = Some (poll_step s)"

fun stream_run :: "stream_op list \<Rightarrow> stream \<Rightarrow> stream option" where
  "stream_run [] s = Some s"
| "stream_run (op # ops) s = (case stream_step op s of None \<Rightarrow> None | Some s' \<Rightarrow> stream_run ops s')"

lemma stream_run_append:
  "stream_run (ops @ ops') s = (case stream_run ops s of None \<Rightarrow> None | Some s' \<Rightarrow> stream_run ops' s')"
  by (induction ops arbitrary: s) (simp_all split: option.split)

text \<open>The threads as \<open>LidarStart\<close> finds them.\<close>

definition stream_start :: "lidar_ls \<Rightarrow> stream" where
  "stream_start l = \<lparr>st_lidar = LidarStart l, st_dec = D_Idle, st_app = A_Idle, st_published = [], st_polled = []\<rparr>"

section \<open>The reference\<close>

text \<open>What a block says: the end of a frame, with or without stacking, or the points it adds.\<close>

datatype mark_or_points = Mark bool | Points frame

definition block_ev :: "packet \<Rightarrow> lidar_ls \<Rightarrow> nat \<Rightarrow> mark_or_points" where
  "block_ev d s i =
     (if is_marker d i then Mark (1 < ls_StackFrame s)
      else Points (if raw_distance d (i + 4) \<le> 0 then [] else the (packet_points d d i s)))"

text \<open>The packets one after the other; a packet depends on its predecessors only through the settings.\<close>

definition after_packet :: "packet \<Rightarrow> lidar_ls \<Rightarrow> lidar_ls" where
  "after_packet d s = (if is_dev_packet d then device_packet d s else end_packet (begin_packet d s))"

definition packet_events :: "packet \<Rightarrow> lidar_ls \<Rightarrow> mark_or_points list" where
  "packet_events d s = (if is_dev_packet d then [] else map (block_ev d (begin_packet d s)) (packet_blocks d))"

fun stream_events :: "packet list \<Rightarrow> lidar_ls \<Rightarrow> mark_or_points list" where
  "stream_events [] s = []"
| "stream_events (d # ds) s = packet_events d s @ stream_events ds (after_packet d s)"

text \<open>The frames between the marks; a frame of more than 3000000 points takes no more.\<close>

fun cut :: "frame \<Rightarrow> frame \<Rightarrow> mark_or_points list \<Rightarrow> frame list" where
  "cut prev cur [] = []"
| "cut prev cur (Mark two # es) = ((if two then prev else []) @ cur) # cut (if two then cur else prev) [] es"
| "cut prev cur (Points ps # es) = cut prev (if 3000000 < length cur then cur else cur @ ps) es"

fun arrived :: "stream_op \<Rightarrow> packet list" where
  "arrived (Data_recv (Recv p)) = (if 1206 \<le> length p then [take 1206 p] else [])"
| "arrived (Dev_recv (Recv p)) = (if 1206 \<le> length p then [take 1206 p] else [])"
| "arrived _ = []"

definition arrivals :: "stream_op list \<Rightarrow> packet list" where
  "arrivals ops = concat (map arrived ops)"

definition ref_frames :: "packet list \<Rightarrow> lidar_ls \<Rightarrow> frame list" where
  "ref_frames ds l = cut [] [] (stream_events ds l)"

text \<open>\<open>recvfrom\<close> fills a buffer of 1212 bytes.\<close>

fun fits :: "stream_op \<Rightarrow> bool" where
  "fits (Data_recv (Recv p)) \<longleftrightarrow> length p \<le> 1212"
| "fits (Dev_recv (Recv p)) \<longleftrightarrow> length p \<le> 1212"
| "fits _ \<longleftrightarrow> True"

section \<open>What a packet depends on\<close>

type_synonym settings = "(real list \<times> real \<times> real \<times> real \<times> real \<times> u64 \<times> real) \<times> int \<times> int \<times> u64"

definition settings :: "lidar_ls \<Rightarrow> settings" where
  "settings s = (decode_params s, ls_HorizontalPoints s, ls_StackFrame s, gl_lastAllTimestamp s)"

lemma packet_points_params: "decode_params s = decode_params t \<Longrightarrow> packet_points d e i s = packet_points d e i t"
  unfolding packet_points_def using single.params_only [of s t] double.params_only [of s t] by simp

lemma settings_params: "settings s = settings t \<Longrightarrow> decode_params s = decode_params t"
  by (simp add: settings_def)

lemma block_ev_settings: "settings s = settings t \<Longrightarrow> block_ev d s = block_ev d t"
  using packet_points_params [of s t d] by (auto simp: block_ev_def fun_eq_iff settings_def)

lemma settings_fields:
  "settings s = settings t \<longleftrightarrow>
     ls_fPutTheMirrorOffAngle s = ls_fPutTheMirrorOffAngle t \<and> ls_DeadZoneOffset s = ls_DeadZoneOffset t
     \<and> ls_fH_AngleAcc s = ls_fH_AngleAcc t \<and> ls_fV_AngleAcc s = ls_fV_AngleAcc t \<and> ls_fDistanceAcc s = ls_fDistanceAcc t
     \<and> gl_allTimestamp s = gl_allTimestamp t \<and> gl_PointIntervalT_ns s = gl_PointIntervalT_ns t
     \<and> ls_HorizontalPoints s = ls_HorizontalPoints t \<and> ls_StackFrame s = ls_StackFrame t
     \<and> gl_lastAllTimestamp s = gl_lastAllTimestamp t"
  by (simp add: settings_def decode_params_def)

lemma set_192_settings: "settings s = settings t \<Longrightarrow> settings (set_192 s) = settings (set_192 t)"
  unfolding settings_fields by (simp add: set_192_def)

lemma interval_settings: "settings s = settings t \<Longrightarrow>
    settings (s\<lparr>gl_PointIntervalT_ns := real (unat (gl_allTimestamp s - gl_lastAllTimestamp s)) / n\<rparr>)
    = settings (t\<lparr>gl_PointIntervalT_ns := real (unat (gl_allTimestamp t - gl_lastAllTimestamp t)) / n\<rparr>)"
  unfolding settings_fields by simp

lemma begin_packet_settings:
  assumes "settings s = settings t"
  shows "settings (begin_packet d s) = settings (begin_packet d t)"
proof -
  let ?u = "\<lambda>s :: lidar_ls. s\<lparr>gl_allTimestamp := packet_time d\<rparr>"
  have u: "settings (?u s) = settings (?u t)" using assms unfolding settings_fields by simp
  have "settings (if d ! 1204 = 192 \<and> ls_HorizontalPoints (?u s) \<noteq> 0 then set_192 (?u s) else ?u s)
      = settings (if d ! 1204 = 192 \<and> ls_HorizontalPoints (?u t) \<noteq> 0 then set_192 (?u t) else ?u t)"
    using u set_192_settings [OF u] by (simp add: settings_fields [of s t] assms [unfolded settings_fields])
  then show ?thesis unfolding begin_packet_def Let_def by (rule interval_settings)
qed

lemma end_packet_settings: "settings s = settings t \<Longrightarrow> settings (end_packet s) = settings (end_packet t)"
  unfolding settings_fields by (simp add: end_packet_def)

lemma device_settings:
  assumes "settings s = settings t"
  shows "settings (device_packet d s) = settings (device_packet d t)"
  using assms unfolding settings_fields device_packet_def set_192_def Let_def
  by (cases "d ! 231 = 64 \<or> d ! 231 = 65"; cases "d ! 231 = 192") simp_all

lemma after_packet_settings:
  assumes "settings s = settings t"
  shows "settings (after_packet d s) = settings (after_packet d t)"
  using device_settings [OF assms] end_packet_settings [OF begin_packet_settings [OF assms]] by (simp add: after_packet_def)

lemma packet_events_settings:
  assumes "settings s = settings t"
  shows "packet_events d s = packet_events d t"
  unfolding packet_events_def block_ev_settings [OF begin_packet_settings [OF assms]] ..

lemma stream_events_settings: "settings s = settings t \<Longrightarrow> stream_events ds s = stream_events ds t"
proof (induction ds arbitrary: s t)
  case (Cons d ds)
  show ?case using packet_events_settings [OF Cons.prems] Cons.IH [OF after_packet_settings [OF Cons.prems]] by simp
qed simp

section \<open>Steps of the decoder\<close>

text \<open>The members a step of the decoder keeps apart from the open frame.\<close>

definition calm_view :: "lidar_ls \<Rightarrow> settings \<times> frame \<times> packet list \<times> bool \<times> frame option \<times> bool" where
  "calm_view s = (settings s, ls_PointCloudLastData s, gl_allDataValue s, gl_isQuit s, gl_Per s, gl_isFrameOK s)"

lemma calm_view_fields:
  "calm_view s = calm_view t \<longleftrightarrow> settings s = settings t \<and> ls_PointCloudLastData s = ls_PointCloudLastData t
     \<and> gl_allDataValue s = gl_allDataValue t \<and> gl_isQuit s = gl_isQuit t \<and> gl_Per s = gl_Per t \<and> gl_isFrameOK s = gl_isFrameOK t"
  by (simp add: calm_view_def)

lemma settings_update [simp]:
  "settings (s\<lparr>ls_count := n\<rparr>) = settings s" "settings (s\<lparr>gl_Get := f\<rparr>) = settings s"
  "settings (s\<lparr>gl_DistanceIsNotZero := m\<rparr>) = settings s" "settings (s\<lparr>gl_messageCount := m\<rparr>) = settings s"
  "settings (s\<lparr>gl_allDataValue := q\<rparr>) = settings s" "settings (s\<lparr>gl_Per := p\<rparr>) = settings s"
  "settings (s\<lparr>gl_isFrameOK := b\<rparr>) = settings s" "settings (s\<lparr>ls_PointCloudLastData := f\<rparr>) = settings s"
  "settings (s\<lparr>gl_isSuccessfulFlag := fl\<rparr>) = settings s" "settings (s\<lparr>gl_mDataInfoString := str\<rparr>) = settings s"
  "settings (s\<lparr>gl_calls := cs\<rparr>) = settings s" "settings (s\<lparr>gl_messages := ms\<rparr>) = settings s"
  "settings (s\<lparr>gl_mDevInfoString := str\<rparr>) = settings s" "settings (s\<lparr>gl_dataDev := d\<rparr>) = settings s"
  "settings (s\<lparr>gl_ip_sa := str\<rparr>) = settings s" "settings (s\<lparr>gl_islidarDevCome := b\<rparr>) = settings s"
  "settings (s\<lparr>gl_isQuit := b\<rparr>) = settings s"
  unfolding settings_fields by simp_all

lemma messFunction_calm [simp]:
  "settings (messFunction m c s) = settings s" "gl_isQuit (messFunction m c s) = gl_isQuit s"
  "gl_isFrameOK (messFunction m c s) = gl_isFrameOK s"
  "gl_isSuccessfulFlag s \<noteq> None \<Longrightarrow> gl_isSuccessfulFlag (messFunction m c s) \<noteq> None"
  by (auto simp: messFunction_def Let_def)

lemma messFunction_data: "10030 \<le> c \<Longrightarrow> c \<le> 10039 \<Longrightarrow> gl_isSuccessfulFlag (messFunction m c s) = Some False"
  by (simp add: messFunction_def Let_def)

lemma settings_ok: "settings s = settings t \<Longrightarrow> ls_ok s = ls_ok t"
  by (rule ls_ok_params) (rule settings_params)

context echo_decoder
begin

lemma plain_block:
  assumes "ls_ok s" "ls_count s = 0" "\<not> is_marker d i"
  shows "\<exists>s'. echo_block points d i s = Some s' \<and> calm_view s' = calm_view s \<and> ls_count s' = 0
     \<and> gl_Get s' = (if 3000000 < length (gl_Get s) then gl_Get s
                     else gl_Get s @ (if raw_distance d (i + 4) \<le> 0 then [] else the (points d i s)))
     \<and> (gl_isSuccessfulFlag s \<noteq> None \<longrightarrow> gl_isSuccessfulFlag s' \<noteq> None)"
proof -
  obtain ps where "points d i s = Some ps" using total assms(1) by blast
  then show ?thesis
    using assms(2,3) messFunction_data [of 10031 "''Frame synchronization failure!!!''" s]
    by (auto simp: echo_block_def frame_overrun_def Let_def calm_view_fields)
qed

end

interpretation pp: echo_decoder "packet_points d" for d
  using single.echo_decoder_axioms double.echo_decoder_axioms by (simp add: packet_points_def)

lemma status_fields [simp]:
  "settings (send_status s) = settings s" "ls_PointCloudLastData (send_status s) = ls_PointCloudLastData s"
  "gl_allDataValue (send_status s) = gl_allDataValue s" "gl_isQuit (send_status s) = gl_isQuit s"
  "gl_Per (send_status s) = gl_Per s" "gl_isFrameOK (send_status s) = gl_isFrameOK s"
  "ls_count (send_status s) = ls_count s" "gl_Get (send_status s) = gl_Get s" "gl_isSuccessfulFlag (send_status s) \<noteq> None"
  using messFunction_data [of 10032] by (auto simp: send_status_def Let_def)

lemma stack_fields [simp]:
  "settings (stack_frame s) = settings s" "gl_allDataValue (stack_frame s) = gl_allDataValue s"
  "gl_isQuit (stack_frame s) = gl_isQuit s" "gl_Per (stack_frame s) = gl_Per s" "gl_isFrameOK (stack_frame s) = gl_isFrameOK s"
  "ls_count (stack_frame s) = ls_count s"
  "gl_Get (stack_frame s) = (if 1 < ls_StackFrame s then ls_PointCloudLastData s else []) @ gl_Get s"
  "ls_PointCloudLastData (stack_frame s) = (if 1 < ls_StackFrame s then gl_Get s else ls_PointCloudLastData s)"
  by (simp_all add: stack_frame_def)

lemma publish_fields [simp]:
  "settings (publish_frame s) = settings s" "gl_allDataValue (publish_frame s) = gl_allDataValue s"
  "gl_isQuit (publish_frame s) = gl_isQuit s" "gl_Per (publish_frame s) = Some (gl_Get s)" "gl_isFrameOK (publish_frame s)"
  "ls_count (publish_frame s) = 0" "gl_Get (publish_frame s) = []"
  "ls_PointCloudLastData (publish_frame s) = ls_PointCloudLastData s"
  "gl_isSuccessfulFlag (publish_frame s) = gl_isSuccessfulFlag s"
  by (simp_all add: publish_frame_def send_publish_def)

lemma packet_frame_fields [simp]:
  "gl_Get (begin_packet d s) = gl_Get s" "ls_PointCloudLastData (begin_packet d s) = ls_PointCloudLastData s"
  "gl_allDataValue (begin_packet d s) = gl_allDataValue s" "gl_isQuit (begin_packet d s) = gl_isQuit s"
  "gl_Per (begin_packet d s) = gl_Per s" "gl_isFrameOK (begin_packet d s) = gl_isFrameOK s" "ls_count (begin_packet d s) = ls_count s"
  "gl_isSuccessfulFlag (begin_packet d s) = gl_isSuccessfulFlag s"
  "gl_Get (end_packet s) = gl_Get s" "ls_PointCloudLastData (end_packet s) = ls_PointCloudLastData s"
  "gl_allDataValue (end_packet s) = gl_allDataValue s" "gl_isQuit (end_packet s) = gl_isQuit s"
  "gl_Per (end_packet s) = gl_Per s" "gl_isFrameOK (end_packet s) = gl_isFrameOK s" "ls_count (end_packet s) = ls_count s"
  "gl_isSuccessfulFlag (end_packet s) = gl_isSuccessfulFlag s"
  "gl_Get (device_packet d s) = gl_Get s" "ls_PointCloudLastData (device_packet d s) = ls_PointCloudLastData s"
  "gl_isQuit (device_packet d s) = gl_isQuit s"
  "gl_Per (device_packet d s) = gl_Per s" "gl_isFrameOK (device_packet d s) = gl_isFrameOK s" "ls_count (device_packet d s) = ls_count s"
  "gl_isSuccessfulFlag (device_packet d s) = gl_isSuccessfulFlag s"
  by (simp_all add: begin_packet_def end_packet_def device_packet_def set_192_def Let_def)

lemma packet_ok: "ls_ok s \<Longrightarrow> ls_ok (begin_packet d s)" "ls_ok s \<Longrightarrow> ls_ok (end_packet s)" "ls_ok s \<Longrightarrow> ls_ok (device_packet d s)"
  by (auto simp: ls_ok_def begin_packet_def end_packet_def device_packet_def set_192_def Let_def)

section \<open>What is still to come\<close>

text \<open>The frames that follow from a state if the packets \<open>ds\<close> arrive from now on.\<close>

definition to_come :: "stream \<Rightarrow> packet list \<Rightarrow> frame list" where
  "to_come s ds =
     (let l = st_lidar s; q = map (take 1206) (gl_allDataValue l) @ ds
      in case st_dec s of
           D_Idle \<Rightarrow> cut (ls_PointCloudLastData l) (gl_Get l) (stream_events q l)
         | D_Blocks d is \<Rightarrow> cut (ls_PointCloudLastData l) (gl_Get l) (map (block_ev d l) is @ stream_events q (end_packet l))
         | D_Publish d is \<Rightarrow> gl_Get l # cut (ls_PointCloudLastData l) [] (map (block_ev d l) is @ stream_events q (end_packet l)))"

lemma to_come_idle: "st_dec s = D_Idle \<Longrightarrow> to_come s ds =
    cut (ls_PointCloudLastData (st_lidar s)) (gl_Get (st_lidar s)) (stream_events (map (take 1206) (gl_allDataValue (st_lidar s)) @ ds) (st_lidar s))"
  by (simp add: to_come_def Let_def)

lemma to_come_blocks: "st_dec s = D_Blocks d is \<Longrightarrow> to_come s ds =
    cut (ls_PointCloudLastData (st_lidar s)) (gl_Get (st_lidar s))
      (map (block_ev d (st_lidar s)) is @ stream_events (map (take 1206) (gl_allDataValue (st_lidar s)) @ ds) (end_packet (st_lidar s)))"
  by (simp add: to_come_def Let_def)

lemma to_come_publish: "st_dec s = D_Publish d is \<Longrightarrow> to_come s ds =
    gl_Get (st_lidar s) # cut (ls_PointCloudLastData (st_lidar s)) []
      (map (block_ev d (st_lidar s)) is @ stream_events (map (take 1206) (gl_allDataValue (st_lidar s)) @ ds) (end_packet (st_lidar s)))"
  by (simp add: to_come_def Let_def)

lemma to_come_cong:
  assumes "st_dec s = st_dec t" "settings (st_lidar s) = settings (st_lidar t)"
    "ls_PointCloudLastData (st_lidar s) = ls_PointCloudLastData (st_lidar t)" "gl_Get (st_lidar s) = gl_Get (st_lidar t)"
    "map (take 1206) (gl_allDataValue (st_lidar s)) @ ds = map (take 1206) (gl_allDataValue (st_lidar t)) @ ds'"
  shows "to_come s ds = to_come t ds'"
  unfolding to_come_def Let_def assms(1,3,4,5) stream_events_settings [OF assms(2)]
    stream_events_settings [OF end_packet_settings [OF assms(2)]] block_ev_settings [OF assms(2)] ..

text \<open>Between the steps: the parameters are safe, and a counted marker is a frame about to be published.\<close>

definition dec_inv :: "stream \<Rightarrow> bool" where
  "dec_inv s \<longleftrightarrow> ls_ok (st_lidar s) \<and> \<not> gl_isQuit (st_lidar s)
     \<and> ls_count (st_lidar s) = (case st_dec s of D_Publish _ _ \<Rightarrow> 1 | _ \<Rightarrow> 0)"

text \<open>Steps the decoder needs at most until it is idle with an empty queue.\<close>

definition work :: "stream \<Rightarrow> nat" where
  "work s = (case st_dec s of D_Idle \<Rightarrow> 0 | D_Blocks _ is \<Rightarrow> 1 + 2 * length is | D_Publish _ is \<Rightarrow> 2 + 2 * length is)
     + 300 * length (gl_allDataValue (st_lidar s))"

definition decode_ok :: "stream \<Rightarrow> stream \<Rightarrow> bool" where
  "decode_ok s s' \<longleftrightarrow> dec_inv s' \<and> (0 < work s \<longrightarrow> work s' < work s)
     \<and> (\<forall>ds. st_published s' @ to_come s' ds = st_published s @ to_come s ds)"

lemma blocks_length: "length (packet_blocks d) \<le> 149"
  by (simp add: packet_blocks_def)

lemma decode_idle:
  assumes "dec_inv s" "st_dec s = D_Idle"
  shows "\<exists>s'. decode_step s = Some s' \<and> decode_ok s s'"
proof (cases "gl_allDataValue (st_lidar s)")
  case Nil
  then show ?thesis using assms by (simp add: decode_step_def decode_ok_def work_def Let_def)
next
  case (Cons front rest)
  define d l where "d = take 1206 front" and "l = (st_lidar s)\<lparr>gl_allDataValue := rest\<rparr>"
  define s' where "s' = (if is_dev_packet d then s\<lparr>st_lidar := device_packet d l\<rparr>
      else s\<lparr>st_lidar := begin_packet d l, st_dec := D_Blocks d (packet_blocks d)\<rparr>)"
  have step: "decode_step s = Some s'"
    unfolding decode_step_def assms(2) Let_def Cons list.case dec_pc.case s'_def d_def l_def ..
  have l: "settings l = settings (st_lidar s)" "ls_ok l" "ls_count l = 0" "\<not> gl_isQuit l" "gl_allDataValue l = rest"
    "gl_Get l = gl_Get (st_lidar s)" "ls_PointCloudLastData l = ls_PointCloudLastData (st_lidar s)"
    using assms by (simp_all add: l_def dec_inv_def)
  have ev: "stream_events (map (take 1206) (gl_allDataValue (st_lidar s)) @ ds) (st_lidar s)
      = packet_events d l @ stream_events (map (take 1206) rest @ ds) (after_packet d l)" for ds
    unfolding stream_events_settings [OF l(1) [symmetric]] Cons by (simp add: d_def)
  show ?thesis
  proof (cases "is_dev_packet d")
    case True
    then have "dec_inv s'" "work s' < work s" "to_come s' ds = to_come s ds" "st_published s' = st_published s" for ds
      unfolding to_come_idle [OF assms(2)] ev
      using l assms(2) Cons by (simp_all add: s'_def dec_inv_def packet_ok work_def to_come_idle packet_events_def after_packet_def)
    then show ?thesis using step by (simp add: decode_ok_def)
  next
    case False
    then have "dec_inv s'" "work s' < work s" "to_come s' ds = to_come s ds" "st_published s' = st_published s" for ds
      unfolding to_come_idle [OF assms(2)] ev
      using l assms(2) Cons blocks_length [of d]
      by (simp_all add: s'_def dec_inv_def packet_ok work_def to_come_blocks packet_events_def after_packet_def)
    then show ?thesis using step by (simp add: decode_ok_def)
  qed
qed

lemma decode_end:
  assumes "dec_inv s" "st_dec s = D_Blocks d []"
  shows "\<exists>s'. decode_step s = Some s' \<and> decode_ok s s'"
  using assms unfolding decode_ok_def
  by (simp add: decode_step_def dec_inv_def packet_ok work_def to_come_blocks to_come_idle Let_def)

lemma decode_publish:
  assumes "dec_inv s" "st_dec s = D_Publish d is"
  shows "\<exists>s'. decode_step s = Some s' \<and> decode_ok s s'"
proof -
  let ?l = "st_lidar s" and ?l' = "publish_frame (st_lidar s)"
  have set: "settings ?l' = settings ?l" by simp
  have "ls_ok ?l'" using assms(1) settings_ok [OF set] by (simp add: dec_inv_def)
  then show ?thesis
    using assms block_ev_settings [OF set] stream_events_settings [OF end_packet_settings [OF set]]
    by (simp add: decode_ok_def decode_step_def dec_inv_def work_def to_come_blocks to_come_publish Let_def)
qed

lemma decode_block:
  assumes "dec_inv s" "st_dec s = D_Blocks d (i # is)"
  shows "\<exists>s'. decode_step s = Some s' \<and> decode_ok s s'"
proof (cases "is_marker d i")
  case True
  let ?l = "st_lidar s" and ?l' = "send_status (stack_frame ((st_lidar s)\<lparr>ls_count := 1\<rparr>))"
  have set: "settings ?l' = settings ?l" by simp
  have "ls_ok ?l'" using assms(1) settings_ok [OF set] by (simp add: dec_inv_def)
  then show ?thesis
    using assms True block_ev_settings [OF set] stream_events_settings [OF end_packet_settings [OF set]]
    by (simp add: decode_ok_def decode_step_def dec_inv_def work_def to_come_blocks to_come_publish Let_def block_ev_def [of d _ i])
next
  case False
  let ?l = "st_lidar s"
  have ok: "ls_ok ?l" "ls_count ?l = 0" using assms by (simp_all add: dec_inv_def)
  obtain l' where l': "echo_block (packet_points d) d i ?l = Some l'" "calm_view l' = calm_view ?l" "ls_count l' = 0"
    "gl_Get l' = (if 3000000 < length (gl_Get ?l) then gl_Get ?l
       else gl_Get ?l @ (if raw_distance d (i + 4) \<le> 0 then [] else the (packet_points d d i ?l)))"
    using pp.plain_block [OF ok False, of d] by blast
  have set: "settings l' = settings ?l" using l'(2) by (simp add: calm_view_fields)
  have "ls_ok l'" using ok(1) settings_ok [OF set] by simp
  then show ?thesis
    using assms False l' ok(2) block_ev_settings [OF set] stream_events_settings [OF end_packet_settings [OF set]]
    by (simp add: decode_ok_def decode_step_def dec_inv_def work_def to_come_blocks Let_def block_ev_def [of d _ i] calm_view_fields)
qed

lemma decode_step_ok: "dec_inv s \<Longrightarrow> \<exists>s'. decode_step s = Some s' \<and> decode_ok s s'"
  using decode_idle decode_end decode_publish decode_block by (metis dec_pc.exhaust list.exhaust)

section \<open>Receiving and polling\<close>

lemma sock_pass_arrives:
  assumes "\<not> gl_isQuit l" "\<And>p. r = Recv p \<Longrightarrow> length p \<le> 1212"
  shows "\<exists>b l'. sock_pass a c e r l = Some (b, l') \<and> settings l' = settings (l :: lidar_ls) \<and> gl_Get l' = gl_Get l
     \<and> ls_PointCloudLastData l' = ls_PointCloudLastData l \<and> ls_count l' = ls_count l \<and> gl_isQuit l' = gl_isQuit l
     \<and> gl_Per l' = gl_Per l \<and> gl_isFrameOK l' = gl_isFrameOK l
     \<and> (gl_isSuccessfulFlag l \<noteq> None \<longrightarrow> gl_isSuccessfulFlag l' \<noteq> None)
     \<and> map (take 1206) (gl_allDataValue l') = map (take 1206) (gl_allDataValue l) @ arrived (Data_recv r)"
proof (cases r)
  case Recv_error
  then show ?thesis using assms(1) by (auto simp: sock_pass_def simp del: not_None_eq)
next
  case (Recv p)
  then have "length p \<le> 1212" using assms(2) by blast
  then show ?thesis using Recv assms(1) by (auto simp: sock_pass_def CollectionDataArrive_def Let_def simp del: not_None_eq)
qed

text \<open>The frames the application has taken, and the one that waits for it.\<close>

definition taken :: "stream \<Rightarrow> frame list" where
  "taken s = map (\<lambda>(_, t, _). the t) (st_polled s) @ (case st_app s of A_Idle \<Rightarrow> [] | A_Took t _ \<Rightarrow> [the t])"

definition waiting :: "stream \<Rightarrow> frame list" where
  "waiting s = (case gl_Per (st_lidar s) of None \<Rightarrow> [] | Some f \<Rightarrow> [f])"

definition poll_inv :: "stream \<Rightarrow> bool" where
  "poll_inv s \<longleftrightarrow> subseq (taken s @ waiting s) (st_published s)
     \<and> (gl_isFrameOK (st_lidar s) \<longleftrightarrow> gl_Per (st_lidar s) \<noteq> None)
     \<and> (st_published s \<noteq> [] \<or> (\<exists>d is. st_dec s = D_Publish d is) \<longrightarrow> gl_isSuccessfulFlag (st_lidar s) \<noteq> None)
     \<and> list_all (\<lambda>(f, t, _). f \<noteq> None \<and> t \<noteq> None) (st_polled s) \<and> (\<forall>t i. st_app s = A_Took t i \<longrightarrow> t \<noteq> None)"

lemma poll_inv_keep:
  assumes "poll_inv s" "st_published t = st_published s" "st_polled t = st_polled s" "st_app t = st_app s"
    "gl_Per (st_lidar t) = gl_Per (st_lidar s)" "gl_isFrameOK (st_lidar t) = gl_isFrameOK (st_lidar s)"
    "gl_isSuccessfulFlag (st_lidar s) \<noteq> None \<Longrightarrow> gl_isSuccessfulFlag (st_lidar t) \<noteq> None"
    "st_dec t = st_dec s \<or> (\<forall>d is. st_dec t \<noteq> D_Publish d is) \<or> gl_isSuccessfulFlag (st_lidar t) \<noteq> None"
  shows "poll_inv t"
proof -
  have "taken t = taken s" "waiting t = waiting s" using assms(3-5) by (simp_all add: taken_def waiting_def)
  then show ?thesis using assms unfolding poll_inv_def by metis
qed

lemma poll_inv_publish:
  assumes "poll_inv s" "st_dec s = D_Publish d is" "st_lidar t = publish_frame (st_lidar s)"
    "st_published t = st_published s @ [gl_Get (st_lidar s)]" "st_polled t = st_polled s" "st_app t = st_app s"
  shows "poll_inv t"
proof -
  have "subseq (taken s) (st_published s)"
    using assms(1) subseq_order.trans [OF prefix_imp_subseq [of "taken s" "taken s @ waiting s"]] unfolding poll_inv_def by simp
  then have "subseq (taken s @ [gl_Get (st_lidar s)]) (st_published t)" by (simp add: assms(4))
  then show ?thesis using assms unfolding poll_inv_def taken_def waiting_def by auto
qed

lemma decode_poll_inv:
  assumes "dec_inv s" "poll_inv s" "decode_step s = Some s'"
  shows "poll_inv s'"
proof (cases "st_dec s")
  case D_Idle
  then show ?thesis using assms(2,3)
    by (auto simp: decode_step_def Let_def split: list.splits if_splits intro: poll_inv_keep [of s])
next
  case (D_Publish d "is")
  then show ?thesis using assms(3) by (intro poll_inv_publish [OF assms(2)]) (auto simp: decode_step_def Let_def)
next
  case (D_Blocks d js)
  show ?thesis
  proof (cases js)
    case Nil
    then show ?thesis using D_Blocks assms(2,3) by (auto simp: decode_step_def Let_def intro: poll_inv_keep [of s])
  next
    case (Cons i "is")
    show ?thesis
    proof (cases "is_marker d i")
      case True
      then show ?thesis using D_Blocks Cons assms
        by (intro poll_inv_keep [OF assms(2)])
           (auto simp: decode_step_def dec_inv_def Let_def intro: status_fields(9) [unfolded not_None_eq])
    next
      case False
      have "ls_ok (st_lidar s)" "ls_count (st_lidar s) = 0" using assms(1) D_Blocks by (simp_all add: dec_inv_def)
      from pp.plain_block [OF this False, of d] show ?thesis
        using D_Blocks Cons False assms \<open>ls_count _ = 0\<close>
        by (auto simp: decode_step_def Let_def calm_view_fields intro: poll_inv_keep [of s])
    qed
  qed
qed

lemma poll_poll_inv:
  assumes "poll_inv s"
  shows "poll_inv (poll_step s)"
proof (cases "st_app s")
  case A_Idle
  show ?thesis
  proof (cases "gl_isFrameOK (st_lidar s)")
    case True
    then obtain f where "gl_Per (st_lidar s) = Some f" using assms by (auto simp: poll_inv_def)
    then show ?thesis using True A_Idle assms
      by (simp add: poll_inv_def poll_step_def getLidarPerFrameDate_def taken_def waiting_def)
  qed (use A_Idle assms in \<open>simp add: poll_step_def\<close>)
next
  case (A_Took t i)
  then have "taken s \<noteq> []" by (simp add: taken_def)
  then have "st_published s \<noteq> []" using assms by (auto simp: poll_inv_def)
  then show ?thesis using A_Took assms by (simp add: poll_inv_def poll_step_def taken_def waiting_def)
qed

definition stream_inv :: "stream \<Rightarrow> bool" where
  "stream_inv s \<longleftrightarrow> dec_inv s \<and> poll_inv s"

definition step_ok :: "stream_op \<Rightarrow> stream \<Rightarrow> stream \<Rightarrow> bool" where
  "step_ok op s s' \<longleftrightarrow> stream_inv s' \<and> (\<forall>ds. st_published s' @ to_come s' ds = st_published s @ to_come s (arrived op @ ds))"

lemma recv_ok:
  assumes "stream_inv s" "\<And>p. r = Recv p \<Longrightarrow> length p \<le> 1212"
  shows "\<exists>b l'. sock_pass a c e r (st_lidar s) = Some (b, l') \<and> step_ok (Data_recv r) s (s\<lparr>st_lidar := l'\<rparr>)"
proof -
  have inv: "dec_inv s" "poll_inv s" using assms(1) by (simp_all add: stream_inv_def)
  have q: "\<not> gl_isQuit (st_lidar s)" using inv(1) by (simp add: dec_inv_def)
  obtain b l' where l': "sock_pass a c e r (st_lidar s) = Some (b, l')" "settings l' = settings (st_lidar s)"
    "gl_Get l' = gl_Get (st_lidar s)" "ls_PointCloudLastData l' = ls_PointCloudLastData (st_lidar s)" "ls_count l' = ls_count (st_lidar s)"
    "gl_isQuit l' = gl_isQuit (st_lidar s)" "gl_Per l' = gl_Per (st_lidar s)" "gl_isFrameOK l' = gl_isFrameOK (st_lidar s)"
    "gl_isSuccessfulFlag (st_lidar s) \<noteq> None \<Longrightarrow> gl_isSuccessfulFlag l' \<noteq> None"
    "map (take 1206) (gl_allDataValue l') = map (take 1206) (gl_allDataValue (st_lidar s)) @ arrived (Data_recv r)"
    using sock_pass_arrives [of "st_lidar s" r a c e] q assms(2) by blast
  have "dec_inv (s\<lparr>st_lidar := l'\<rparr>)" using inv(1) l'(5,6) settings_ok [OF l'(2)] by (simp add: dec_inv_def)
  moreover have "poll_inv (s\<lparr>st_lidar := l'\<rparr>)" using l'(7-9) by (intro poll_inv_keep [OF inv(2)]) simp_all
  moreover have "to_come (s\<lparr>st_lidar := l'\<rparr>) ds = to_come s (arrived (Data_recv r) @ ds)" for ds
    using l'(2-4,10) by (intro to_come_cong) simp_all
  ultimately show ?thesis using l'(1) by (simp add: step_ok_def stream_inv_def)
qed

lemma poll_ok: "stream_inv s \<Longrightarrow> step_ok Poll s (poll_step s)"
proof -
  assume inv: "stream_inv s"
  have same: "st_dec (poll_step s) = st_dec s" "settings (st_lidar (poll_step s)) = settings (st_lidar s)"
    "ls_PointCloudLastData (st_lidar (poll_step s)) = ls_PointCloudLastData (st_lidar s)"
    "gl_Get (st_lidar (poll_step s)) = gl_Get (st_lidar s)" "gl_allDataValue (st_lidar (poll_step s)) = gl_allDataValue (st_lidar s)"
    "ls_count (st_lidar (poll_step s)) = ls_count (st_lidar s)" "gl_isQuit (st_lidar (poll_step s)) = gl_isQuit (st_lidar s)"
    "st_published (poll_step s) = st_published s"
    by (simp_all add: poll_step_def getLidarPerFrameDate_def split: app_pc.split)
  have "to_come (poll_step s) ds = to_come s ds" for ds by (rule to_come_cong) (simp_all add: same)
  moreover have "dec_inv (poll_step s)" using inv settings_ok [OF same(2)] by (simp add: stream_inv_def dec_inv_def same)
  ultimately show ?thesis using inv poll_poll_inv by (simp add: step_ok_def stream_inv_def same(8))
qed

lemma stream_step_ok:
  assumes "stream_inv s" "fits op"
  shows "\<exists>s'. stream_step op s = Some s' \<and> step_ok op s s'"
proof (cases op)
  case (Data_recv r)
  then have "r = Recv p \<Longrightarrow> length p \<le> 1212" for p using assms(2) by simp
  from recv_ok [OF assms(1) this] show ?thesis unfolding Data_recv getDataSock_def stream_step.simps by fastforce
next
  case (Dev_recv r)
  have "step_ok (Dev_recv r) = step_ok (Data_recv r)" by (cases r) (simp_all add: step_ok_def fun_eq_iff)
  moreover have "r = Recv p \<Longrightarrow> length p \<le> 1212" for p using Dev_recv assms(2) by simp
  ultimately show ?thesis using recv_ok [OF assms(1), of r] unfolding Dev_recv getDevSock_def stream_step.simps by fastforce
next
  case Decode
  then show ?thesis using decode_step_ok [of s] decode_poll_inv [of s] assms(1)
    by (auto simp: step_ok_def stream_inv_def decode_ok_def)
next
  case Poll
  then show ?thesis using poll_ok [OF assms(1)] by simp
qed

lemma stream_run_ok:
  assumes "stream_inv s" "list_all fits ops"
  shows "\<exists>s'. stream_run ops s = Some s' \<and> stream_inv s'
     \<and> (\<forall>ds. st_published s' @ to_come s' ds = st_published s @ to_come s (arrivals ops @ ds))"
  using assms
proof (induction ops arbitrary: s)
  case (Cons op ops)
  then obtain s1 where s1: "stream_step op s = Some s1" "step_ok op s s1" using stream_step_ok [of s op] by auto
  then show ?case using Cons.IH [of s1] Cons.prems(2) by (auto simp: step_ok_def arrivals_def)
qed (simp add: arrivals_def)

text \<open>Left alone, the decoder finishes everything that has arrived.\<close>

lemma idle_to_come: "work s = 0 \<Longrightarrow> to_come s [] = []"
  by (auto simp: work_def to_come_def Let_def split: dec_pc.splits)

lemma decoder_drains:
  assumes "stream_inv s"
  shows "\<exists>n s'. n \<le> work s \<and> stream_run (replicate n Decode) s = Some s' \<and> st_published s' = st_published s @ to_come s []"
  using assms
proof (induction "work s" arbitrary: s rule: less_induct)
  case less
  show ?case
  proof (cases "work s = 0")
    case True
    then show ?thesis using idle_to_come by (intro exI [of _ 0] exI [of _ s]) simp
  next
    case False
    obtain s1 where s1: "decode_step s = Some s1" "decode_ok s s1"
      using decode_step_ok less.prems by (auto simp: stream_inv_def)
    then have "stream_inv s1" "work s1 < work s"
      using False decode_poll_inv [OF _ _ s1(1)] less.prems by (auto simp: stream_inv_def decode_ok_def)
    then obtain n s' where "n \<le> work s1" "stream_run (replicate n Decode) s1 = Some s'"
      "st_published s' = st_published s1 @ to_come s1 []" using less.hyps by blast
    then show ?thesis using s1 \<open>work s1 < work s\<close>
      by (intro exI [of _ "Suc n"] exI [of _ s']) (simp add: decode_ok_def)
  qed
qed

section \<open>Without interference the steps are those of \<open>LidarRun\<close>\<close>

lemma decode_replicate_append:
  "stream_run (replicate m Decode) s = Some s1 \<Longrightarrow> stream_run (replicate n Decode) s1 = Some s2
     \<Longrightarrow> stream_run (replicate (m + n) Decode) s = Some s2"
  by (simp add: replicate_add stream_run_append)

lemma decode_once: "decode_step s = Some s' \<Longrightarrow> stream_run (replicate 1 Decode) s = Some s'"
  by simp

lemma block_steps:
  assumes "dec_inv s" "st_dec s = D_Blocks d (i # is)"
  shows "\<exists>n s'. stream_run (replicate n Decode) s = Some s' \<and> dec_inv s' \<and> st_dec s' = D_Blocks d is
     \<and> echo_block (packet_points d) d i (st_lidar s) = Some (st_lidar s')"
proof (cases "is_marker d i")
  case True
  obtain s1 where s1: "decode_step s = Some s1" "dec_inv s1" using decode_step_ok [OF assms(1)] by (auto simp: decode_ok_def)
  then have e1: "st_lidar s1 = send_status (stack_frame ((st_lidar s)\<lparr>ls_count := 1\<rparr>))" "st_dec s1 = D_Publish d is"
    using assms True by (auto simp: decode_step_def dec_inv_def Let_def)
  obtain s2 where s2: "decode_step s1 = Some s2" "dec_inv s2" using decode_step_ok [OF s1(2)] by (auto simp: decode_ok_def)
  then have "st_lidar s2 = publish_frame (st_lidar s1)" "st_dec s2 = D_Blocks d is"
    using e1(2) by (auto simp: decode_step_def Let_def)
  moreover have "echo_block (packet_points d) d i (st_lidar s) = Some (finish_frame ((st_lidar s)\<lparr>ls_count := 1\<rparr>))"
    using assms True by (simp add: echo_block_def dec_inv_def)
  ultimately show ?thesis
    using decode_replicate_append [OF decode_once [OF s1(1)] decode_once [OF s2(1)]] s2(2) e1(1) finish_frame_halves by metis
next
  case False
  obtain s1 where s1: "decode_step s = Some s1" "dec_inv s1" using decode_step_ok [OF assms(1)] by (auto simp: decode_ok_def)
  then have "st_dec s1 = D_Blocks d is" "echo_block (packet_points d) d i (st_lidar s) = Some (st_lidar s1)"
    using assms False by (auto simp: decode_step_def dec_inv_def Let_def)
  then show ?thesis using decode_once [OF s1(1)] s1(2) by blast
qed

lemma blocks_steps:
  assumes "dec_inv s" "st_dec s = D_Blocks d is"
  shows "\<exists>n s'. stream_run (replicate n Decode) s = Some s' \<and> dec_inv s' \<and> st_dec s' = D_Blocks d []
     \<and> block_loop (echo_block (packet_points d) d) is (st_lidar s) = Some (st_lidar s')"
  using assms
proof (induction "is" arbitrary: s)
  case Nil
  then show ?case by (intro exI [of _ 0] exI [of _ s]) simp
next
  case (Cons i "is")
  obtain m s1 where s1: "stream_run (replicate m Decode) s = Some s1" "dec_inv s1" "st_dec s1 = D_Blocks d is"
    "echo_block (packet_points d) d i (st_lidar s) = Some (st_lidar s1)" using block_steps [OF Cons.prems] by blast
  obtain n s2 where "stream_run (replicate n Decode) s1 = Some s2" "dec_inv s2" "st_dec s2 = D_Blocks d []"
    "block_loop (echo_block (packet_points d) d) is (st_lidar s1) = Some (st_lidar s2)" using Cons.IH [OF s1(2,3)] by blast
  then show ?case using decode_replicate_append [OF s1(1)] s1(4) by fastforce
qed

lemma echo_blocks:
  "(if d ! 1205 = 2 then handleDoubleEcho d s else handleSingleEcho d s)
   = block_loop (echo_block (packet_points d) d) (packet_blocks d)
       (s\<lparr>gl_PointIntervalT_ns := real (unat (gl_allTimestamp s - gl_lastAllTimestamp s)) / (if is_double d then 99 else 149)\<rparr>)"
  by (simp add: handleDoubleEcho_def handleSingleEcho_def packet_points_def packet_blocks_def is_double_def)

theorem LidarRun_steps:
  assumes "dec_inv s" "st_dec s = D_Idle"
  shows "\<exists>n s'. stream_run (replicate n Decode) s = Some s' \<and> st_dec s' = D_Idle \<and> LidarRun (st_lidar s) = Some (True, st_lidar s')"
proof (cases "gl_allDataValue (st_lidar s)")
  case Nil
  then show ?thesis using assms by (intro exI [of _ 0] exI [of _ s]) (simp add: LidarRun_def dec_inv_def)
next
  case (Cons front rest)
  define d l where "d = take 1206 front" and "l = (st_lidar s)\<lparr>gl_allDataValue := rest\<rparr>"
  have q: "\<not> gl_isQuit (st_lidar s)" using assms(1) by (simp add: dec_inv_def)
  obtain s1 where s1: "decode_step s = Some s1" "dec_inv s1" using decode_step_ok [OF assms(1)] by (auto simp: decode_ok_def)
  show ?thesis
  proof (cases "is_dev_packet d")
    case True
    then have "st_lidar s1 = device_packet d l" "st_dec s1 = D_Idle"
      using s1(1) assms(2) Cons by (auto simp: decode_step_def d_def l_def Let_def)
    moreover have "LidarRun (st_lidar s) = Some (True, device_packet d l)"
      using q True Cons by (simp add: LidarRun_def d_def l_def)
    ultimately show ?thesis using decode_once [OF s1(1)] by metis
  next
    case False
    then have e1: "st_lidar s1 = begin_packet d l" "st_dec s1 = D_Blocks d (packet_blocks d)"
      using s1(1) assms(2) Cons by (auto simp: decode_step_def d_def l_def Let_def)
    obtain n s2 where s2: "stream_run (replicate n Decode) s1 = Some s2" "dec_inv s2" "st_dec s2 = D_Blocks d []"
      "block_loop (echo_block (packet_points d) d) (packet_blocks d) (st_lidar s1) = Some (st_lidar s2)"
      using blocks_steps [OF s1(2) e1(2)] by blast
    obtain s3 where s3: "decode_step s2 = Some s3" using decode_step_ok [OF s2(2)] by blast
    then have "st_lidar s3 = end_packet (st_lidar s2)" "st_dec s3 = D_Idle" using s2(3) by (auto simp: decode_step_def Let_def)
    moreover have "LidarRun (st_lidar s) = Some (True, end_packet (st_lidar s2))"
      unfolding LidarRun_def Cons list.case Let_def d_def [symmetric] l_def [symmetric] echo_blocks
      using q False s2(4) by (simp only: e1(1) begin_packet_def Let_def) (simp add: end_packet_def)
    ultimately show ?thesis
      using decode_replicate_append [OF decode_replicate_append [OF decode_once [OF s1(1)] s2(1)] decode_once [OF s3]] by metis
  qed
qed

section \<open>Properties\<close>

definition idle_receiver :: "lidar_ls \<Rightarrow> bool" where
  "idle_receiver l \<longleftrightarrow> gl_allDataValue l = [] \<and> gl_Per l = None \<and> \<not> gl_isFrameOK l"

lemma start_inv: "idle_receiver l \<Longrightarrow> stream_inv (stream_start (ls_new l))"
  using ls_inv_new [of l] settings_ok [of "LidarStart (ls_new l)" "ls_new l"]
  by (simp add: stream_inv_def dec_inv_def poll_inv_def stream_start_def LidarStart_def idle_receiver_def taken_def waiting_def ls_inv_def)
     (simp add: ls_new_def)

lemma start_to_come:
  assumes "idle_receiver l"
  shows "st_published (stream_start (ls_new l)) @ to_come (stream_start (ls_new l)) ds = ref_frames ds (ls_new l)"
proof -
  have "settings (LidarStart (ls_new l)) = settings (ls_new l)" by (simp add: LidarStart_def)
  from stream_events_settings [OF this] show ?thesis
    using assms by (simp add: to_come_idle stream_start_def ref_frames_def idle_receiver_def) (simp add: LidarStart_def ls_new_def)
qed

text \<open>
  C8: what comes out of the lidar's threads is what the packets say. Whatever the interleaving of
  the two receiving threads, the decoder and the application, and whatever bytes \<open>recvfrom\<close> puts into its buffer of 1212, no step fails,
  and the frames published so far are a prefix of the reference: the packets in the order of arrival, block by block,
  with the settings the earlier packets left, cut at the markers. The decoder alone completes the reference in a
  bounded number of steps. The application gets these frames in order and none twice; it never reads an
  unset flag or a null pointer.
\<close>

theorem stream_frames:
  assumes "list_all fits ops" "idle_receiver l"
  shows "\<exists>s. stream_run ops (stream_start (ls_new l)) = Some s
     \<and> prefix (st_published s) (ref_frames (arrivals ops) (ls_new l))
     \<and> (\<exists>n s'. n \<le> work s \<and> stream_run (replicate n Decode) s = Some s' \<and> st_published s' = ref_frames (arrivals ops) (ls_new l))
     \<and> subseq (map (\<lambda>(_, t, _). the t) (st_polled s)) (st_published s)
     \<and> list_all (\<lambda>(flag, t, _). flag \<noteq> None \<and> t \<noteq> None) (st_polled s)"
proof -
  obtain s where s: "stream_run ops (stream_start (ls_new l)) = Some s" "stream_inv s"
    "st_published s @ to_come s [] = ref_frames (arrivals ops) (ls_new l)"
    using stream_run_ok [OF start_inv [OF assms(2)] assms(1)] start_to_come [OF assms(2)] by (metis append_Nil2)
  have poll: "subseq (taken s @ waiting s) (st_published s)" "list_all (\<lambda>(flag, t, _). flag \<noteq> None \<and> t \<noteq> None) (st_polled s)"
    using s(2) by (simp_all add: stream_inv_def poll_inv_def)
  have "prefix (map (\<lambda>(_, t, _). the t) (st_polled s)) (taken s @ waiting s)" by (simp add: taken_def)
  then have "subseq (map (\<lambda>(_, t, _). the t) (st_polled s)) (st_published s)"
    using subseq_order.trans [OF prefix_imp_subseq poll(1)] by blast
  then show ?thesis using s decoder_drains [OF s(2)] poll(2) by (metis prefixI)
qed

lemma sample_packet_ref:
  "\<exists>p. ref_frames [sample_packet] (ls_new sample_ls) = [[p]]"
proof -
  let ?l = "begin_packet sample_packet (ls_new sample_ls)"
  have plain: "\<not> is_double sample_packet" "\<not> is_dev_packet sample_packet" "length sample_packet = 1206"
    using sample_packet_nth [of 1205] by (simp_all add: is_double_def is_dev_packet_def sample_packet_def)
  have "ls_ok ?l" using ls_inv_new [of sample_ls] by (intro packet_ok) (simp add: ls_inv_def)
  then obtain p where p: "single_points sample_packet 0 ?l = Some [p]" using single_points_one by blast
  have st: "ls_StackFrame ?l = 1"
    using sample_packet_nth [of 1204] by (simp add: begin_packet_def ls_new_def Let_def)
  have upt: "[0..<149] = 0 # 1 # [2..<149]" using upt_add_eq_append [of 0 2 147] by (simp add: upt_rec)
  have rest: "map (\<lambda>k. block_ev sample_packet ?l (8 * k)) [2..<n] = map (\<lambda>k. Points []) [2..<n]" if "n \<le> 149" for n
    using that by (auto simp: block_ev_def is_marker_def raw_distance_def sample_packet_nth)
  have none: "cut a [] (map (\<lambda>k. Points []) ks) = []" for a and ks :: "nat list" by (induction ks) simp_all
  have "map (block_ev sample_packet ?l) (packet_blocks sample_packet)
      = Points [p] # Mark False # map (\<lambda>k. Points []) [2..<149]"
    using plain(1) p st rest [OF order_refl]
    by (simp add: packet_blocks_def comp_def upt block_ev_def packet_points_def is_marker_def raw_distance_def sample_packet_def
        del: upt_rec_numeral)
  then have "ref_frames [sample_packet] (ls_new sample_ls) = [[p]]"
    using plain(2) none by (simp add: ref_frames_def packet_events_def)
  then show ?thesis by blast
qed

theorem stream_frames_witness:
  "\<exists>n s p. stream_run (Data_recv (Recv sample_packet) # replicate n Decode) (stream_start (ls_new sample_ls)) = Some s
     \<and> st_published s = [[p]]"
proof -
  have len: "length sample_packet = 1206" by (simp add: sample_packet_def)
  have idle: "idle_receiver sample_ls" by (simp add: idle_receiver_def sample_ls_props) (simp add: sample_ls_def ls_new_def)
  have fit: "list_all fits [Data_recv (Recv sample_packet)]" by (simp add: len)
  have "arrivals [Data_recv (Recv sample_packet)] = [sample_packet]" by (simp add: arrivals_def len)
  then show ?thesis
    using stream_frames [OF fit idle] sample_packet_ref
    by (auto simp del: stream_step.simps split: option.splits)
qed

section \<open>The flag is not part of the frame\<close>

text \<open>What a block without a marker leaves alone.\<close>

definition outside :: "stream \<Rightarrow> stream \<Rightarrow> bool" where
  "outside s t \<longleftrightarrow> (let l = st_lidar s; l' = st_lidar t
     in gl_calls l' = gl_calls l \<and> gl_callback l' = gl_callback l \<and> gl_isSuccessfulFlag l' = gl_isSuccessfulFlag l \<and> gl_Per l' = gl_Per l
      \<and> gl_isFrameOK l' = gl_isFrameOK l \<and> gl_mDataInfoString l' = gl_mDataInfoString l \<and> ls_StackFrame l' = ls_StackFrame l
      \<and> st_app t = st_app s \<and> st_polled t = st_polled s \<and> st_published t = st_published s)"

lemma plain_step:
  assumes "dec_inv s" "st_dec s = D_Blocks d (i # is)" "\<not> is_marker d i" "length (gl_Get (st_lidar s)) \<le> 3000000"
    "0 < raw_distance d (i + 4)" "\<not> is_double d" "gl_DistanceIsNotZero (st_lidar s) \<le> 30"
  shows "\<exists>s'. decode_step s = Some s' \<and> dec_inv s' \<and> st_dec s' = D_Blocks d is \<and> outside s s'
     \<and> gl_DistanceIsNotZero (st_lidar s') = gl_DistanceIsNotZero (st_lidar s) + 1
     \<and> length (gl_Get (st_lidar s')) = length (gl_Get (st_lidar s)) + 1"
proof -
  let ?l = "st_lidar s"
  have ok: "ls_ok ?l" "ls_count ?l = 0" using assms(1,2) by (simp_all add: dec_inv_def)
  obtain s' where s': "decode_step s = Some s'" "dec_inv s'" using decode_step_ok [OF assms(1)] by (auto simp: decode_ok_def)
  obtain p where "single_points d i ?l = Some [p]" using single_points_one [OF ok(1)] by blast
  moreover have "single_points d i (?l\<lparr>gl_DistanceIsNotZero := n\<rparr>) = single_points d i ?l" for n by (rule single.points_nonzero)
  ultimately show ?thesis
    using s' assms(2-7) ok(2)
    by (auto simp: decode_step_def Let_def echo_block_def packet_points_def count_nonzero_def outside_def)
qed

lemma plain_steps:
  assumes "dec_inv s" "st_dec s = D_Blocks d (js @ is)" "list_all (\<lambda>i. \<not> is_marker d i \<and> 0 < raw_distance d (i + 4)) js"
    "\<not> is_double d" "gl_DistanceIsNotZero (st_lidar s) + int (length js) \<le> 30" "length (gl_Get (st_lidar s)) + length js \<le> 3000000"
  shows "\<exists>s'. stream_run (replicate (length js) Decode) s = Some s' \<and> dec_inv s' \<and> st_dec s' = D_Blocks d is \<and> outside s s'
     \<and> gl_DistanceIsNotZero (st_lidar s') = gl_DistanceIsNotZero (st_lidar s) + int (length js)
     \<and> length (gl_Get (st_lidar s')) = length (gl_Get (st_lidar s)) + length js"
  using assms
proof (induction js arbitrary: s)
  case Nil
  then show ?case by (simp add: outside_def)
next
  case (Cons j js)
  obtain s1 where s1: "decode_step s = Some s1" "dec_inv s1" "st_dec s1 = D_Blocks d (js @ is)" "outside s s1"
     "gl_DistanceIsNotZero (st_lidar s1) = gl_DistanceIsNotZero (st_lidar s) + 1"
     "length (gl_Get (st_lidar s1)) = length (gl_Get (st_lidar s)) + 1"
    using plain_step [of s d j "js @ is"] Cons.prems by auto
  then show ?case using Cons.IH [of s1] Cons.prems by (auto simp: outside_def Let_def)
qed

lemma status_judges:
  "gl_isSuccessfulFlag (send_status l) = Some (20 \<le> gl_DistanceIsNotZero l)" "gl_DistanceIsNotZero (send_status l) = 0"
  "gl_callback (send_status l) = gl_callback l" "ls_StackFrame (send_status l) = ls_StackFrame l"
  "gl_callback l \<Longrightarrow> map (\<lambda>(f, fl, _). (f, fl)) (gl_calls (send_status l))
     = map (\<lambda>(f, fl, _). (f, fl)) (gl_calls l) @ [(gl_Get l, Some (20 \<le> gl_DistanceIsNotZero l))]"
  unfolding send_status_def Let_def by (cases "gl_DistanceIsNotZero l < 20"; simp add: messFunction_def Let_def)+

lemma marker_step:
  assumes "dec_inv s" "st_dec s = D_Blocks d (i # is)" "is_marker d i" "ls_StackFrame (st_lidar s) = 1"
  shows "decode_step s = Some (s\<lparr>st_lidar := send_status ((st_lidar s)\<lparr>ls_count := 1\<rparr>), st_dec := D_Publish d is\<rparr>)"
  using assms by (simp add: decode_step_def dec_inv_def Let_def stack_frame_def)

lemma publish_step:
  assumes "st_dec s = D_Publish d is"
  shows "decode_step s = Some (s\<lparr>st_lidar := publish_frame (st_lidar s), st_dec := D_Blocks d is,
     st_published := st_published s @ [gl_Get (st_lidar s)]\<rparr>)"
  using assms by (simp add: decode_step_def Let_def)

text \<open>One measurement, a marker, twenty measurements and a marker.\<close>

definition torn_packet :: packet where
  "torn_packet = (let m = [0, 100, 0, 20, 0, 0x10, 0, 7]; k = [0xff, 0xaa, 0xbb, 0xcc, 0xdd, 0, 0, 0]
     in m @ k @ concat (replicate 20 m) @ k @ replicate 1022 0)"

lemma concat_replicate_nth: "k < n \<Longrightarrow> j < length m \<Longrightarrow> concat (replicate n m) ! (length m * k + j) = m ! j"
proof (induction n arbitrary: k)
  case (Suc n)
  then show ?case by (cases k) (simp_all add: nth_append algebra_simps)
qed simp

lemma torn_nth:
  assumes "k < 20" "j < 8"
  shows "torn_packet ! (16 + 8 * k + j) = [0, 100, 0, 20, 0, 0x10, 0, 7] ! j"
proof -
  let ?m = "[0, 100, 0, 20, 0, 0x10, 0, 7] :: packet"
  have "8 * k + j < length (concat (replicate 20 ?m))" using assms by (simp add: length_concat sum_list_replicate)
  then have "torn_packet ! (16 + 8 * k + j) = concat (replicate 20 ?m) ! (8 * k + j)"
    by (simp add: torn_packet_def nth_append Let_def)
  also have "\<dots> = concat (replicate 20 ?m) ! (length ?m * k + j)" by (intro arg_cong2 [of _ _ _ _ nth] refl) simp
  also have "\<dots> = ?m ! j" using assms by (intro concat_replicate_nth) simp_all
  finally show ?thesis .
qed

lemma torn_plain: "\<not> is_dev_packet torn_packet" "length torn_packet = 1206" "\<not> is_double torn_packet" "torn_packet ! 1204 = 0"
  "\<not> is_marker torn_packet 0" "0 < raw_distance torn_packet 4" "is_marker torn_packet 8" "is_marker torn_packet 176"
  by (simp_all add: is_dev_packet_def is_double_def is_marker_def raw_distance_def torn_packet_def Let_def nth_append
      length_concat sum_list_replicate)

lemma torn_blocks: "list_all (\<lambda>i. \<not> is_marker torn_packet i \<and> 0 < raw_distance torn_packet (i + 4)) (map (\<lambda>k. 16 + 8 * k) [0..<20])"
  using torn_nth [of _ 0] torn_nth [of _ 4] torn_nth [of _ 5] torn_nth [of _ 6]
  by (auto simp: list_all_iff is_marker_def raw_distance_def add.assoc)

lemma torn_packet_blocks: "packet_blocks torn_packet = 0 # 8 # map (\<lambda>k. 16 + 8 * k) [0..<20] @ 176 # map (\<lambda>k. 8 * k) [23..<149]"
proof -
  have "[0..<149] = 0 # 1 # map (\<lambda>k. 2 + k) [0..<20] @ 22 # [23..<149]"
    using upt_add_eq_append [of 0 23 126] by (simp add: upt_rec)
  then show ?thesis using torn_plain(3) by (simp add: packet_blocks_def comp_def del: upt_rec_numeral)
qed

lemma torn_start:
  "\<exists>s. stream_run [Data_recv (Recv torn_packet), Decode] (stream_start (ls_new sample_ls)) = Some s \<and> dec_inv s
     \<and> st_dec s = D_Blocks torn_packet (packet_blocks torn_packet) \<and> gl_Get (st_lidar s) = [] \<and> gl_DistanceIsNotZero (st_lidar s) = 0
     \<and> gl_callback (st_lidar s) \<and> ls_StackFrame (st_lidar s) = 1 \<and> gl_calls (st_lidar s) = [] \<and> st_app s = A_Idle \<and> st_polled s = []"
proof -
  let ?d = torn_packet and ?s0 = "stream_start (ls_new sample_ls)"
  define q where "q = ?d @ replicate 6 0"
  define s1 where "s1 = ?s0\<lparr>st_lidar := (st_lidar ?s0)\<lparr>gl_allDataValue := [q]\<rparr>\<rparr>"
  have q: "take 1206 q = ?d" "\<not> is_dev_packet q" using torn_plain(1,2) by (simp_all add: q_def is_dev_packet_def nth_append)
  have recv: "stream_step (Data_recv (Recv ?d)) ?s0 = Some s1"
    using torn_plain(1,2) q(2) sample_ls_props
    by (auto simp: getDataSock_def sock_pass_def CollectionDataArrive_def Let_def stream_start_def LidarStart_def s1_def q_def ls_new_def)
  have inv1: "dec_inv s1" using start_inv [of sample_ls] sample_ls_props
    by (simp add: stream_inv_def dec_inv_def s1_def idle_receiver_def) (simp add: sample_ls_def ls_new_def stream_start_def)
  define s2 where "s2 = s1\<lparr>st_lidar := begin_packet ?d ((st_lidar s1)\<lparr>gl_allDataValue := []\<rparr>), st_dec := D_Blocks ?d (packet_blocks ?d)\<rparr>"
  have step2: "decode_step s1 = Some s2"
    using torn_plain(1) q(1) by (simp add: decode_step_def Let_def s2_def) (simp add: s1_def stream_start_def)
  have inv2: "dec_inv s2" using decode_step_ok [OF inv1] step2 by (auto simp: decode_ok_def)
  have "gl_Get (st_lidar s2) = []" "gl_DistanceIsNotZero (st_lidar s2) = 0" "gl_callback (st_lidar s2)" "ls_StackFrame (st_lidar s2) = 1"
    "gl_calls (st_lidar s2) = []" "st_app s2 = A_Idle" "st_polled s2 = []"
    using torn_plain(4)
    by (simp_all add: s2_def s1_def stream_start_def begin_packet_def LidarStart_def sample_ls_def ls_new_def Let_def)
  moreover have "st_dec s2 = D_Blocks ?d (packet_blocks ?d)" by (simp add: s2_def)
  moreover have "stream_run [Data_recv (Recv ?d), Decode] ?s0 = Some s2"
    unfolding stream_run.simps recv option.case using step2 by simp
  ultimately show ?thesis using inv2 by blast
qed

text \<open>Measurements and a marker, from any state of the block loop: the frame is judged by their number.\<close>

lemma measured_frame:
  assumes "dec_inv s" "st_dec s = D_Blocks d (js @ i # is)" "list_all (\<lambda>i. \<not> is_marker d i \<and> 0 < raw_distance d (i + 4)) js"
    "\<not> is_double d" "gl_DistanceIsNotZero (st_lidar s) = 0" "length js \<le> 30" "gl_Get (st_lidar s) = []" "is_marker d i"
    "gl_callback (st_lidar s)" "ls_StackFrame (st_lidar s) = 1"
  shows "\<exists>f s'. stream_run (replicate (length js + 1) Decode) s = Some s' \<and> dec_inv s' \<and> st_dec s' = D_Publish d is
     \<and> length f = length js \<and> gl_Get (st_lidar s') = f \<and> gl_isSuccessfulFlag (st_lidar s') = Some (20 \<le> length js)
     \<and> map (\<lambda>(f, fl, _). (f, fl)) (gl_calls (st_lidar s'))
         = map (\<lambda>(f, fl, _). (f, fl)) (gl_calls (st_lidar s)) @ [(f, Some (20 \<le> length js))]
     \<and> gl_Per (st_lidar s') = gl_Per (st_lidar s) \<and> gl_isFrameOK (st_lidar s') = gl_isFrameOK (st_lidar s)
     \<and> gl_DistanceIsNotZero (st_lidar s') = 0 \<and> gl_callback (st_lidar s') \<and> ls_StackFrame (st_lidar s') = 1
     \<and> st_app s' = st_app s \<and> st_polled s' = st_polled s"
proof -
  obtain s1 where s1: "stream_run (replicate (length js) Decode) s = Some s1" "dec_inv s1" "st_dec s1 = D_Blocks d (i # is)" "outside s s1"
    "gl_DistanceIsNotZero (st_lidar s1) = int (length js)" "length (gl_Get (st_lidar s1)) = length js"
    using plain_steps [OF assms(1,2,3,4)] assms(5,6,7) by auto
  have o1: "ls_StackFrame (st_lidar s1) = 1" "gl_callback (st_lidar s1)" using s1(4) assms(9,10) by (simp_all add: outside_def Let_def)
  define s2 where "s2 = s1\<lparr>st_lidar := send_status ((st_lidar s1)\<lparr>ls_count := 1\<rparr>), st_dec := D_Publish d is\<rparr>"
  have step: "decode_step s1 = Some s2" unfolding s2_def by (rule marker_step [OF s1(2,3) assms(8) o1(1)])
  have "dec_inv s2" using decode_step_ok [OF s1(2)] step by (auto simp: decode_ok_def)
  then show ?thesis
    using decode_replicate_append [OF s1(1) decode_once [OF step]] s1(4-6) o1
    by (intro exI [of _ "gl_Get (st_lidar s1)"] exI [of _ s2]) (simp add: s2_def status_judges outside_def Let_def)
qed

text \<open>
  The flag \<open>isSuccessfulFlag\<close> is a member of its own. If the application takes a frame after the
  decoder has judged the next one and before it has published it, the application gets the old frame with the judgement of the
  new one: here a frame that was reported as a data error is taken as good.
\<close>

theorem flag_of_next_frame:
  "\<exists>ops s f g. list_all fits ops \<and> stream_run ops (stream_start (ls_new sample_ls)) = Some s
     \<and> map (\<lambda>(fr, fl, _). (fr, fl)) (gl_calls (st_lidar s)) = [(f, Some False), (g, Some True)]
     \<and> map (\<lambda>(fl, fr, _). (fr, fl)) (st_polled s) = [(Some f, Some True)] \<and> length f = 1 \<and> length g = 20"
proof -
  let ?js = "map (\<lambda>k. 16 + 8 * k) [0..<20]" and ?is = "map (\<lambda>k. 8 * k) [23..<149]"
  let ?call = "\<lambda>(fr, fl, _). (fr, fl)"
  obtain s1 where s1: "stream_run [Data_recv (Recv torn_packet), Decode] (stream_start (ls_new sample_ls)) = Some s1" "dec_inv s1"
    "st_dec s1 = D_Blocks torn_packet (packet_blocks torn_packet)" "gl_Get (st_lidar s1) = []" "gl_DistanceIsNotZero (st_lidar s1) = 0"
    "gl_callback (st_lidar s1)" "ls_StackFrame (st_lidar s1) = 1" "gl_calls (st_lidar s1) = []" "st_app s1 = A_Idle" "st_polled s1 = []"
    using torn_start by blast
  have b1: "st_dec s1 = D_Blocks torn_packet ([0] @ 8 # ?js @ 176 # ?is)" using s1(3) torn_packet_blocks by simp
  have "list_all (\<lambda>i. \<not> is_marker torn_packet i \<and> 0 < raw_distance torn_packet (i + 4)) [0]" using torn_plain(5,6) by simp
  from measured_frame [OF s1(2) b1 this torn_plain(3) s1(5) _ s1(4) torn_plain(7) s1(6,7)] obtain f s2 where s2:
    "stream_run (replicate 2 Decode) s1 = Some s2" "dec_inv s2" "st_dec s2 = D_Publish torn_packet (?js @ 176 # ?is)"
    "length f = 1" "gl_Get (st_lidar s2) = f" "map ?call (gl_calls (st_lidar s2)) = [(f, Some False)]"
    "gl_DistanceIsNotZero (st_lidar s2) = 0" "gl_callback (st_lidar s2)" "ls_StackFrame (st_lidar s2) = 1"
    "st_app s2 = A_Idle" "st_polled s2 = []"
    using s1(8-10) by (auto simp: numeral_2_eq_2)
  obtain s3 where s3: "decode_step s2 = Some s3" "dec_inv s3" using decode_step_ok [OF s2(2)] by (auto simp: decode_ok_def)
  then have e3: "st_lidar s3 = publish_frame (st_lidar s2)" "st_dec s3 = D_Blocks torn_packet (?js @ 176 # ?is)"
    "st_app s3 = A_Idle" "st_polled s3 = []" using publish_step [OF s2(3)] s2(10,11) by auto
  then have p3: "gl_DistanceIsNotZero (st_lidar s3) = 0" "gl_Get (st_lidar s3) = []" "gl_callback (st_lidar s3)" "ls_StackFrame (st_lidar s3) = 1"
    "gl_calls (st_lidar s3) = gl_calls (st_lidar s2)" "gl_Per (st_lidar s3) = Some f" "gl_isFrameOK (st_lidar s3)"
    using s2(5,7-9) by (simp_all add: publish_frame_def send_publish_def)
  from measured_frame [OF s3(2) e3(2) torn_blocks torn_plain(3) p3(1) _ p3(2) torn_plain(8) p3(3,4)] obtain g s4 where s4:
    "stream_run (replicate 21 Decode) s3 = Some s4" "length g = 20" "gl_isSuccessfulFlag (st_lidar s4) = Some True"
    "map ?call (gl_calls (st_lidar s4)) = [(f, Some False), (g, Some True)]" "gl_Per (st_lidar s4) = Some f"
    "gl_isFrameOK (st_lidar s4)" "st_app s4 = A_Idle" "st_polled s4 = []"
    using p3(5-7) s2(6) e3(3,4) by (auto simp del: replicate.simps replicate_numeral)
  define s5 where "s5 = poll_step (poll_step s4)"
  have polled: "map (\<lambda>(fl, fr, _). (fr, fl)) (st_polled s5) = [(Some f, Some True)]" "gl_calls (st_lidar s5) = gl_calls (st_lidar s4)"
    using s4(3,5-8) by (simp_all add: s5_def poll_step_def getLidarPerFrameDate_def)
  let ?ops = "[Data_recv (Recv torn_packet), Decode] @ replicate 2 Decode @ replicate 1 Decode @ replicate 21 Decode @ [Poll, Poll]"
  have "stream_run ?ops (stream_start (ls_new sample_ls)) = Some s5"
    unfolding stream_run_append s1(1) s2(1) s4(1) decode_once [OF s3(1)] option.case by (simp add: s5_def)
  moreover have "list_all fits ?ops" using torn_plain(2) by (simp add: list_all_iff)
  ultimately show ?thesis using polled s2(4) s4(2,4) by metis
qed

end
