(* ===== verification/Lidar_Config.thy ===== *)
theory Lidar_Config
  imports Lidar_Point
begin

text \<open>
  The configuration interface of the LS lidars (\<open>include/LSSDK/Include/GetLidarData_LS.cpp\<close>): the state
  read from the last device packet, and the setters that edit the configuration packet the base
  class prepares from it. The address setters of both classes satisfy the contract \<open>ip_setter\<close>.
\<close>

section \<open>Device state and setters\<close>

definition be32 :: "packet \<Rightarrow> nat \<Rightarrow> int" where
  "be32 d i = sint (word_of_int (uint (d ! i) * 2 ^ 24 + uint (d ! (i + 1)) * 2 ^ 16 + uint (d ! (i + 2)) * 2 ^ 8
     + uint (d ! (i + 3))) :: 32 word)"

definition be16 :: "packet \<Rightarrow> nat \<Rightarrow> int" where
  "be16 d i = uint (d ! i) * 2 ^ 8 + uint (d ! (i + 1))"

definition getLidarParamState :: "lidar_state_param \<Rightarrow> lidar_ls \<Rightarrow> bool \<times> string option \<times> lidar_state_param" where
  "getLidarParamState p s =
     (if gl_islidarDevCome s
      then let d = gl_dataDev s;
               p1 = snd (snd (getLidarParamState_base p s));
               motor = real_of_int (be32 d 94)
           in (True, None, p1\<lparr>
                 lp_ReceiverTemperature := real_of_int (be16 d 80) * (61035 / 10 ^ 6) - 50,
                 lp_ReceiverHighVoltage := real_of_int (be16 d 84) * (61035 / 10 ^ 8) * 51 - 25 / 10,
                 lp_MotorSpeed := (if motor < 1 / 10 ^ 6 then 0 else 60 / (motor * (32 / 10 ^ 9))),
                 lp_PTP_State := uint (d ! 86), lp_GPS_State := uint (d ! 92), lp_PPS_State := uint (d ! 93),
                 lp_Clock_Source := uint (d ! 44), lp_StandbyMode := uint (d ! 101),
                 lp_PhaseLockedSwich := uint (d ! 102), lp_PhaseLockedState := uint (d ! 103),
                 lp_RunningTime := real_of_int (be32 d 120) / 60\<rparr>)
      else (False, Some not_updated, p))"

text \<open>A setter of one byte that accepts the values in \<open>allowed\<close>.\<close>

definition set_byte :: "nat \<Rightarrow> int list \<Rightarrow> string \<Rightarrow> int \<Rightarrow> 'a lidar_scheme \<Rightarrow> (bool \<times> string option) \<times> 'a lidar_scheme" where
  "set_byte pos allowed msg v s =
     (let (ok, s1) = setLidarParam s
      in if \<not> ok then ((False, Some not_updated), s1)
         else if v \<notin> set allowed then ((False, Some msg), s1)
         else ((True, None), s1\<lparr>gl_Rest_UCWP_buff := (gl_Rest_UCWP_buff s1)[pos := word_of_int v]\<rparr>))"

definition setLidarRotateSpeed :: "int \<Rightarrow> 'a lidar_scheme \<Rightarrow> (bool \<times> string option) \<times> 'a lidar_scheme" where
  "setLidarRotateSpeed = set_byte 100 [0, 1, 2]
     ''StateValue can only be equal to 0 or 1 or 2, please check the input parameters''"

definition setLidarSoureSelection :: "int \<Rightarrow> 'a lidar_scheme \<Rightarrow> (bool \<times> string option) \<times> 'a lidar_scheme" where
  "setLidarSoureSelection = set_byte 44 [0, 1]
     ''StateValue can only be equal to 0 or 1, please check the input parameters''"

definition setLidarWorkState :: "int \<Rightarrow> 'a lidar_scheme \<Rightarrow> (bool \<times> string option) \<times> 'a lidar_scheme" where
  "setLidarWorkState = set_byte 101 [0, 1]
     ''LidarState can only be equal to 0 or 1, please check the input parameters''"

definition setLidarRotateState :: "int \<Rightarrow> 'a lidar_scheme \<Rightarrow> (bool \<times> string option) \<times> 'a lidar_scheme" where
  "setLidarRotateState v s = ((False, Some ''The Lidar does not support this function (setLidarRotateState)!!''), s)"

definition setGatewayIP :: "string \<Rightarrow> 'a lidar_scheme \<Rightarrow> (bool \<times> string option) \<times> 'a lidar_scheme" where
  "setGatewayIP IPString s =
     (if \<not> ipv4_match IPString then ((False, Some bad_ip_format), s)
      else let (ok, s1) = setLidarParam s
           in if \<not> ok then ((False, Some not_updated), s1)
              else let IP_result = ip_result IPString
                   in if length IP_result < 4
                      then ((False, Some ''Please enter the full Gateway IP address!!! Failed to set the Gateway IP address!!!''), s1)
                      else if length IP_result = 4 \<and> IP_result ! 3 = []
                      then ((False, Some ''Please enter the full Gateway IP address!!!Failed to set the Gateway IP address!!!''), s1)
                      else ((True, None), write_ip 32 IP_result s1))"

definition setSubnetMaskIP :: "string \<Rightarrow> 'a lidar_scheme \<Rightarrow> (bool \<times> string option) \<times> 'a lidar_scheme" where
  "setSubnetMaskIP IPString s =
     (if \<not> ipv4_match IPString then ((False, Some bad_ip_format), s)
      else let (ok, s1) = setLidarParam s
           in if \<not> ok then ((False, Some not_updated), s1)
              else let IP_result = ip_result IPString
                   in if length IP_result < 4
                      then ((False, Some ''Please enter the full Subnet Mask IP address!!! Failed to set the  Subnet Mask IP address!!!''), s1)
                      else if length IP_result = 4 \<and> IP_result ! 3 = []
                      then ((False, Some ''Please enter the full  Subnet Mask IP address!!!Failed to set the  Subnet Mask IP address!!!''), s1)
                      else ((True, None), write_ip 36 IP_result s1))"

section \<open>The address setters\<close>

interpretation gateway_ip: ip_setter setGatewayIP 32 "\<lambda>_ _. True"
  by unfold_locales (auto simp: setGatewayIP_def Let_def)

interpretation subnet_ip: ip_setter setSubnetMaskIP 36 "\<lambda>_ _. True"
  by unfold_locales (auto simp: setSubnetMaskIP_def Let_def)

text \<open>
  C25: addresses survive the configuration packet. When a device packet is known, each of the four
  address setters accepts the dotted text of exactly the allowed addresses (all of them for gateway
  and subnet mask), and the four bytes it writes print as that text again; no other byte of the
  prepared packet changes. A text that is not an address is refused without any effect.
\<close>

theorem ip_setters_roundtrip:
  fixes s :: "'a lidar_scheme"
  assumes "setLidarParam s = (True, s1)" "length (gl_Rest_UCWP_buff s1) = 1206" "t = dotted_ip a b c d"
    "(set_ip, pos, allowed) \<in> {(setLidarIP, 10, lidar_ip_allowed), (setComputerIP, 14, dest_ip_allowed),
       (setGatewayIP, 32, \<lambda>_ _. True), (setSubnetMaskIP, 36, \<lambda>_ _. True)}"
  shows "fst (fst (set_ip t s)) = allowed (unat a) (unat d)
     \<and> (allowed (unat a) (unat d) \<longrightarrow> ip_string (gl_Rest_UCWP_buff (snd (set_ip t s))) pos = t)
     \<and> (\<forall>i. i < pos \<or> pos + 3 < i \<longrightarrow> gl_Rest_UCWP_buff (snd (set_ip t s)) ! i = gl_Rest_UCWP_buff s1 ! i)
     \<and> (\<not> ipv4_match u \<longrightarrow> \<not> fst (fst (set_ip u s)) \<and> snd (set_ip u s) = s)"
  using assms(4) unfolding assms(3)
  by (elim insertE emptyE)
    (simp_all add: lidar_ip.set_dotted [OF assms(1,2)] computer_ip.set_dotted [OF assms(1,2)]
      gateway_ip.set_dotted [OF assms(1,2)] subnet_ip.set_dotted [OF assms(1,2)]
      lidar_ip.rejects computer_ip.rejects gateway_ip.rejects subnet_ip.rejects)

theorem ip_setters_roundtrip_witness:
  "let r = setLidarIP ''192.168.1.201'' sample_ls
   in fst (fst r) \<and> ip_string (gl_Rest_UCWP_buff (snd r)) 10 = ''192.168.1.201'' \<and> fst (fst (setLidarIP ''10.0.0'' sample_ls)) = False"
proof -
  obtain s1 where s1: "setLidarParam sample_ls = (True, s1)" "length (gl_Rest_UCWP_buff s1) = 1206"
    by (simp add: setLidarParam_def sample_ls_props ucwp_header_def zero_range_def)
  have t: "''192.168.1.201'' = dotted_ip 192 168 1 201"
    by (simp add: dotted_ip_def byte_string_def digit_char_def Let_def)
  have "\<not> ipv4_match ''10.0.0''" by (simp add: ipv4_match_def)
  then show ?thesis
    using ip_setters_roundtrip [OF s1 t, of setLidarIP 10 lidar_ip_allowed "''10.0.0''"] by (simp add: lidar_ip_allowed_def)
qed

end
