(* ===== verification/Lidar_Base.thy ===== *)
theory Lidar_Base
  imports Lidar_Sdk
begin

text \<open>
  The rest of the class \<open>GetLidarData\<close> (\<open>include/LSSDK/Include/GetLidarData.cpp\<close>): its sockets, on Linux, and the
  operations that it only declares unsupported. The kernel is represented by the descriptors it
  has handed out, those still open, and the calls made; whether a call succeeds is an argument.
\<close>

section \<open>Descriptors\<close>

text \<open>The descriptor of a failed \<open>socket\<close> is \<open>None\<close>.\<close>

datatype sock_call =
    Socket "nat option"
  | Set_rcvbuf "nat option" int
  | Add_membership "nat option" string
  | Bind "nat option" string int
  | Set_rcvtimeo "nat option" int
  | Send_to "nat option" packet string int
  | Close "nat option"

record sockets =
  sk_next :: nat
  sk_open :: "nat list"
  sk_calls :: "sock_call list"

definition sys_socket :: "bool \<Rightarrow> sockets \<Rightarrow> nat option \<times> sockets" where
  "sys_socket ok k =
     (if ok then (Some (sk_next k), k\<lparr>sk_next := sk_next k + 1, sk_open := sk_open k @ [sk_next k],
                                      sk_calls := sk_calls k @ [Socket (Some (sk_next k))]\<rparr>)
      else (None, k\<lparr>sk_calls := sk_calls k @ [Socket None]\<rparr>))"

definition sys_close :: "nat option \<Rightarrow> sockets \<Rightarrow> sockets" where
  "sys_close fd k = k\<lparr>sk_open := filter (\<lambda>d. Some d \<noteq> fd) (sk_open k), sk_calls := sk_calls k @ [Close fd]\<rparr>"

section \<open>The receiving threads\<close>

text \<open>
  \<open>getDataSock\<close> and \<open>getDevSock\<close> up to their loops: the variable \<open>m_sock\<close> is assigned twice. The loops leave
  by \<open>break\<close> and the functions return without closing a descriptor.
\<close>

definition open_data_sock :: "bool \<Rightarrow> bool \<Rightarrow> 'a lidar_scheme \<Rightarrow> sockets \<Rightarrow> nat option \<times> sockets" where
  "open_data_sock ok1 ok2 s k =
     (case sys_socket ok1 k of (first, k1) \<Rightarrow>
      case sys_socket ok2 k1 of (m_sock, k2) \<Rightarrow>
        (m_sock, k2\<lparr>sk_calls := sk_calls k2 @ [Set_rcvbuf m_sock (10 * 1024 * 1024), Add_membership m_sock (gl_groupIp s),
           Bind m_sock (gl_computerIP s) (gl_dataPort s), Set_rcvtimeo m_sock 2]\<rparr>))"

definition open_dev_sock :: "bool \<Rightarrow> bool \<Rightarrow> 'a lidar_scheme \<Rightarrow> sockets \<Rightarrow> nat option \<times> sockets" where
  "open_dev_sock ok1 ok2 s k =
     (case sys_socket ok1 k of (first, k1) \<Rightarrow>
      case sys_socket ok2 k1 of (m_sock, k2) \<Rightarrow>
        (m_sock, k2\<lparr>sk_calls := sk_calls k2 @ [Add_membership m_sock (gl_groupIp s),
           Bind m_sock (gl_computerIP s) (gl_devPort s), Set_rcvtimeo m_sock 5]\<rparr>))"

section \<open>Sending\<close>

definition sendPacketToLidar :: "bool \<Rightarrow> bool \<Rightarrow> packet \<Rightarrow> string \<Rightarrow> int \<Rightarrow> 'a lidar_scheme \<times> sockets \<Rightarrow> bool \<times> 'a lidar_scheme \<times> sockets" where
  "sendPacketToLidar ok sent packet ip_data portNum sk =
     (case sys_socket ok (snd sk) of (socketid, k1) \<Rightarrow>
        let k2 = k1\<lparr>sk_calls := sk_calls k1 @ [Send_to socketid packet ip_data portNum]\<rparr>
        in if sent \<and> socketid \<noteq> None
           then (True, (fst sk)\<lparr>gl_isSendUDP := True\<rparr>, sys_close socketid k2)
           else (False, fst sk, k2))"

text \<open>It refines \<open>sendPackUDP\<close>, which leaves the sockets out.\<close>

lemma sendPacketToLidar_refines:
  assumes "sendPacketToLidar ok sent (gl_Rest_UCWP_buff s) (gl_ip_sa s) 2368 (s, k) = (r, s', k')"
  shows "\<exists>p. sendPackUDP (ok \<and> sent) s = (r, p, s')"
  using assms by (auto simp: sendPacketToLidar_def sendPackUDP_def sys_socket_def Let_def split: if_splits)

datatype net_op = Data_thread bool bool | Dev_thread bool bool | Send_packet bool bool packet string int

fun net_step :: "'a lidar_scheme \<times> sockets \<Rightarrow> net_op \<Rightarrow> 'a lidar_scheme \<times> sockets" where
  "net_step (s, k) (Data_thread ok1 ok2) = (s, snd (open_data_sock ok1 ok2 s k))"
| "net_step (s, k) (Dev_thread ok1 ok2) = (s, snd (open_dev_sock ok1 ok2 s k))"
| "net_step (s, k) (Send_packet ok sent p ip port) = snd (sendPacketToLidar ok sent p ip port (s, k))"

text \<open>The descriptors an operation leaves open for good.\<close>

fun leaked :: "net_op \<Rightarrow> nat" where
  "leaked (Data_thread ok1 ok2) = of_bool ok1 + of_bool ok2"
| "leaked (Dev_thread ok1 ok2) = of_bool ok1 + of_bool ok2"
| "leaked (Send_packet ok sent _ _ _) = of_bool (ok \<and> \<not> sent)"

definition sockets_ok :: "sockets \<Rightarrow> bool" where
  "sockets_ok k \<longleftrightarrow> (\<forall>d\<in>set (sk_open k). d < sk_next k)"

lemma sys_socket_ok:
  assumes "sys_socket ok k = (fd, k')" "sockets_ok k"
  shows "sockets_ok k'" "length (sk_open k') = length (sk_open k) + of_bool ok" "fd \<noteq> None \<longleftrightarrow> ok"
    "length (sk_open (sys_close fd (k'\<lparr>sk_calls := cs\<rparr>))) = length (sk_open k)"
proof -
  have "filter (\<lambda>d. d \<noteq> sk_next k) (sk_open k) = sk_open k" using assms(2) by (auto simp: sockets_ok_def filter_id_conv)
  moreover have "\<forall>d\<in>set (sk_open k). d < Suc (sk_next k)" using assms(2) less_SucI unfolding sockets_ok_def by blast
  ultimately show "sockets_ok k'" "length (sk_open k') = length (sk_open k) + of_bool ok" "fd \<noteq> None \<longleftrightarrow> ok"
    "length (sk_open (sys_close fd (k'\<lparr>sk_calls := cs\<rparr>))) = length (sk_open k)"
    using assms by (auto simp: sys_socket_def sys_close_def sockets_ok_def split: if_splits)
qed

lemma net_step_leaks:
  assumes "sockets_ok (snd sk)"
  shows "sockets_ok (snd (net_step sk a)) \<and> length (sk_open (snd (net_step sk a))) = length (sk_open (snd sk)) + leaked a"
proof -
  obtain s k where sk: "sk = (s, k)" by force
  have ok: "sockets_ok k" using assms by (simp add: sk)
  have two: "sockets_ok k2 \<and> length (sk_open k2) = length (sk_open k) + of_bool ok1 + of_bool ok2"
    if "sys_socket ok1 k = (d1, k1)" "sys_socket ok2 k1 = (d2, k2)" for ok1 ok2 d1 d2 k1 k2
    using sys_socket_ok [OF that(1) ok] sys_socket_ok [OF that(2)] by simp
  have calls: "sockets_ok (j\<lparr>sk_calls := cs\<rparr>) = sockets_ok j" for j cs by (simp add: sockets_ok_def)
  show ?thesis
  proof (cases a)
    case (Data_thread ok1 ok2)
    then show ?thesis using two by (auto simp: sk open_data_sock_def calls split: prod.splits)
  next
    case (Dev_thread ok1 ok2)
    then show ?thesis using two by (auto simp: sk open_dev_sock_def calls split: prod.splits)
  next
    case (Send_packet ok1 sent p ip port)
    obtain fd k1 where k1: "sys_socket ok1 k = (fd, k1)" by force
    note s1 = sys_socket_ok [OF k1 ok]
    have "sockets_ok (sys_close fd (k1\<lparr>sk_calls := cs\<rparr>))" for cs using s1(1) by (auto simp: sockets_ok_def sys_close_def)
    then show ?thesis
      using Send_packet s1 by (auto simp: sk sendPacketToLidar_def k1 Let_def calls)
  qed
qed

text \<open>
  The sockets of the lidar SDK leak. Whatever the order of its operations: every start of a
  receiving thread leaves its two descriptors open for good, the first of them unused, and so does every
  packet that could not be sent; a packet that was sent closes its own. The number of open descriptors is the
  number at the beginning plus these.
\<close>

theorem descriptors_leak:
  assumes "sockets_ok k"
  shows "length (sk_open (snd (foldl net_step (s, k) ops))) = length (sk_open k) + sum_list (map leaked ops)"
proof -
  have "sockets_ok (snd sk) \<Longrightarrow> length (sk_open (snd (foldl net_step sk ops))) = length (sk_open (snd sk)) + sum_list (map leaked ops)"
    for sk :: "'a lidar_scheme \<times> sockets"
    by (induction ops arbitrary: sk) (simp_all add: net_step_leaks)
  from this [of "(s, k)"] show ?thesis using assms by simp
qed

definition no_sockets :: sockets where
  "no_sockets = \<lparr>sk_next = 3, sk_open = [0, 1, 2], sk_calls = []\<rparr>"

theorem descriptors_leak_witness:
  "length (sk_open (snd (foldl net_step (undefined :: lidar, no_sockets)
     [Data_thread True True, Dev_thread True True, Send_packet True True [] [] 2368, Send_packet True False [] [] 2368]))) = 8"
proof -
  have "sockets_ok no_sockets" by (simp add: sockets_ok_def no_sockets_def)
  from descriptors_leak [OF this, of "undefined :: lidar" "[Data_thread True True, Dev_thread True True,
      Send_packet True True [] [] 2368, Send_packet True False [] [] 2368]"]
  show ?thesis by (simp del: net_step.simps foldl.simps add: no_sockets_def)
qed

section \<open>Unsupported operations\<close>

definition unsupported :: "string \<Rightarrow> string" where
  "unsupported name = ''This version of Lidar does not support '' @ [CHR 0x27] @ name @ ''()'' @ [CHR 0x27] @ ''!!!''"

definition sendSecondIP :: "int \<Rightarrow> 'a lidar_scheme \<Rightarrow> (bool \<times> string option) \<times> 'a lidar_scheme" where
  "sendSecondIP switchIP s = ((False, Some (unsupported ''sendSecondIP'')), s)"

definition sendSecondCueLight :: "int \<Rightarrow> 'a lidar_scheme \<Rightarrow> (bool \<times> string option) \<times> 'a lidar_scheme" where
  "sendSecondCueLight switchIP s = ((False, Some (unsupported ''sendSecondCueLight'')), s)"

definition setGatewayIP_base :: "string \<Rightarrow> 'a lidar_scheme \<Rightarrow> (bool \<times> string option) \<times> 'a lidar_scheme" where
  "setGatewayIP_base IPString s = ((False, Some (unsupported ''setGatewayIP'')), s)"

definition setSubnetMaskIP_base :: "string \<Rightarrow> 'a lidar_scheme \<Rightarrow> (bool \<times> string option) \<times> 'a lidar_scheme" where
  "setSubnetMaskIP_base IPString s = ((False, Some (unsupported ''setSubnetMaskIP'')), s)"

definition setLidarRotateState_base :: "int \<Rightarrow> 'a lidar_scheme \<Rightarrow> (bool \<times> string option) \<times> 'a lidar_scheme" where
  "setLidarRotateState_base RotateState s = ((False, Some (unsupported ''setLidarRotateState'')), s)"

definition setLidarSoureSelection_base :: "int \<Rightarrow> 'a lidar_scheme \<Rightarrow> (bool \<times> string option) \<times> 'a lidar_scheme" where
  "setLidarSoureSelection_base StateValue s = ((False, Some (unsupported ''setLidarSoureSelection'')), s)"

definition setLidarWorkState_base :: "int \<Rightarrow> 'a lidar_scheme \<Rightarrow> (bool \<times> string option) \<times> 'a lidar_scheme" where
  "setLidarWorkState_base LidarState s = ((False, Some (unsupported ''setLidarWorkState'')), s)"

text \<open>For recorded data, only the decoding thread is started.\<close>

definition LidarOfflineDataStar :: "'a lidar_scheme \<Rightarrow> 'a lidar_scheme" where
  "LidarOfflineDataStar s = s\<lparr>gl_isQuit := False\<rparr>"

end
