(* ===== verification/Clouds.thy ===== *)
theory Clouds
  imports Cbyd_Prelude
begin

text \<open>
  Points, clouds and rigid motions, as the sources get them from PCL and Eigen. A point
  (\<open>pcl::PointXYZ\<close>, also \<open>Eigen::Vector3f\<close>) is a triple of coordinates and a cloud the list of
  its points. Eigen's affine transforms are not part of the repository: the operations the
  sources call are the record \<open>eigen\<close> over an unspecified type of transforms, an argument of the
  definitions that use it; \<open>eigen_law\<close> states what Eigen documents of them, and \<open>motion_eigen\<close>
  is an implementation that satisfies it.
\<close>

section \<open>Points\<close>

record pointT =
  px :: real
  py :: real
  pz :: real

type_synonym cloud = "pointT list"

definition origin :: pointT where
  "origin = \<lparr>px = 0, py = 0, pz = 0\<rparr>"

definition pt_add :: "pointT \<Rightarrow> pointT \<Rightarrow> pointT" where
  "pt_add p q = \<lparr>px = px p + px q, py = py p + py q, pz = pz p + pz q\<rparr>"

definition pt_sub :: "pointT \<Rightarrow> pointT \<Rightarrow> pointT" where
  "pt_sub p q = \<lparr>px = px p - px q, py = py p - py q, pz = pz p - pz q\<rparr>"

definition pt_scale :: "real \<Rightarrow> pointT \<Rightarrow> pointT" where
  "pt_scale k p = \<lparr>px = k * px p, py = k * py p, pz = k * pz p\<rparr>"

text \<open>The squared distance, as the sources write it out.\<close>

definition dist_sq :: "pointT \<Rightarrow> pointT \<Rightarrow> real" where
  "dist_sq p q = (px p - px q) * (px p - px q) + (py p - py q) * (py p - py q)
     + (pz p - pz q) * (pz p - pz q)"

lemma pt_simps [simp]:
  "px (pt_add p q) = px p + px q" "py (pt_add p q) = py p + py q" "pz (pt_add p q) = pz p + pz q"
  "px (pt_sub p q) = px p - px q" "py (pt_sub p q) = py p - py q" "pz (pt_sub p q) = pz p - pz q"
  "px (pt_scale k p) = k * px p" "py (pt_scale k p) = k * py p" "pz (pt_scale k p) = k * pz p"
  by (simp_all add: pt_add_def pt_sub_def pt_scale_def)

lemma pointT_eqI: "px p = px q \<Longrightarrow> py p = py q \<Longrightarrow> pz p = pz q \<Longrightarrow> p = (q::pointT)"
  by simp

section \<open>Rotations about the axes\<close>

datatype axis = UnitX | UnitY | UnitZ

text \<open>The right-handed rotation \<open>Eigen::AngleAxisf\<close> denotes for the three unit axes.\<close>

fun rot_axis :: "real \<Rightarrow> axis \<Rightarrow> pointT \<Rightarrow> pointT" where
  "rot_axis t UnitX p = \<lparr>px = px p, py = cos t * py p - sin t * pz p, pz = sin t * py p + cos t * pz p\<rparr>"
| "rot_axis t UnitY p = \<lparr>px = cos t * px p + sin t * pz p, py = py p, pz = cos t * pz p - sin t * px p\<rparr>"
| "rot_axis t UnitZ p = \<lparr>px = cos t * px p - sin t * py p, py = sin t * px p + cos t * py p, pz = pz p\<rparr>"

lemma unrotate:
  "cos t * (cos t * a - sin t * b) + sin t * (sin t * a + cos t * b) = (a::real)"
  "cos t * (sin t * a + cos t * b) - sin t * (cos t * a - sin t * b) = (b::real)"
proof -
  have sq: "cos t * cos t = 1 - sin t * sin t"
    using sin_cos_squared_add [of t] by (simp add: power2_eq_square)
  have "cos t * (cos t * a - sin t * b) + sin t * (sin t * a + cos t * b)
      = (cos t * cos t) * a + (sin t * sin t) * a" by (simp add: algebra_simps)
  then show "cos t * (cos t * a - sin t * b) + sin t * (sin t * a + cos t * b) = a"
    by (simp add: sq algebra_simps)
  have "cos t * (sin t * a + cos t * b) - sin t * (cos t * a - sin t * b)
      = (cos t * cos t) * b + (sin t * sin t) * b" by (simp add: algebra_simps)
  then show "cos t * (sin t * a + cos t * b) - sin t * (cos t * a - sin t * b) = b"
    by (simp add: sq algebra_simps)
qed

lemma rot_axis_inverse: "rot_axis (- t) ax (rot_axis t ax p) = p"
  using unrotate [of t] by (cases ax) (simp_all add: algebra_simps)

lemma rot_axis_inverse2: "rot_axis t ax (rot_axis (- t) ax p) = p"
  using rot_axis_inverse [of "- t"] by simp

lemma rot_axis_origin [simp]: "rot_axis t ax origin = origin"
  by (cases ax) (simp_all add: origin_def)

lemma rotate_sq: "(cos t * a - sin t * b) * (cos t * a - sin t * b)
    + (sin t * a + cos t * b) * (sin t * a + cos t * b) = a * a + b * (b::real)"
proof -
  have "(c * a - s * b) * (c * a - s * b) + (s * a + c * b) * (s * a + c * b)
      = (s * s + c * c) * (a * a + b * b)" for s c :: real
    by (simp add: algebra_simps)
  from this [of "cos t" "sin t"] show ?thesis
    using sin_cos_squared_add [of t] by (simp add: power2_eq_square)
qed

lemma rot_axis_dist_sq [simp]: "dist_sq (rot_axis t ax p) (rot_axis t ax q) = dist_sq p q"
proof (cases ax)
  case UnitX
  then show ?thesis using rotate_sq [of t "py p - py q" "pz p - pz q"] by (simp add: dist_sq_def algebra_simps)
next
  case UnitY
  then show ?thesis using rotate_sq [of t "pz p - pz q" "px p - px q"] by (simp add: dist_sq_def algebra_simps)
next
  case UnitZ
  then show ?thesis using rotate_sq [of t "px p - px q" "py p - py q"] by (simp add: dist_sq_def algebra_simps)
qed

definition unit_vec :: "nat \<Rightarrow> pointT" where
  "unit_vec j = \<lparr>px = (if j = 0 then 1 else 0), py = (if j = 1 then 1 else 0), pz = (if j = 2 then 1 else 0)\<rparr>"

definition coord :: "nat \<Rightarrow> pointT \<Rightarrow> real" where
  "coord i p = (if i = 0 then px p else if i = 1 then py p else pz p)"

section \<open>What the sources use of Eigen\<close>

text \<open>
  \<open>eg_apply\<close> is the action of a transform on a point, \<open>eg_rotation\<close> the entries of
  \<open>rotation()\<close>, \<open>eg_rotate t ax\<close> the member function \<open>rotate(AngleAxisf(t, ax))\<close>, which
  multiplies on the right, and \<open>eg_rigid\<close> holds of the rigid motions, for which \<open>inverse()\<close>
  inverts the action and \<open>rotation()\<close> is the linear part.
\<close>

record 'm eigen =
  eg_identity :: 'm
  eg_set_translation :: "pointT \<Rightarrow> 'm \<Rightarrow> 'm"
  eg_rotate :: "real \<Rightarrow> axis \<Rightarrow> 'm \<Rightarrow> 'm"
  eg_mult :: "'m \<Rightarrow> 'm \<Rightarrow> 'm"
  eg_inverse :: "'m \<Rightarrow> 'm"
  eg_rotation :: "'m \<Rightarrow> nat \<Rightarrow> nat \<Rightarrow> real"
  eg_translation :: "'m \<Rightarrow> pointT"
  eg_apply :: "'m \<Rightarrow> pointT \<Rightarrow> pointT"
  eg_rigid :: "'m \<Rightarrow> bool"

definition eigen_law :: "'m eigen \<Rightarrow> bool" where
  "eigen_law E \<longleftrightarrow>
     (\<forall>p. eg_apply E (eg_identity E) p = p)
   \<and> (\<forall>t m p. eg_apply E (eg_set_translation E t m) p
        = pt_add (pt_sub (eg_apply E m p) (eg_apply E m origin)) t)
   \<and> (\<forall>a ax m p. eg_apply E (eg_rotate E a ax m) p = eg_apply E m (rot_axis a ax p))
   \<and> (\<forall>m n p. eg_apply E (eg_mult E m n) p = eg_apply E m (eg_apply E n p))
   \<and> (\<forall>m p. eg_rigid E m \<longrightarrow> eg_apply E m (eg_apply E (eg_inverse E m) p) = p
        \<and> eg_apply E (eg_inverse E m) (eg_apply E m p) = p)
   \<and> (\<forall>m. eg_translation E m = eg_apply E m origin)
   \<and> eg_rigid E (eg_identity E)
   \<and> (\<forall>t m. eg_rigid E m \<longrightarrow> eg_rigid E (eg_set_translation E t m))
   \<and> (\<forall>a ax m. eg_rigid E m \<longrightarrow> eg_rigid E (eg_rotate E a ax m))
   \<and> (\<forall>m n. eg_rigid E m \<longrightarrow> eg_rigid E n \<longrightarrow> eg_rigid E (eg_mult E m n))
   \<and> (\<forall>m. eg_rigid E m \<longrightarrow> eg_rigid E (eg_inverse E m))
   \<and> (\<forall>m i j. eg_rigid E m \<longrightarrow> i < 3 \<longrightarrow> j < 3 \<longrightarrow>
        eg_rotation E m i j = coord i (pt_sub (eg_apply E m (unit_vec j)) (eg_apply E m origin)))"

lemma eigen_lawD:
  assumes "eigen_law E"
  shows "eg_apply E (eg_identity E) p = p"
    "eg_apply E (eg_set_translation E t m) p = pt_add (pt_sub (eg_apply E m p) (eg_apply E m origin)) t"
    "eg_apply E (eg_rotate E a ax m) p = eg_apply E m (rot_axis a ax p)"
    "eg_apply E (eg_mult E m n) p = eg_apply E m (eg_apply E n p)"
    "eg_rigid E m \<Longrightarrow> eg_apply E m (eg_apply E (eg_inverse E m) p) = p"
    "eg_rigid E m \<Longrightarrow> eg_apply E (eg_inverse E m) (eg_apply E m p) = p"
    "eg_translation E m = eg_apply E m origin"
    "eg_rigid E (eg_identity E)"
    "eg_rigid E m \<Longrightarrow> eg_rigid E (eg_set_translation E t m)"
    "eg_rigid E m \<Longrightarrow> eg_rigid E (eg_rotate E a ax m)"
    "eg_rigid E m \<Longrightarrow> eg_rigid E n \<Longrightarrow> eg_rigid E (eg_mult E m n)"
    "eg_rigid E m \<Longrightarrow> eg_rigid E (eg_inverse E m)"
    "eg_rigid E m \<Longrightarrow> i < 3 \<Longrightarrow> j < 3 \<Longrightarrow>
       eg_rotation E m i j = coord i (pt_sub (eg_apply E m (unit_vec j)) (eg_apply E m origin))"
  using assms unfolding eigen_law_def by (elim conjE, simp)+

text \<open>
  An implementation: a transform is the pair of its action and the inverse action.
\<close>

type_synonym motion = "(pointT \<Rightarrow> pointT) \<times> (pointT \<Rightarrow> pointT)"

definition motion_rigid :: "motion \<Rightarrow> bool" where
  "motion_rigid m \<longleftrightarrow> (\<forall>p. fst m (snd m p) = p \<and> snd m (fst m p) = p)"

definition motion_eigen :: "motion eigen" where
  "motion_eigen = \<lparr>eg_identity = (\<lambda>p. p, \<lambda>p. p),
     eg_set_translation = (\<lambda>t m. (\<lambda>p. pt_add (pt_sub (fst m p) (fst m origin)) t,
        \<lambda>q. snd m (pt_add (pt_sub q t) (fst m origin)))),
     eg_rotate = (\<lambda>a ax m. (\<lambda>p. fst m (rot_axis a ax p), \<lambda>q. rot_axis (- a) ax (snd m q))),
     eg_mult = (\<lambda>m n. (\<lambda>p. fst m (fst n p), \<lambda>q. snd n (snd m q))),
     eg_inverse = (\<lambda>m. (snd m, fst m)),
     eg_rotation = (\<lambda>m i j. coord i (pt_sub (fst m (unit_vec j)) (fst m origin))),
     eg_translation = (\<lambda>m. fst m origin),
     eg_apply = fst, eg_rigid = motion_rigid\<rparr>"

lemma motion_eigen_law: "eigen_law motion_eigen"
proof -
  have t: "pt_add (pt_sub (pt_add (pt_sub p a) b) b) a = p" "pt_add (pt_sub p q) q = p" for p a b q
    by (auto intro: pointT_eqI)
  show ?thesis
    by (auto simp: eigen_law_def motion_eigen_def motion_rigid_def rot_axis_inverse
        rot_axis_inverse2 t)
qed

end
