(* ===== verification/Bg_Diff.thy ===== *)
theory Bg_Diff
  imports Clouds
begin

text \<open>
  \<open>include/lidar_bg_diff.h\<close> and \<open>src/lidar_bg_diff.cpp\<close>: background subtraction for one
  lidar, extraction of the ship as the largest Euclidean cluster, its bounding box, and the
  status decision (left, moving, stable) over a sliding window of box centres.

  The Point Cloud Library is not part of the repository. What the code calls of it is the
  record \<open>pcl\<close>, an argument of every operation that uses it; the facts its documentation
  promises are the predicates \<open>nn_law\<close>, \<open>cluster_law\<close> and \<open>minmax_law\<close>, hypotheses of the
  theorems that need them.
\<close>

section \<open>The library\<close>

text \<open>
  \<open>pcl_load path old\<close>: return code and new content of the target cloud; \<open>pcl_voxel leaf\<close>:
  \<open>VoxelGrid\<close>; \<open>pcl_nn_sq tree p\<close>: squared distance reported by \<open>nearestKSearch(p, 1)\<close>;
  \<open>pcl_clusters tol min\<close>: \<open>EuclideanClusterExtraction\<close>, clusters as index lists;
  \<open>pcl_select\<close>: \<open>ExtractIndices\<close>; \<open>pcl_minmax\<close>: \<open>getMinMax3D\<close>.
\<close>

record pcl =
  pcl_load :: "string \<Rightarrow> cloud \<Rightarrow> int \<times> cloud"
  pcl_voxel :: "real \<Rightarrow> cloud \<Rightarrow> cloud"
  pcl_nn_sq :: "cloud \<Rightarrow> pointT \<Rightarrow> real"
  pcl_clusters :: "real \<Rightarrow> int \<Rightarrow> cloud \<Rightarrow> nat list list"
  pcl_select :: "cloud \<Rightarrow> nat list \<Rightarrow> cloud"
  pcl_minmax :: "cloud \<Rightarrow> pointT \<times> pointT"

definition nn_law :: "pcl \<Rightarrow> bool" where
  "nn_law L \<longleftrightarrow> (\<forall>bg p. bg \<noteq> [] \<longrightarrow> (\<exists>b\<in>set bg. pcl_nn_sq L bg p = dist_sq p b)
     \<and> (\<forall>b\<in>set bg. pcl_nn_sq L bg p \<le> dist_sq p b))"

definition cluster_law :: "pcl \<Rightarrow> bool" where
  "cluster_law L \<longleftrightarrow>
     (\<forall>tol k c. \<forall>idx\<in>set (pcl_clusters L tol k c).
        k \<le> int (length idx) \<and> distinct idx \<and> (\<forall>i\<in>set idx. i < length c))
     \<and> (\<forall>c idx. (\<forall>i\<in>set idx. i < length c) \<longrightarrow> pcl_select L c idx = map (\<lambda>i. c ! i) idx)"

definition minmax_law :: "pcl \<Rightarrow> bool" where
  "minmax_law L \<longleftrightarrow> (\<forall>c. c \<noteq> [] \<longrightarrow>
     (case pcl_minmax L c of (lo, hi) \<Rightarrow>
        (\<forall>p\<in>set c. px lo \<le> px p \<and> px p \<le> px hi \<and> py lo \<le> py p \<and> py p \<le> py hi
                 \<and> pz lo \<le> pz p \<and> pz p \<le> pz hi)))"

section \<open>Data\<close>

datatype ship_status = SHIP_LEAVE | SHIP_MOVING | SHIP_STABLE

record ship_move =
  has_ship :: bool
  bbox_min :: pointT
  bbox_max :: pointT
  center :: pointT

text \<open>The default member initialisers of \<open>ShipMove\<close>.\<close>

definition no_ship :: ship_move where
  "no_ship = \<lparr>has_ship = False, bbox_min = origin, bbox_max = origin, center = origin\<rparr>"

record monitor_result =
  mr_status :: ship_status
  mr_pose :: ship_move
  mr_count :: int

record bg_diff =
  dist_thresh :: real
  bg_cloud :: cloud
  bg_kdtree :: cloud
  bg_ready :: bool
  center_history :: "pointT list"
  stable_frame_cnt :: int
  stable_dist_thresh :: real
  min_valid_ship_pts :: int

definition VOXEL_RES :: real where "VOXEL_RES = 2 / 100"

definition bg_new :: bg_diff where
  "bg_new = \<lparr>dist_thresh = 15 / 100, bg_cloud = [], bg_kdtree = [], bg_ready = False,
     center_history = [], stable_frame_cnt = 10, stable_dist_thresh = 4 / 10,
     min_valid_ship_pts = 150\<rparr>"

section \<open>Configuration and background\<close>

definition setDistanceThreshold :: "real \<Rightarrow> bg_diff \<Rightarrow> bg_diff" where
  "setDistanceThreshold d s = s\<lparr>dist_thresh := d\<rparr>"

definition setStableFrameCount :: "int \<Rightarrow> bg_diff \<Rightarrow> bg_diff" where
  "setStableFrameCount n s = s\<lparr>stable_frame_cnt := n\<rparr>"

definition setStableDistThreshold :: "real \<Rightarrow> bg_diff \<Rightarrow> bg_diff" where
  "setStableDistThreshold d s = s\<lparr>stable_dist_thresh := d\<rparr>"

definition setMinValidShipPoints :: "int \<Rightarrow> bg_diff \<Rightarrow> bg_diff" where
  "setMinValidShipPoints n s = s\<lparr>min_valid_ship_pts := n\<rparr>"

definition loadBackground :: "pcl \<Rightarrow> string \<Rightarrow> bg_diff \<Rightarrow> bool \<times> bg_diff" where
  "loadBackground L path s =
     (let (ret, c) = pcl_load L path (bg_cloud s); s1 = s\<lparr>bg_cloud := c\<rparr>
      in if ret < 0 then (False, s1\<lparr>bg_ready := False\<rparr>)
         else (True, s1\<lparr>bg_kdtree := c, bg_ready := True\<rparr>))"

text \<open>A null pointer is \<open>None\<close>.\<close>

definition setBackground :: "cloud option \<Rightarrow> bg_diff \<Rightarrow> bg_diff" where
  "setBackground c s =
     (case c of
        None \<Rightarrow> s\<lparr>bg_ready := False\<rparr>
      | Some bg \<Rightarrow> if bg = [] then s\<lparr>bg_ready := False\<rparr>
                   else s\<lparr>bg_cloud := bg, bg_kdtree := bg, bg_ready := True\<rparr>)"

section \<open>From a raw frame to the ship\<close>

text \<open>The content of \<open>out_cloud\<close> afterwards; the function clears it first.\<close>

definition extractForeground :: "pcl \<Rightarrow> bg_diff \<Rightarrow> cloud option \<Rightarrow> cloud" where
  "extractForeground L s in_cloud =
     (case in_cloud of
        None \<Rightarrow> []
      | Some c \<Rightarrow>
          if \<not> bg_ready s \<or> c = [] then []
          else let down = pcl_voxel L VOXEL_RES c;
                   dist_sq_thresh = dist_thresh s * dist_thresh s
               in filter (\<lambda>pt. pcl_nn_sq L (bg_kdtree s) pt > dist_sq_thresh) down)"

text \<open>The selection loop: the first cluster of the largest size.\<close>

fun largest :: "nat \<Rightarrow> nat \<Rightarrow> nat \<Rightarrow> nat list list \<Rightarrow> nat" where
  "largest i max_size max_idx [] = max_idx"
| "largest i max_size max_idx (idx # rest) =
     (if max_size < length idx then largest (Suc i) (length idx) i rest
      else largest (Suc i) max_size max_idx rest)"

definition removeSmallClusters :: "pcl \<Rightarrow> cloud option \<Rightarrow> real \<Rightarrow> int \<Rightarrow> cloud" where
  "removeSmallClusters L in_cloud eps min_points =
     (case in_cloud of
        None \<Rightarrow> []
      | Some c \<Rightarrow>
          if length c < size_of_int min_points then []
          else let clusters = pcl_clusters L eps min_points c
               in if clusters = [] then []
                  else pcl_select L c (clusters ! largest 0 0 0 clusters))"

definition calculateShipPose :: "pcl \<Rightarrow> cloud option \<Rightarrow> ship_move" where
  "calculateShipPose L ship_cloud =
     (case ship_cloud of
        None \<Rightarrow> no_ship
      | Some c \<Rightarrow>
          if c = [] then no_ship
          else let (lo, hi) = pcl_minmax L c
               in \<lparr>has_ship = True, bbox_min = lo, bbox_max = hi,
                   center = \<lparr>px = (px lo + px hi) / 2, py = (py lo + py hi) / 2,
                             pz = (pz lo + pz hi) / 2\<rparr>\<rparr>)"

text \<open>\<open>process\<close>, the older interface: the pose and the content of \<open>ship_cloud\<close> (not cleared
  when there is no foreground).\<close>

definition process :: "pcl \<Rightarrow> bg_diff \<Rightarrow> cloud option \<Rightarrow> cloud \<Rightarrow> real \<Rightarrow> int \<Rightarrow> ship_move \<times> cloud" where
  "process L s raw ship_cloud eps min_pts =
     (let fg = extractForeground L s raw
      in if fg = [] then (no_ship, ship_cloud)
         else let out = removeSmallClusters L (Some fg) eps min_pts
              in (calculateShipPose L (Some out), out))"

section \<open>Status\<close>

datatype bg_ub = Front_of_empty_history   \<comment> \<open>undefined behaviour of \<open>vector::front()\<close>\<close>

definition judgeShipStatus :: "bg_diff \<Rightarrow> ship_move \<Rightarrow> int \<Rightarrow> bg_ub + (ship_status \<times> bg_diff)" where
  "judgeShipStatus s cur_pose ship_pts =
     (if \<not> has_ship cur_pose \<or> ship_pts < min_valid_ship_pts s
      then Inr (SHIP_LEAVE, s\<lparr>center_history := []\<rparr>)
      else let rec = center cur_pose;
               n = size_of_int (stable_frame_cnt s);
               h1 = center_history s @ [rec];
               h2 = (if n < length h1 then tl h1 else h1);
               s' = s\<lparr>center_history := h2\<rparr>
           in if length h2 < n then Inr (SHIP_MOVING, s')
              else case h2 of
                [] \<Rightarrow> Inl Front_of_empty_history
              | first # _ \<Rightarrow>
                  let dist = sqrt (dist_sq rec first)
                  in Inr (if dist < stable_dist_thresh s then SHIP_STABLE else SHIP_MOVING, s'))"

text \<open>\<open>monitorShip\<close>: result, content of \<open>out_ship_cloud\<close>, new state.\<close>

definition monitorShip :: "pcl \<Rightarrow> bg_diff \<Rightarrow> cloud option \<Rightarrow> real \<Rightarrow> int
    \<Rightarrow> bg_ub + (monitor_result \<times> cloud \<times> bg_diff)" where
  "monitorShip L s raw eps min_pts =
     (let fg = extractForeground L s raw
      in if fg = []
         then Inr (\<lparr>mr_status = SHIP_LEAVE, mr_pose = no_ship, mr_count = 0\<rparr>, [], s)
         else let out = removeSmallClusters L (Some fg) eps min_pts;
                  cnt = int (length out);
                  pose = calculateShipPose L (Some out)
              in case judgeShipStatus s pose cnt of
                   Inl e \<Rightarrow> Inl e
                 | Inr (st, s') \<Rightarrow> Inr (\<lparr>mr_status = st, mr_pose = pose, mr_count = cnt\<rparr>, out, s'))"

section \<open>Foreground, cluster and box\<close>

lemma foreground_iff:
  assumes "nn_law L" "bg_ready s" "bg_kdtree s \<noteq> []" "c \<noteq> []"
  shows "p \<in> set (extractForeground L s (Some c)) \<longleftrightarrow>
     p \<in> set (pcl_voxel L VOXEL_RES c)
     \<and> (\<forall>b\<in>set (bg_kdtree s). dist_thresh s * dist_thresh s < dist_sq p b)"
proof -
  obtain b where b: "b \<in> set (bg_kdtree s)" "pcl_nn_sq L (bg_kdtree s) p = dist_sq p b"
    and le: "\<forall>b\<in>set (bg_kdtree s). pcl_nn_sq L (bg_kdtree s) p \<le> dist_sq p b"
    using assms(1,3) by (meson nn_law_def)
  then have "dist_thresh s * dist_thresh s < pcl_nn_sq L (bg_kdtree s) p \<longleftrightarrow>
      (\<forall>b\<in>set (bg_kdtree s). dist_thresh s * dist_thresh s < dist_sq p b)"
    by (metis less_le_trans)
  then show ?thesis using assms(2,4) by (auto simp: extractForeground_def Let_def)
qed

lemma largest_stay: "\<forall>idx\<in>set rest. length idx \<le> m \<Longrightarrow> largest i m k rest = k"
  by (induction rest arbitrary: i) auto

lemma largest_spec:
  assumes "\<exists>idx\<in>set rest. m < length idx" "all = pre @ rest" "length pre = i"
  shows "largest i m k rest < length all
     \<and> (\<forall>idx\<in>set rest. length idx \<le> length (all ! largest i m k rest))
     \<and> m < length (all ! largest i m k rest)"
  using assms
proof (induction rest arbitrary: i m k pre)
  case (Cons x rest)
  have all: "all = (pre @ [x]) @ rest" "length (pre @ [x]) = Suc i" and x: "all ! i = x"
    and i: "i < length all"
    using Cons.prems by (simp_all add: nth_append)
  define M where "M = max m (length x)"
  define j where "j = (if m < length x then i else k)"
  have step: "largest i m k (x # rest) = largest (Suc i) M j rest"
    by (simp add: M_def j_def)
  show ?case
  proof (cases "\<exists>idx\<in>set rest. M < length idx")
    case True
    then have "largest (Suc i) M j rest < length all"
      "\<forall>idx\<in>set rest. length idx \<le> length (all ! largest (Suc i) M j rest)"
      "M < length (all ! largest (Suc i) M j rest)"
      using Cons.IH [OF True all, of j] by auto
    then show ?thesis unfolding step by (auto simp: M_def)
  next
    case False
    then have "largest (Suc i) M j rest = j" by (simp add: largest_stay not_less)
    moreover have "m < length x" using False Cons.prems(1) by (auto simp: M_def)
    ultimately show ?thesis unfolding step using False x i by (auto simp: j_def M_def not_less)
  qed
qed simp

lemma removeSmallClusters_spec:
  assumes "cluster_law L" "1 \<le> k" "k \<le> int (length c)" "length c < 2 ^ 64"
    "pcl_clusters L eps k c \<noteq> []"
  obtains idx where "idx \<in> set (pcl_clusters L eps k c)"
    "removeSmallClusters L (Some c) eps k = map (\<lambda>i. c ! i) idx"
    "\<forall>idx'\<in>set (pcl_clusters L eps k c). length idx' \<le> length idx"
    "k \<le> int (length idx)" "\<forall>i\<in>set idx. i < length c"
proof -
  let ?cs = "pcl_clusters L eps k c"
  let ?j = "largest 0 0 0 ?cs"
  have all: "\<forall>idx\<in>set ?cs. k \<le> int (length idx) \<and> (\<forall>i\<in>set idx. i < length c)"
    using assms(1) by (auto simp: cluster_law_def)
  then have "\<exists>idx\<in>set ?cs. 0 < length idx"
    using assms(2,5) by (metis int_one_le_iff_zero_less last_in_set of_nat_0_less_iff order.trans)
  then have j: "?j < length ?cs" "\<forall>idx\<in>set ?cs. length idx \<le> length (?cs ! ?j)"
    using largest_spec [of ?cs 0 ?cs "[]" 0 0] by auto
  then have mem: "?cs ! ?j \<in> set ?cs" by simp
  have "\<not> length c < size_of_int k" using assms(2-4) by (simp add: size_of_int_nonneg)
  then have "removeSmallClusters L (Some c) eps k = pcl_select L c (?cs ! ?j)"
    using assms(5) by (simp add: removeSmallClusters_def Let_def)
  also have "\<dots> = map (\<lambda>i. c ! i) (?cs ! ?j)"
    using assms(1) all mem by (simp add: cluster_law_def)
  finally show ?thesis using that [OF mem] j all mem by blast
qed

lemma removeSmallClusters_empty_iff:
  assumes "cluster_law L" "1 \<le> k" "k < 2 ^ 31" "length c < 2 ^ 64"
  shows "removeSmallClusters L (Some c) eps k = [] \<longleftrightarrow>
    int (length c) < k \<or> pcl_clusters L eps k c = []"
proof -
  have short: "length c < size_of_int k \<longleftrightarrow> int (length c) < k"
    using assms(2-4) by (auto simp: size_of_int_nonneg)
  show ?thesis
  proof (cases "int (length c) < k \<or> pcl_clusters L eps k c = []")
    case True
    then show ?thesis by (auto simp: removeSmallClusters_def Let_def short)
  next
    case False
    then obtain idx where "removeSmallClusters L (Some c) eps k = map (\<lambda>i. c ! i) idx" "k \<le> int (length idx)"
      using removeSmallClusters_spec [of L k c eps thesis] assms by auto
    then show ?thesis using assms(2) False by auto
  qed
qed

section \<open>The status decision over a sequence of frames\<close>

text \<open>Successive calls of \<open>judgeShipStatus\<close>.\<close>

fun judge_run :: "bg_diff \<Rightarrow> (ship_move \<times> int) list \<Rightarrow> bg_ub + (ship_status list \<times> bg_diff)" where
  "judge_run s [] = Inr ([], s)"
| "judge_run s ((pose, n) # fs) =
     (case judgeShipStatus s pose n of
        Inl e \<Rightarrow> Inl e
      | Inr (st, s') \<Rightarrow>
          (case judge_run s' fs of Inl e \<Rightarrow> Inl e | Inr (sts, s'') \<Rightarrow> Inr (st # sts, s'')))"

text \<open>The abstract monitor: the box centres of the current visit (the frames with a ship since
  the last frame without one), and the status they call for.\<close>

definition ship_frame :: "bg_diff \<Rightarrow> ship_move \<times> int \<Rightarrow> bool" where
  "ship_frame s f \<longleftrightarrow> has_ship (fst f) \<and> min_valid_ship_pts s \<le> snd f"

definition visit :: "bg_diff \<Rightarrow> (ship_move \<times> int) list \<Rightarrow> pointT list" where
  "visit s fs = map (\<lambda>f. center (fst f)) (rev (takeWhile (ship_frame s) (rev fs)))"

definition visit_status :: "bg_diff \<Rightarrow> pointT list \<Rightarrow> ship_status" where
  "visit_status s v =
     (let n = nat (stable_frame_cnt s) in
      if v = [] then SHIP_LEAVE
      else if n \<le> length v \<and> sqrt (dist_sq (last v) (v ! (length v - n))) < stable_dist_thresh s
      then SHIP_STABLE else SHIP_MOVING)"

lemma visit_snoc:
  "visit s (fs @ [f]) = (if ship_frame s f then visit s fs @ [center (fst f)] else [])"
  by (simp add: visit_def)

lemma visit_history [simp]: "visit (s\<lparr>center_history := h\<rparr>) = visit s"
  by (rule ext) (simp add: visit_def ship_frame_def [abs_def])

lemma visit_status_history [simp]: "visit_status (s\<lparr>center_history := h\<rparr>) = visit_status s"
  by (rule ext) (simp add: visit_status_def Let_def)

lemma judge_leave:
  "\<not> ship_frame s (pose, n) \<Longrightarrow> judgeShipStatus s pose n = Inr (SHIP_LEAVE, s\<lparr>center_history := []\<rparr>)"
  by (auto simp: judgeShipStatus_def ship_frame_def)

lemma judge_ship:
  assumes "ship_frame s (pose, n)" "1 \<le> stable_frame_cnt s" "stable_frame_cnt s < 2 ^ 31"
    "center_history s = last_n (nat (stable_frame_cnt s)) v"
  shows "judgeShipStatus s pose n = Inr (visit_status s (v @ [center pose]),
     s\<lparr>center_history := last_n (nat (stable_frame_cnt s)) (v @ [center pose])\<rparr>)"
proof -
  let ?N = "nat (stable_frame_cnt s)"
  let ?w = "v @ [center pose]"
  let ?h1 = "center_history s @ [center pose]"
  have N: "size_of_int (stable_frame_cnt s) = ?N" "1 \<le> ?N"
    using assms(2,3) by (simp_all add: size_of_int_nonneg)
  have win: "(if ?N < length ?h1 then tl ?h1 else ?h1) = last_n ?N ?w"
  proof (cases "?N < length ?h1")
    case True
    then have "length ?h1 = Suc ?N" using assms(4) by simp
    then show ?thesis using assms(4) by (simp add: tl_eq_last_n last_n_snoc_last_n)
  next
    case False
    then have "length v < ?N" using assms(4) by simp
    then show ?thesis using assms(4) by simp
  qed
  have first: "last_n ?N ?w = ?w ! (length ?w - ?N) # drop (Suc (length ?w - ?N)) ?w"
    using N(2) unfolding last_n_def by (intro Cons_nth_drop_Suc [symmetric]) simp
  show ?thesis
  proof (cases "?N \<le> length ?w")
    case True
    then have "\<not> length (last_n ?N ?w) < ?N" by simp
    then show ?thesis
      using True assms(1) first
      unfolding judgeShipStatus_def Let_def N(1) win
      by (simp add: ship_frame_def visit_status_def Let_def)
  next
    case False
    then have "length (last_n ?N ?w) < ?N" by simp
    then show ?thesis
      using False assms(1)
      unfolding judgeShipStatus_def Let_def N(1) win
      by (simp add: ship_frame_def visit_status_def Let_def)
  qed
qed

lemma judge_visit_step:
  assumes "1 \<le> stable_frame_cnt s" "stable_frame_cnt s < 2 ^ 31"
    "center_history s = last_n (nat (stable_frame_cnt s)) (visit s pre)"
  shows "judgeShipStatus s pose n = Inr (visit_status s (visit s (pre @ [(pose, n)])),
     s\<lparr>center_history := last_n (nat (stable_frame_cnt s)) (visit s (pre @ [(pose, n)]))\<rparr>)"
proof (cases "ship_frame s (pose, n)")
  case True
  then show ?thesis using judge_ship [of s pose n] assms by (simp add: visit_snoc)
next
  case False
  then show ?thesis using judge_leave [of s pose n] by (simp add: visit_snoc visit_status_def)
qed

lemma judge_run_visit:
  assumes "1 \<le> stable_frame_cnt s" "stable_frame_cnt s < 2 ^ 31"
    "center_history s = last_n (nat (stable_frame_cnt s)) (visit s pre)"
  shows "judge_run s fs =
    Inr (map (\<lambda>i. visit_status s (visit s (pre @ take (Suc i) fs))) [0..<length fs],
         s\<lparr>center_history := last_n (nat (stable_frame_cnt s)) (visit s (pre @ fs))\<rparr>)"
  using assms
proof (induction fs arbitrary: s pre)
  case Nil
  then show ?case by simp
next
  case (Cons f fs)
  obtain pose n where f: "f = (pose, n)" by force
  let ?N = "nat (stable_frame_cnt s)"
  let ?s' = "s\<lparr>center_history := last_n ?N (visit s (pre @ [f]))\<rparr>"
  have step: "judgeShipStatus s pose n = Inr (visit_status s (visit s (pre @ [f])), ?s')"
    unfolding f by (rule judge_visit_step [OF Cons.prems])
  have rest: "judge_run ?s' fs =
    Inr (map (\<lambda>i. visit_status s (visit s ((pre @ [f]) @ take (Suc i) fs))) [0..<length fs],
         s\<lparr>center_history := last_n ?N (visit s ((pre @ [f]) @ fs))\<rparr>)"
    using Cons.IH [of ?s' "pre @ [f]"] Cons.prems by simp
  show ?case
    using rest by (simp add: f step [unfolded f] upt_conv_Cons map_Suc_upt [symmetric] del: upt_Suc)
qed

text \<open>
  C4: the status decision refines the abstract monitor. For a positive frame count \<open>N\<close> and a
  fresh history, the \<open>i\<close>-th call returns exactly the status of the current visit: left when the
  frame has no ship, stable when the visit has at least \<open>N\<close> frames and the box centre is
  within the threshold of where it was \<open>N\<close> frames ago (the current one included), moving
  otherwise. The call never fails, and the history holds the last \<open>N\<close> centres of the visit.
\<close>

theorem judge_refines_visit:
  assumes "1 \<le> stable_frame_cnt s" "stable_frame_cnt s < 2 ^ 31" "center_history s = []"
  shows "judge_run s fs =
    Inr (map (\<lambda>i. visit_status s (visit s (take (Suc i) fs))) [0..<length fs],
         s\<lparr>center_history := last_n (nat (stable_frame_cnt s)) (visit s fs)\<rparr>)"
  using judge_run_visit [of s "[]" fs] assms by (simp add: visit_def)

theorem judge_refines_visit_witness:
  "\<exists>s'. judge_run (bg_new\<lparr>stable_frame_cnt := 2\<rparr>)
     [(no_ship\<lparr>has_ship := True\<rparr>, 200), (no_ship\<lparr>has_ship := True\<rparr>, 150), (no_ship, 0),
      (no_ship\<lparr>has_ship := True\<rparr>, 150)]
   = Inr ([SHIP_MOVING, SHIP_STABLE, SHIP_LEAVE, SHIP_MOVING], s')"
proof -
  let ?s = "bg_new\<lparr>stable_frame_cnt := 2\<rparr>"
  have "1 \<le> stable_frame_cnt ?s" "stable_frame_cnt ?s < 2 ^ 31" "center_history ?s = []"
    by (simp_all add: bg_new_def)
  from judge_refines_visit [OF this, of "[(no_ship\<lparr>has_ship := True\<rparr>, 200),
      (no_ship\<lparr>has_ship := True\<rparr>, 150), (no_ship, 0), (no_ship\<lparr>has_ship := True\<rparr>, 150)]"]
  show ?thesis
    by (simp add: upt_rec visit_def ship_frame_def visit_status_def bg_new_def no_ship_def
        origin_def dist_sq_def)
qed

text \<open>
  The two corner settings of \<open>setStableFrameCount\<close>, whose argument is not checked. With a
  count of zero the first frame that shows a ship reads \<open>front()\<close> of an emptied vector,
  undefined behaviour; with a negative count, converted to a huge \<open>size_t\<close>, no frame of a
  run shorter than \<open>2 ^ 63\<close> is ever reported stable.
\<close>

theorem judge_bad_frame_count:
  "(stable_frame_cnt s = 0 \<and> ship_frame s (pose, n) \<and> center_history s = []
      \<longrightarrow> judgeShipStatus s pose n = Inl Front_of_empty_history)
   \<and> (stable_frame_cnt s < 0 \<and> - (2 ^ 31) \<le> stable_frame_cnt s
      \<and> length (center_history s) < 2 ^ 63 \<and> judgeShipStatus s pose n = Inr (st, s')
      \<longrightarrow> st \<noteq> SHIP_STABLE)"
proof -
  have neg: "2 ^ 63 < size_of_int k" if "k < 0" "- (2 ^ 31) \<le> k" for k
    using that by (simp add: size_of_int_neg)
  show ?thesis
    using neg [of "stable_frame_cnt s"]
    by (auto simp: judgeShipStatus_def ship_frame_def Let_def split: if_splits)
qed

text \<open>A concrete stand-in for the library: exact search and extrema, no down-sampling, and one
  cluster with every point. It satisfies the three laws.\<close>

definition pcl_exact :: pcl where
  "pcl_exact = \<lparr>pcl_load = (\<lambda>path c. (0, c)), pcl_voxel = (\<lambda>leaf c. c),
     pcl_nn_sq = (\<lambda>bg p. Min (dist_sq p ` set bg)),
     pcl_clusters = (\<lambda>tol k c. if k \<le> int (length c) then [[0..<length c]] else []),
     pcl_select = (\<lambda>c idx. map (\<lambda>i. c ! i) idx),
     pcl_minmax = (\<lambda>c. (\<lparr>px = Min (px ` set c), py = Min (py ` set c), pz = Min (pz ` set c)\<rparr>,
                          \<lparr>px = Max (px ` set c), py = Max (py ` set c), pz = Max (pz ` set c)\<rparr>))\<rparr>"

lemma pcl_exact_laws: "nn_law pcl_exact" "cluster_law pcl_exact" "minmax_law pcl_exact"
proof -
  have "\<exists>b\<in>set bg. Min (dist_sq p ` set bg) = dist_sq p b" if "bg \<noteq> []" for bg p
  proof -
    have "Min (dist_sq p ` set bg) \<in> dist_sq p ` set bg" using that by (intro Min_in) auto
    then show ?thesis unfolding image_iff .
  qed
  then show "nn_law pcl_exact" by (simp add: nn_law_def pcl_exact_def)
qed (auto simp: cluster_law_def minmax_law_def pcl_exact_def)

text \<open>Successive calls of \<open>monitorShip\<close>: the reported statuses.\<close>

fun monitor_run :: "pcl \<Rightarrow> bg_diff \<Rightarrow> real \<Rightarrow> int \<Rightarrow> cloud list \<Rightarrow> bg_ub + ship_status list" where
  "monitor_run L s eps k [] = Inr []"
| "monitor_run L s eps k (c # cs) =
     (case monitorShip L s (Some c) eps k of
        Inl e \<Rightarrow> Inl e
      | Inr (r, out, s') \<Rightarrow>
          (case monitor_run L s' eps k cs of Inl e \<Rightarrow> Inl e | Inr sts \<Rightarrow> Inr (mr_status r # sts)))"

theorem judge_bad_frame_count_witness:
  "judgeShipStatus (setStableFrameCount 0 bg_new) (no_ship\<lparr>has_ship := True\<rparr>) 150
     = Inl Front_of_empty_history
   \<and> (\<exists>s'. judgeShipStatus (setStableFrameCount (- 1) bg_new) (no_ship\<lparr>has_ship := True\<rparr>) 150
        = Inr (SHIP_MOVING, s'))"
proof
  show "judgeShipStatus (setStableFrameCount 0 bg_new) (no_ship\<lparr>has_ship := True\<rparr>) 150
     = Inl Front_of_empty_history"
    using judge_bad_frame_count [of "setStableFrameCount 0 bg_new" "no_ship\<lparr>has_ship := True\<rparr>" 150]
    by (simp add: setStableFrameCount_def ship_frame_def bg_new_def)
qed (simp add: judgeShipStatus_def setStableFrameCount_def bg_new_def no_ship_def size_of_int_neg)



text \<open>
  The history survives a departure that leaves no foreground at all. \<open>monitorShip\<close> then
  returns \<open>SHIP_LEAVE\<close> before \<open>judgeShipStatus\<close> could clear the history, so the first
  frame of the next visit is compared with the previous ship: with a frame count of two it is
  reported stable at once, where the visit itself only calls for \<open>SHIP_MOVING\<close>.
\<close>

theorem monitor_stale_history:
  "let s = bg_new\<lparr>bg_kdtree := [origin], bg_ready := True, min_valid_ship_pts := 1, stable_frame_cnt := 2\<rparr>;
       ship = [origin\<lparr>px := 3\<rparr>];
       pose = calculateShipPose pcl_exact (Some ship)
   in monitor_run pcl_exact s 1 1 [ship, [origin], ship] = Inr [SHIP_MOVING, SHIP_LEAVE, SHIP_STABLE]
      \<and> visit_status s (visit s [(pose, 1), (no_ship, 0), (pose, 1)]) = SHIP_MOVING"
  by (simp add: monitorShip_def extractForeground_def removeSmallClusters_def Let_def
        calculateShipPose_def judgeShipStatus_def pcl_exact_def bg_new_def origin_def dist_sq_def
        visit_def visit_status_def ship_frame_def no_ship_def)

end
