(* ===== verification/System_State.thy ===== *)
theory System_State
  imports Cbyd_Prelude
begin

text \<open>
  \<open>include/system_state_manager.h\<close> and \<open>src/system_state_manager.cpp\<close>: the process-wide
  \<open>SystemStateManager\<close> singleton, which holds the system state, the last reported error and
  two callbacks. The callbacks are \<open>std::function\<close> objects of other components: a callback
  is a function on the state \<open>'w\<close> of whatever it reaches, and returns \<open>None\<close> when it throws.
  The clock is a parameter of \<open>reportError\<close>.
\<close>

section \<open>State\<close>

datatype system_state =
    IDLE | INITIALIZING | RUNNING | PAUSED | RUNERROR | FATAL_ERROR | EXITING

datatype module_type = ACQUIRER | FUSER | SIX_DOF_CALC | OUTPUTTER

datatype error_level = STATUS_OK | STATUS_WARNING | STATUS_ERROR | STATUS_FATAL

text \<open>The enumerators' values; the scoped enumeration is compared by them.\<close>

fun error_code :: "error_level \<Rightarrow> int" where
  "error_code STATUS_OK = 0"
| "error_code STATUS_WARNING = 1"
| "error_code STATUS_ERROR = 2"
| "error_code STATUS_FATAL = 3"

lemma error_code_inject [simp]: "error_code a = error_code b \<longleftrightarrow> a = b"
  by (cases a; cases b) simp_all

instantiation error_level :: linorder
begin

definition less_eq_error_level :: "error_level \<Rightarrow> error_level \<Rightarrow> bool" where
  "less_eq_error_level a b \<longleftrightarrow> error_code a \<le> error_code b"

definition less_error_level :: "error_level \<Rightarrow> error_level \<Rightarrow> bool" where
  "less_error_level a b \<longleftrightarrow> error_code a < error_code b"

instance
  by standard (auto simp: less_eq_error_level_def less_error_level_def simp flip: error_code_inject)

end

lemmas error_level_order = less_eq_error_level_def less_error_level_def

lemma warning_le_iff: "STATUS_WARNING \<le> l \<longleftrightarrow> l \<noteq> STATUS_OK"
  by (cases l) (simp_all add: error_level_order)

record system_error =
  err_module :: module_type
  err_level :: error_level
  err_message :: string
  err_timestamp :: u64
  err_need_push :: bool

type_synonym 'w callback = "'w \<Rightarrow> system_error \<Rightarrow> bool option \<times> 'w"

text \<open>\<open>last_error_\<close> is not initialised by the constructor: \<open>None\<close> until the first report.\<close>

record 'w state_manager =
  sm_state :: system_state
  sm_has_error :: bool
  sm_last_error :: "system_error option"
  sm_push_callback :: "'w callback option"
  sm_db_callback :: "'w callback option"

definition sm_init :: "'w state_manager" where
  "sm_init = \<lparr>sm_state = IDLE, sm_has_error = False, sm_last_error = None,
              sm_push_callback = None, sm_db_callback = None\<rparr>"

section \<open>Operations\<close>

definition setState :: "system_state \<Rightarrow> 'w state_manager \<Rightarrow> 'w state_manager" where
  "setState st m = m\<lparr>sm_state := st\<rparr>"

definition getState :: "'w state_manager \<Rightarrow> system_state" where
  "getState m = sm_state m"

definition setErrorPushCallback :: "'w callback \<Rightarrow> 'w state_manager \<Rightarrow> 'w state_manager" where
  "setErrorPushCallback cb m = m\<lparr>sm_push_callback := Some cb\<rparr>"

definition setDatabaseWriteCallback :: "'w callback \<Rightarrow> 'w state_manager \<Rightarrow> 'w state_manager" where
  "setDatabaseWriteCallback cb m = m\<lparr>sm_db_callback := Some cb\<rparr>"

definition getLastError :: "'w state_manager \<Rightarrow> system_error option" where
  "getLastError m = sm_last_error m"

definition hasError :: "'w state_manager \<Rightarrow> bool" where
  "hasError m = sm_has_error m"

definition clearError :: "'w state_manager \<Rightarrow> 'w state_manager" where
  "clearError m = m\<lparr>sm_has_error := False\<rparr>"

text \<open>
  \<open>doPush\<close> and \<open>doWriteDB\<close>: the callback's result and any exception are discarded; its
  effect on the rest of the program stays.
\<close>

definition doPush :: "'w state_manager \<Rightarrow> system_error \<Rightarrow> 'w \<Rightarrow> 'w" where
  "doPush m err w =
     (case sm_push_callback m of
        None \<Rightarrow> w
      | Some cb \<Rightarrow> if err_need_push err then snd (cb w err) else w)"

definition doWriteDB :: "'w state_manager \<Rightarrow> system_error \<Rightarrow> 'w \<Rightarrow> 'w" where
  "doWriteDB m err w =
     (case sm_db_callback m of
        None \<Rightarrow> w
      | Some cb \<Rightarrow> if err_need_push err then snd (cb w err) else w)"

definition mk_error :: "module_type \<Rightarrow> error_level \<Rightarrow> string \<Rightarrow> u64 \<Rightarrow> system_error" where
  "mk_error md level msg now = \<lparr>err_module = md, err_level = level, err_message = msg,
     err_timestamp = now, err_need_push = (level \<noteq> STATUS_OK)\<rparr>"

definition reportError :: "u64 \<Rightarrow> module_type \<Rightarrow> error_level \<Rightarrow> string
    \<Rightarrow> 'w state_manager \<times> 'w \<Rightarrow> 'w state_manager \<times> 'w" where
  "reportError now md level msg mw =
     (let (m, w) = mw;
          err = mk_error md level msg now;
          m1 = m\<lparr>sm_last_error := Some err, sm_has_error := (STATUS_WARNING \<le> level)\<rparr>;
          m2 = (if level = STATUS_FATAL then setState FATAL_ERROR m1
                else if level = STATUS_ERROR then setState RUNERROR m1
                else m1);
          w1 = doPush m2 err w;
          w2 = doWriteDB m2 err w1
      in (m2, w2))"

lemmas sm_defs [cbyd_defs] = setState_def getState_def setErrorPushCallback_def
  setDatabaseWriteCallback_def getLastError_def hasError_def clearError_def

section \<open>One report\<close>

lemma reportError_state:
  "sm_state (fst (reportError now md level msg (m, w)))
     = (if level = STATUS_FATAL then FATAL_ERROR
        else if level = STATUS_ERROR then RUNERROR else sm_state m)"
  by (simp add: reportError_def Let_def setState_def)

lemma reportError_has_error:
  "sm_has_error (fst (reportError now md level msg (m, w))) \<longleftrightarrow> level \<noteq> STATUS_OK"
  by (simp add: reportError_def Let_def setState_def warning_le_iff)

lemma reportError_last:
  "sm_last_error (fst (reportError now md level msg (m, w))) = Some (mk_error md level msg now)"
  by (simp add: reportError_def Let_def setState_def)

lemma reportError_callbacks [simp]:
  "sm_push_callback (fst (reportError now md level msg (m, w))) = sm_push_callback m"
  "sm_db_callback (fst (reportError now md level msg (m, w))) = sm_db_callback m"
  by (simp_all add: reportError_def Let_def setState_def)

text \<open>What a report does outside the manager: both callbacks once, the push first, or nothing.\<close>

definition notify :: "'w callback option \<Rightarrow> 'w callback option \<Rightarrow> 'w \<Rightarrow> system_error \<Rightarrow> 'w" where
  "notify p d w err =
     (let w1 = (case p of None \<Rightarrow> w | Some cb \<Rightarrow> snd (cb w err))
      in case d of None \<Rightarrow> w1 | Some cb \<Rightarrow> snd (cb w1 err))"

lemma reportError_world:
  "snd (reportError now md level msg (m, w))
     = (if level = STATUS_OK then w
        else notify (sm_push_callback m) (sm_db_callback m) w (mk_error md level msg now))"
  by (simp add: reportError_def Let_def setState_def doPush_def doWriteDB_def mk_error_def
      notify_def split: option.splits)

section \<open>Sequences of calls\<close>

text \<open>The calls the components make on the manager after start-up.\<close>

datatype sm_call =
    Set_state system_state
  | Report u64 module_type error_level string
  | Clear_error

fun sm_step :: "'w state_manager \<times> 'w \<Rightarrow> sm_call \<Rightarrow> 'w state_manager \<times> 'w" where
  "sm_step mw (Set_state st) = (setState st (fst mw), snd mw)"
| "sm_step mw (Report now md level msg) = reportError now md level msg mw"
| "sm_step mw Clear_error = (clearError (fst mw), snd mw)"

definition sm_run :: "'w state_manager \<times> 'w \<Rightarrow> sm_call list \<Rightarrow> 'w state_manager \<times> 'w" where
  "sm_run mw calls = foldl sm_step mw calls"

text \<open>The state a call leaves behind, and the flag it leaves behind (\<open>None\<close>: unchanged).\<close>

fun sets_state :: "sm_call \<Rightarrow> system_state option" where
  "sets_state (Set_state st) = Some st"
| "sets_state (Report _ _ level _) =
     (if level = STATUS_FATAL then Some FATAL_ERROR
      else if level = STATUS_ERROR then Some RUNERROR else None)"
| "sets_state Clear_error = None"

fun sets_flag :: "sm_call \<Rightarrow> bool option" where
  "sets_flag (Set_state _) = None"
| "sets_flag (Report _ _ level _) = Some (level \<noteq> STATUS_OK)"
| "sets_flag Clear_error = Some False"

fun reported :: "sm_call \<Rightarrow> system_error option" where
  "reported (Report now md level msg) =
     (if level = STATUS_OK then None else Some (mk_error md level msg now))"
| "reported _ = None"

text \<open>The value of the last call that wrote a field, or the initial value.\<close>

definition last_write :: "('c \<Rightarrow> 'v option) \<Rightarrow> 'v \<Rightarrow> 'c list \<Rightarrow> 'v" where
  "last_write f v cs = foldl (\<lambda>a c. case f c of None \<Rightarrow> a | Some b \<Rightarrow> b) v cs"

lemma last_write_snoc [simp]:
  "last_write f v (cs @ [c]) = (case f c of None \<Rightarrow> last_write f v cs | Some b \<Rightarrow> b)"
  by (simp add: last_write_def split: option.splits)

lemma last_write_Nil [simp]: "last_write f v [] = v"
  by (simp add: last_write_def)

lemma last_write_mem:
  "last_write f v cs = v \<or> (\<exists>c\<in>set cs. f c = Some (last_write f v cs))"
  by (induction cs rule: rev_induct) (auto split: option.splits)

lemma sm_run_snoc: "sm_run mw (cs @ [c]) = sm_step (sm_run mw cs) c"
  by (simp add: sm_run_def)

lemma sm_step_facts:
  "sm_state (fst (sm_step mw c)) = (case sets_state c of None \<Rightarrow> sm_state (fst mw) | Some s \<Rightarrow> s)"
  "sm_has_error (fst (sm_step mw c)) = (case sets_flag c of None \<Rightarrow> sm_has_error (fst mw) | Some b \<Rightarrow> b)"
  "sm_push_callback (fst (sm_step mw c)) = sm_push_callback (fst mw)"
  "sm_db_callback (fst (sm_step mw c)) = sm_db_callback (fst mw)"
  "snd (sm_step mw c) = (case reported c of None \<Rightarrow> snd mw
     | Some e \<Rightarrow> notify (sm_push_callback (fst mw)) (sm_db_callback (fst mw)) (snd mw) e)"
  by (cases mw; cases c;
      simp add: cbyd_defs reportError_state reportError_has_error reportError_world)+

lemma sm_run_state: "sm_state (fst (sm_run mw cs)) = last_write sets_state (sm_state (fst mw)) cs"
  by (induction cs rule: rev_induct)
    (simp add: sm_run_def, simp add: sm_run_snoc sm_step_facts split: option.splits)

lemma sm_run_flag: "sm_has_error (fst (sm_run mw cs)) = last_write sets_flag (sm_has_error (fst mw)) cs"
  by (induction cs rule: rev_induct)
    (simp add: sm_run_def, simp add: sm_run_snoc sm_step_facts split: option.splits)

lemma sm_run_callbacks:
  "sm_push_callback (fst (sm_run mw cs)) = sm_push_callback (fst mw)"
  "sm_db_callback (fst (sm_run mw cs)) = sm_db_callback (fst mw)"
  by (induction cs rule: rev_induct) (simp_all add: sm_run_snoc sm_step_facts, simp_all add: sm_run_def)

lemma sm_run_world:
  "snd (sm_run mw cs) = foldl (notify (sm_push_callback (fst mw)) (sm_db_callback (fst mw)))
     (snd mw) (List.map_filter reported cs)"
proof (induction cs rule: rev_induct)
  case Nil
  then show ?case by (simp add: sm_run_def map_filter_simps)
next
  case (snoc c cs)
  then show ?case
    by (simp add: sm_run_snoc sm_step_facts sm_run_callbacks map_filter_def split: option.splits)
qed

text \<open>
  C30: what any sequence of calls leaves behind. The system state is the one set by the last
  \<open>setState\<close>, \<open>STATUS_ERROR\<close> report or \<open>STATUS_FATAL\<close> report; \<open>hasError()\<close> is decided by the
  last report or \<open>clearError\<close>; and the callbacks have been invoked once for every report
  above \<open>STATUS_OK\<close>, in the order of the reports, the push before the database write,
  whether or not earlier invocations threw.
\<close>

theorem sm_run_spec:
  "sm_state (fst (sm_run (m, w) cs)) = last_write sets_state (sm_state m) cs
   \<and> sm_has_error (fst (sm_run (m, w) cs)) = last_write sets_flag (sm_has_error m) cs
   \<and> snd (sm_run (m, w) cs)
       = foldl (notify (sm_push_callback m) (sm_db_callback m)) w (List.map_filter reported cs)"
  by (simp add: sm_run_state sm_run_flag sm_run_world)

text \<open>
  \<open>FATAL_ERROR\<close> is not sticky. A report below \<open>STATUS_ERROR\<close> keeps it, but any later
  \<open>STATUS_ERROR\<close> report replaces it by \<open>RUNERROR\<close>, and an \<open>OK\<close> report clears \<open>hasError()\<close>
  while the state still says fatal.
\<close>

theorem fatal_is_overwritten:
  "getState (fst (reportError t2 b STATUS_ERROR msg2 (reportError t1 a STATUS_FATAL msg1 mw))) = RUNERROR
   \<and> getState (fst (reportError t2 b STATUS_WARNING msg2 (reportError t1 a STATUS_FATAL msg1 mw))) = FATAL_ERROR
   \<and> getState (fst (reportError t2 b STATUS_OK msg2 (reportError t1 a STATUS_FATAL msg1 mw))) = FATAL_ERROR
   \<and> \<not> hasError (fst (reportError t2 b STATUS_OK msg2 (reportError t1 a STATUS_FATAL msg1 mw)))"
  by (cases mw; cases "reportError t1 a STATUS_FATAL msg1 mw")
    (auto simp: getState_def hasError_def reportError_state reportError_has_error
      dest: arg_cong [of _ _ "\<lambda>x. sm_state (fst x)"])

end
