(* ===== verification/Config_Loader.thy ===== *)
theory Config_Loader
  imports Clouds
begin

text \<open>
  \<open>include/config_loader.h\<close> and \<open>src/config_loader.cpp\<close>: the configuration structures, the
  three loaders and the extrinsic transforms. A loader writes its reference argument field by
  field and stops at the first exception, which it catches; the model is a list of statements
  over the structure, so that a failing load leaves exactly the prefix of assignments the code
  has performed. yaml-cpp is the record \<open>yaml\<close> over an unspecified type of nodes, where \<open>None\<close>
  is a thrown exception.
\<close>

section \<open>Structures\<close>

record lidar_config =
  lc_name :: string
  lc_lidar_ip :: string
  lc_local_ip :: string
  lc_dev_port :: int
  lc_data_port :: int

record all_lidar_configs =
  alc_lidarA :: lidar_config
  alc_lidarB :: lidar_config
  alc_debug_save :: int
  alc_ship_monitor :: int
  alc_save_min :: int

record ndt_param =
  ndt_voxel_x :: real
  ndt_voxel_y :: real
  ndt_voxel_z :: real
  ndt_max_iter :: int
  ndt_trans_eps :: real
  ndt_step_size :: real
  ndt_resolution :: real
  ndt_fit_thresh :: real

record gicp_param =
  gicp_voxel_x :: real
  gicp_voxel_y :: real
  gicp_voxel_z :: real
  gicp_use_reciprocal :: bool
  gicp_max_corr_dist :: real
  gicp_max_iter :: int
  gicp_trans_eps :: real
  gicp_euclid_eps :: real
  gicp_rot_eps :: real
  gicp_rand_num :: int
  gicp_fit_thresh :: real
  gicp_score_radius :: real

record reg_param =
  reg_ndt :: ndt_param
  reg_gicp :: gicp_param

record mqtt_config_param =
  mq_berth_id :: string
  mq_host :: string
  mq_port :: int
  mq_username :: string
  mq_password :: string
  mq_default_topic :: string
  mq_dev_status_topic :: string
  mq_qos :: int
  mq_reconnect_interval :: int

record radar_extrinsic =
  ext_trans :: pointT
  ext_rotate_z_deg :: real
  ext_rotate_y_deg :: real
  ext_rotate_x_deg :: real

record radar_global_config =
  rg_lidarA_bg_pcd_path :: string
  rg_lidarB_bg_pcd_path :: string
  rg_dist_threshold :: real
  rg_cluster_eps :: real
  rg_cluster_min_points :: int
  rg_stable_frame_count :: int
  rg_stable_dist_threshold :: real
  rg_min_valid_ship_points :: int
  rg_lidarA :: radar_extrinsic
  rg_lidarB :: radar_extrinsic
  rg_base_update_interval_min :: real
  rg_mqtt_cfg :: mqtt_config_param

text \<open>The default member initialisers.\<close>

definition ndt_default :: ndt_param where
  "ndt_default = \<lparr>ndt_voxel_x = 1 / 10, ndt_voxel_y = 1 / 10, ndt_voxel_z = 1 / 10, ndt_max_iter = 30,
     ndt_trans_eps = 1 / 10 ^ 6, ndt_step_size = 1 / 10, ndt_resolution = 5 / 10,
     ndt_fit_thresh = 15 / 10\<rparr>"

definition gicp_default :: gicp_param where
  "gicp_default = \<lparr>gicp_voxel_x = 5 / 100, gicp_voxel_y = 5 / 100, gicp_voxel_z = 5 / 100,
     gicp_use_reciprocal = True, gicp_max_corr_dist = 3 / 10, gicp_max_iter = 150,
     gicp_trans_eps = 1 / 10 ^ 6, gicp_euclid_eps = 1 / 10 ^ 6, gicp_rot_eps = 1 / 10 ^ 3,
     gicp_rand_num = 15, gicp_fit_thresh = 1, gicp_score_radius = 5 / 10\<rparr>"

definition reg_default :: reg_param where
  "reg_default = \<lparr>reg_ndt = ndt_default, reg_gicp = gicp_default\<rparr>"

section \<open>yaml-cpp and statements\<close>

text \<open>
  \<open>y_sub\<close> is \<open>operator[]\<close>, \<open>y_int\<close>, \<open>y_real\<close>, \<open>y_str\<close>, \<open>y_bool\<close> and \<open>y_reals\<close> are \<open>as<T>()\<close>, and
  the functions with \<open>_or\<close> are \<open>as<T>(fallback)\<close>.
\<close>

record 'n yaml =
  y_load :: "string \<Rightarrow> 'n option"
  y_defined :: "'n \<Rightarrow> bool"
  y_sub :: "'n \<Rightarrow> string \<Rightarrow> 'n option"
  y_int :: "'n \<Rightarrow> int option"
  y_real :: "'n \<Rightarrow> real option"
  y_str :: "'n \<Rightarrow> string option"
  y_bool :: "'n \<Rightarrow> bool option"
  y_reals :: "'n \<Rightarrow> real list option"
  y_int_or :: "'n \<Rightarrow> int \<Rightarrow> int option"
  y_real_or :: "'n \<Rightarrow> real \<Rightarrow> real option"
  y_str_or :: "'n \<Rightarrow> string \<Rightarrow> string option"
  y_bool_or :: "'n \<Rightarrow> bool \<Rightarrow> bool option"

datatype flow =
    Done
  | Thrown               \<comment> \<open>a C++ exception\<close>
  | Ub_index             \<comment> \<open>\<open>operator[]\<close> of a vector out of range\<close>

type_synonym 'c stmt = "'c \<Rightarrow> flow \<times> 'c"

fun exec :: "'c stmt list \<Rightarrow> 'c stmt" where
  "exec [] c = (Done, c)"
| "exec (s # ss) c = (case s c of (Done, c') \<Rightarrow> exec ss c' | (Thrown, c') \<Rightarrow> (Thrown, c')
                       | (Ub_index, c') \<Rightarrow> (Ub_index, c'))"

definition assign :: "'v option \<Rightarrow> ('v \<Rightarrow> 'c \<Rightarrow> 'c) \<Rightarrow> 'c stmt" where
  "assign r upd c = (case r of None \<Rightarrow> (Thrown, c) | Some v \<Rightarrow> (Done, upd v c))"

text \<open>A declaration whose initialiser may throw, with the statements that follow it.\<close>

definition with_val :: "'v option \<Rightarrow> ('v \<Rightarrow> 'c stmt list) \<Rightarrow> 'c stmt" where
  "with_val r body c = (case r of None \<Rightarrow> (Thrown, c) | Some v \<Rightarrow> exec (body v) c)"

text \<open>\<open>if (node[key].IsDefined()) ...\<close>, and \<open>if (node[key])\<close>, which asks the same.\<close>

definition if_defined :: "'n yaml \<Rightarrow> 'n \<Rightarrow> string \<Rightarrow> ('n \<Rightarrow> 'c stmt list) \<Rightarrow> 'c stmt" where
  "if_defined Y n key body =
     with_val (y_sub Y n key) (\<lambda>m. if y_defined Y m then body m else [])"

definition y_at :: "'n yaml \<Rightarrow> 'n \<Rightarrow> string \<Rightarrow> ('n \<Rightarrow> 'v option) \<Rightarrow> 'v option" where
  "y_at Y n key f = Option.bind (y_sub Y n key) f"

text \<open>\<open>Eigen::Vector3f(arr[0], arr[1], arr[2])\<close>.\<close>

definition assign_vec3 :: "real list \<Rightarrow> (pointT \<Rightarrow> 'c \<Rightarrow> 'c) \<Rightarrow> 'c stmt" where
  "assign_vec3 arr upd c =
     (if length arr < 3 then (Ub_index, c)
      else (Done, upd \<lparr>px = arr ! 0, py = arr ! 1, pz = arr ! 2\<rparr> c))"

section \<open>The loaders\<close>

text \<open>The body of the \<open>lidarA\<close> branch; the \<open>lidarB\<close> branch is the same text on the other field.\<close>

definition lidar_stmts :: "'n yaml \<Rightarrow> 'n \<Rightarrow> string
    \<Rightarrow> ((lidar_config \<Rightarrow> lidar_config) \<Rightarrow> all_lidar_configs \<Rightarrow> all_lidar_configs)
    \<Rightarrow> all_lidar_configs stmt list" where
  "lidar_stmts Y config key upd =
     [assign (y_at Y config key (\<lambda>n. y_at Y n ''name'' (\<lambda>m. y_str_or Y m ''Unknown'')))
        (\<lambda>v. upd (\<lambda>l. l\<lparr>lc_name := v\<rparr>)),
      assign (y_at Y config key (\<lambda>n. y_at Y n ''dev_ip'' (\<lambda>m. y_str_or Y m ''0.0.0.0'')))
        (\<lambda>v. upd (\<lambda>l. l\<lparr>lc_lidar_ip := v\<rparr>)),
      assign (y_at Y config key (\<lambda>n. y_at Y n ''local_ip'' (\<lambda>m. y_str_or Y m ''0.0.0.0'')))
        (\<lambda>v. upd (\<lambda>l. l\<lparr>lc_local_ip := v\<rparr>)),
      assign (y_at Y config key (\<lambda>n. y_at Y n ''dev_port'' (\<lambda>m. y_int_or Y m 0)))
        (\<lambda>v. upd (\<lambda>l. l\<lparr>lc_dev_port := v\<rparr>)),
      assign (y_at Y config key (\<lambda>n. y_at Y n ''data_port'' (\<lambda>m. y_int_or Y m 0)))
        (\<lambda>v. upd (\<lambda>l. l\<lparr>lc_data_port := v\<rparr>))]"

definition updA :: "(lidar_config \<Rightarrow> lidar_config) \<Rightarrow> all_lidar_configs \<Rightarrow> all_lidar_configs" where
  "updA f c = c\<lparr>alc_lidarA := f (alc_lidarA c)\<rparr>"

definition updB :: "(lidar_config \<Rightarrow> lidar_config) \<Rightarrow> all_lidar_configs \<Rightarrow> all_lidar_configs" where
  "updB f c = c\<lparr>alc_lidarB := f (alc_lidarB c)\<rparr>"

definition loadLidarConfigs :: "'n yaml \<Rightarrow> string \<Rightarrow> all_lidar_configs \<Rightarrow> bool \<times> all_lidar_configs" where
  "loadLidarConfigs Y configPath outConfigs =
     (case y_load Y configPath of
        None \<Rightarrow> (False, outConfigs)
      | Some config \<Rightarrow>
          if \<not> y_defined Y config then (False, outConfigs)
          else case exec
            [assign (y_at Y config ''debug_save'' (\<lambda>n. y_int_or Y n 0)) (\<lambda>v c. c\<lparr>alc_debug_save := v\<rparr>),
             assign (y_at Y config ''ship_monitor'' (\<lambda>n. y_int_or Y n 0)) (\<lambda>v c. c\<lparr>alc_ship_monitor := v\<rparr>),
             assign (y_at Y config ''save_min'' (\<lambda>n. y_int_or Y n 0)) (\<lambda>v c. c\<lparr>alc_save_min := v\<rparr>),
             if_defined Y config ''lidarA'' (\<lambda>_. lidar_stmts Y config ''lidarA'' updA),
             if_defined Y config ''lidarB'' (\<lambda>_. lidar_stmts Y config ''lidarB'' updB)] outConfigs
          of (fl, out) \<Rightarrow> (fl = Done, out))"

definition updN :: "(ndt_param \<Rightarrow> ndt_param) \<Rightarrow> reg_param \<Rightarrow> reg_param" where
  "updN f c = c\<lparr>reg_ndt := f (reg_ndt c)\<rparr>"

definition updG :: "(gicp_param \<Rightarrow> gicp_param) \<Rightarrow> reg_param \<Rightarrow> reg_param" where
  "updG f c = c\<lparr>reg_gicp := f (reg_gicp c)\<rparr>"

text \<open>\<open>out.f = node[key].as<T>(out.f)\<close>: the fallback is the present value of the field.\<close>

definition keep :: "('n \<Rightarrow> 'v \<Rightarrow> 'v option) \<Rightarrow> 'n option \<Rightarrow> ('c \<Rightarrow> 'v) \<Rightarrow> ('v \<Rightarrow> 'c \<Rightarrow> 'c) \<Rightarrow> 'c stmt" where
  "keep conv n get upd c = assign (Option.bind n (\<lambda>m. conv m (get c))) upd c"

definition ndt_stmts :: "'n yaml \<Rightarrow> 'n \<Rightarrow> reg_param stmt list" where
  "ndt_stmts Y n =
     [if_defined Y n ''voxel'' (\<lambda>_.
        [keep (y_real_or Y) (y_at Y n ''voxel'' (\<lambda>v. y_sub Y v ''x'')) (\<lambda>c. ndt_voxel_x (reg_ndt c)) (\<lambda>v. updN (\<lambda>p. p\<lparr>ndt_voxel_x := v\<rparr>)),
         keep (y_real_or Y) (y_at Y n ''voxel'' (\<lambda>v. y_sub Y v ''y'')) (\<lambda>c. ndt_voxel_y (reg_ndt c)) (\<lambda>v. updN (\<lambda>p. p\<lparr>ndt_voxel_y := v\<rparr>)),
         keep (y_real_or Y) (y_at Y n ''voxel'' (\<lambda>v. y_sub Y v ''z'')) (\<lambda>c. ndt_voxel_z (reg_ndt c)) (\<lambda>v. updN (\<lambda>p. p\<lparr>ndt_voxel_z := v\<rparr>))]),
      keep (y_int_or Y) (y_sub Y n ''max_iter'') (\<lambda>c. ndt_max_iter (reg_ndt c)) (\<lambda>v. updN (\<lambda>p. p\<lparr>ndt_max_iter := v\<rparr>)),
      keep (y_real_or Y) (y_sub Y n ''trans_eps'') (\<lambda>c. ndt_trans_eps (reg_ndt c)) (\<lambda>v. updN (\<lambda>p. p\<lparr>ndt_trans_eps := v\<rparr>)),
      keep (y_real_or Y) (y_sub Y n ''step_size'') (\<lambda>c. ndt_step_size (reg_ndt c)) (\<lambda>v. updN (\<lambda>p. p\<lparr>ndt_step_size := v\<rparr>)),
      keep (y_real_or Y) (y_sub Y n ''resolution'') (\<lambda>c. ndt_resolution (reg_ndt c)) (\<lambda>v. updN (\<lambda>p. p\<lparr>ndt_resolution := v\<rparr>)),
      keep (y_real_or Y) (y_sub Y n ''fit_thresh'') (\<lambda>c. ndt_fit_thresh (reg_ndt c)) (\<lambda>v. updN (\<lambda>p. p\<lparr>ndt_fit_thresh := v\<rparr>))]"

definition gicp_stmts :: "'n yaml \<Rightarrow> 'n \<Rightarrow> reg_param stmt list" where
  "gicp_stmts Y n =
     [if_defined Y n ''voxel'' (\<lambda>_.
        [keep (y_real_or Y) (y_at Y n ''voxel'' (\<lambda>v. y_sub Y v ''x'')) (\<lambda>c. gicp_voxel_x (reg_gicp c)) (\<lambda>v. updG (\<lambda>p. p\<lparr>gicp_voxel_x := v\<rparr>)),
         keep (y_real_or Y) (y_at Y n ''voxel'' (\<lambda>v. y_sub Y v ''y'')) (\<lambda>c. gicp_voxel_y (reg_gicp c)) (\<lambda>v. updG (\<lambda>p. p\<lparr>gicp_voxel_y := v\<rparr>)),
         keep (y_real_or Y) (y_at Y n ''voxel'' (\<lambda>v. y_sub Y v ''z'')) (\<lambda>c. gicp_voxel_z (reg_gicp c)) (\<lambda>v. updG (\<lambda>p. p\<lparr>gicp_voxel_z := v\<rparr>))]),
      keep (y_bool_or Y) (y_sub Y n ''use_reciprocal'') (\<lambda>c. gicp_use_reciprocal (reg_gicp c)) (\<lambda>v. updG (\<lambda>p. p\<lparr>gicp_use_reciprocal := v\<rparr>)),
      keep (y_real_or Y) (y_sub Y n ''max_corr_dist'') (\<lambda>c. gicp_max_corr_dist (reg_gicp c)) (\<lambda>v. updG (\<lambda>p. p\<lparr>gicp_max_corr_dist := v\<rparr>)),
      keep (y_int_or Y) (y_sub Y n ''max_iter'') (\<lambda>c. gicp_max_iter (reg_gicp c)) (\<lambda>v. updG (\<lambda>p. p\<lparr>gicp_max_iter := v\<rparr>)),
      keep (y_real_or Y) (y_sub Y n ''trans_eps'') (\<lambda>c. gicp_trans_eps (reg_gicp c)) (\<lambda>v. updG (\<lambda>p. p\<lparr>gicp_trans_eps := v\<rparr>)),
      keep (y_real_or Y) (y_sub Y n ''euclid_eps'') (\<lambda>c. gicp_euclid_eps (reg_gicp c)) (\<lambda>v. updG (\<lambda>p. p\<lparr>gicp_euclid_eps := v\<rparr>)),
      keep (y_real_or Y) (y_sub Y n ''rot_eps'') (\<lambda>c. gicp_rot_eps (reg_gicp c)) (\<lambda>v. updG (\<lambda>p. p\<lparr>gicp_rot_eps := v\<rparr>)),
      keep (y_int_or Y) (y_sub Y n ''rand_num'') (\<lambda>c. gicp_rand_num (reg_gicp c)) (\<lambda>v. updG (\<lambda>p. p\<lparr>gicp_rand_num := v\<rparr>)),
      keep (y_real_or Y) (y_sub Y n ''fit_thresh'') (\<lambda>c. gicp_fit_thresh (reg_gicp c)) (\<lambda>v. updG (\<lambda>p. p\<lparr>gicp_fit_thresh := v\<rparr>)),
      keep (y_real_or Y) (y_sub Y n ''score_radius'') (\<lambda>c. gicp_score_radius (reg_gicp c)) (\<lambda>v. updG (\<lambda>p. p\<lparr>gicp_score_radius := v\<rparr>))]"

definition loadRegParam :: "'n yaml \<Rightarrow> string \<Rightarrow> reg_param \<Rightarrow> bool \<times> reg_param" where
  "loadRegParam Y cfgPath outParam =
     (case y_load Y cfgPath of
        None \<Rightarrow> (False, outParam)
      | Some doc \<Rightarrow>
          if \<not> y_defined Y doc then (False, outParam)
          else case exec
            [if_defined Y doc ''ndt'' (\<lambda>_. [with_val (y_sub Y doc ''ndt'') (ndt_stmts Y)]),
             if_defined Y doc ''gicp'' (\<lambda>_. [with_val (y_sub Y doc ''gicp'') (gicp_stmts Y)])] outParam
          of (fl, out) \<Rightarrow> (fl = Done, out))"

definition updEA :: "(radar_extrinsic \<Rightarrow> radar_extrinsic) \<Rightarrow> radar_global_config \<Rightarrow> radar_global_config" where
  "updEA f c = c\<lparr>rg_lidarA := f (rg_lidarA c)\<rparr>"

definition updEB :: "(radar_extrinsic \<Rightarrow> radar_extrinsic) \<Rightarrow> radar_global_config \<Rightarrow> radar_global_config" where
  "updEB f c = c\<lparr>rg_lidarB := f (rg_lidarB c)\<rparr>"

definition updM :: "(mqtt_config_param \<Rightarrow> mqtt_config_param) \<Rightarrow> radar_global_config \<Rightarrow> radar_global_config" where
  "updM f c = c\<lparr>rg_mqtt_cfg := f (rg_mqtt_cfg c)\<rparr>"

definition ext_stmts :: "'n yaml \<Rightarrow> ((radar_extrinsic \<Rightarrow> radar_extrinsic) \<Rightarrow> radar_global_config \<Rightarrow> radar_global_config)
    \<Rightarrow> 'n \<Rightarrow> radar_global_config stmt list" where
  "ext_stmts Y upd n =
     [with_val (y_at Y n ''trans'' (y_reals Y)) (\<lambda>arr. [assign_vec3 arr (\<lambda>v. upd (\<lambda>e. e\<lparr>ext_trans := v\<rparr>))]),
      assign (y_at Y n ''rotate_z_deg'' (y_real Y)) (\<lambda>v. upd (\<lambda>e. e\<lparr>ext_rotate_z_deg := v\<rparr>)),
      if_defined Y n ''rotate_y_deg'' (\<lambda>_. [assign (y_at Y n ''rotate_y_deg'' (y_real Y)) (\<lambda>v. upd (\<lambda>e. e\<lparr>ext_rotate_y_deg := v\<rparr>))]),
      if_defined Y n ''rotate_x_deg'' (\<lambda>_. [assign (y_at Y n ''rotate_x_deg'' (y_real Y)) (\<lambda>v. upd (\<lambda>e. e\<lparr>ext_rotate_x_deg := v\<rparr>))])]"

definition mqtt_stmts :: "'n yaml \<Rightarrow> 'n \<Rightarrow> radar_global_config stmt list" where
  "mqtt_stmts Y n =
     [assign (y_at Y n ''host'' (y_str Y)) (\<lambda>v. updM (\<lambda>m. m\<lparr>mq_host := v\<rparr>)),
      assign (y_at Y n ''port'' (y_int Y)) (\<lambda>v. updM (\<lambda>m. m\<lparr>mq_port := v\<rparr>)),
      assign (y_at Y n ''username'' (y_str Y)) (\<lambda>v. updM (\<lambda>m. m\<lparr>mq_username := v\<rparr>)),
      assign (y_at Y n ''password'' (y_str Y)) (\<lambda>v. updM (\<lambda>m. m\<lparr>mq_password := v\<rparr>)),
      assign (y_at Y n ''default_topic'' (y_str Y)) (\<lambda>v. updM (\<lambda>m. m\<lparr>mq_default_topic := v\<rparr>)),
      assign (y_at Y n ''dev_status_topic'' (y_str Y)) (\<lambda>v. updM (\<lambda>m. m\<lparr>mq_dev_status_topic := v\<rparr>)),
      assign (y_at Y n ''qos'' (y_int Y)) (\<lambda>v. updM (\<lambda>m. m\<lparr>mq_qos := v\<rparr>)),
      assign (y_at Y n ''reconnect_interval'' (y_int Y)) (\<lambda>v. updM (\<lambda>m. m\<lparr>mq_reconnect_interval := v\<rparr>)),
      assign (y_at Y n ''berth_id'' (y_str Y)) (\<lambda>v. updM (\<lambda>m. m\<lparr>mq_berth_id := v\<rparr>))]"

definition monitor_stmts :: "'n yaml \<Rightarrow> 'n \<Rightarrow> radar_global_config stmt list" where
  "monitor_stmts Y doc =
     [assign (y_at Y doc ''Abg_pcd_path'' (y_str Y)) (\<lambda>v c. c\<lparr>rg_lidarA_bg_pcd_path := v\<rparr>),
      assign (y_at Y doc ''Bbg_pcd_path'' (y_str Y)) (\<lambda>v c. c\<lparr>rg_lidarB_bg_pcd_path := v\<rparr>),
      assign (y_at Y doc ''dist_threshold'' (y_real Y)) (\<lambda>v c. c\<lparr>rg_dist_threshold := v\<rparr>),
      assign (y_at Y doc ''cluster_eps'' (y_real Y)) (\<lambda>v c. c\<lparr>rg_cluster_eps := v\<rparr>),
      assign (y_at Y doc ''cluster_min_points'' (y_int Y)) (\<lambda>v c. c\<lparr>rg_cluster_min_points := v\<rparr>),
      assign (y_at Y doc ''stable_frame_count'' (y_int Y)) (\<lambda>v c. c\<lparr>rg_stable_frame_count := v\<rparr>),
      assign (y_at Y doc ''stable_dist_threshold'' (y_real Y)) (\<lambda>v c. c\<lparr>rg_stable_dist_threshold := v\<rparr>),
      assign (y_at Y doc ''min_valid_ship_points'' (y_int Y)) (\<lambda>v c. c\<lparr>rg_min_valid_ship_points := v\<rparr>),
      with_val (y_sub Y doc ''lidar_a'') (ext_stmts Y updEA),
      with_val (y_sub Y doc ''lidar_b'') (ext_stmts Y updEB),
      if_defined Y doc ''base_update_interval_min'' (\<lambda>_.
        [assign (y_at Y doc ''base_update_interval_min'' (y_real Y)) (\<lambda>v c. c\<lparr>rg_base_update_interval_min := v\<rparr>)]),
      if_defined Y doc ''mqtt'' (\<lambda>_. [with_val (y_sub Y doc ''mqtt'') (mqtt_stmts Y)])]"

text \<open>\<open>None\<close>: undefined behaviour, from a \<open>trans\<close> array of fewer than three numbers.\<close>

definition loadMonitorConfig :: "'n yaml \<Rightarrow> string \<Rightarrow> radar_global_config \<Rightarrow> (bool \<times> radar_global_config) option" where
  "loadMonitorConfig Y yaml_path outConfig =
     (case y_load Y yaml_path of
        None \<Rightarrow> Some (False, outConfig)
      | Some doc \<Rightarrow>
          (case exec (monitor_stmts Y doc) outConfig of
             (Done, out) \<Rightarrow> Some (True, out)
           | (Thrown, out) \<Rightarrow> Some (False, out)
           | (Ub_index, out) \<Rightarrow> None))"

section \<open>Transforms\<close>

definition buildLidarTransform :: "'m eigen \<Rightarrow> radar_extrinsic \<Rightarrow> 'm" where
  "buildLidarTransform E ext =
     (let trans = eg_set_translation E (ext_trans ext) (eg_identity E);
          rad_z = ext_rotate_z_deg ext * pi / 180;
          rad_y = ext_rotate_y_deg ext * pi / 180;
          rad_x = ext_rotate_x_deg ext * pi / 180
      in eg_rotate E rad_x UnitX (eg_rotate E rad_y UnitY (eg_rotate E rad_z UnitZ trans)))"

definition getLidarATrans :: "'m eigen \<Rightarrow> radar_extrinsic \<Rightarrow> 'm" where
  "getLidarATrans E lidarA = buildLidarTransform E lidarA"

definition getLidarBTrans :: "'m eigen \<Rightarrow> radar_extrinsic \<Rightarrow> 'm" where
  "getLidarBTrans E lidarB = buildLidarTransform E lidarB"

section \<open>What a load leaves in the structure\<close>

lemma assign_Done: "assign r upd c = (Done, c') \<longleftrightarrow> (\<exists>v. r = Some v \<and> c' = upd v c)"
  by (auto simp: assign_def split: option.splits)

lemma exec_Cons_Done: "exec (s # ss) c = (Done, c') \<longleftrightarrow> (\<exists>c1. s c = (Done, c1) \<and> exec ss c1 = (Done, c'))"
  by (auto split: prod.splits flow.splits)

declare exec.simps(2) [simp del]

lemma with_val_Done: "with_val r body c = (Done, c') \<longleftrightarrow> (\<exists>v. r = Some v \<and> exec (body v) c = (Done, c'))"
  by (auto simp: with_val_def split: option.splits)

lemma if_defined_Done:
  "if_defined Y n key body c = (Done, c') \<longleftrightarrow>
     (\<exists>m. y_sub Y n key = Some m \<and> exec (if y_defined Y m then body m else []) c = (Done, c'))"
  by (simp add: if_defined_def with_val_Done)

lemma assign_vec3_Done:
  "assign_vec3 arr upd c = (Done, c') \<longleftrightarrow>
     3 \<le> length arr \<and> c' = upd \<lparr>px = arr ! 0, py = arr ! 1, pz = arr ! 2\<rparr> c"
  by (auto simp: assign_vec3_def)

lemmas exec_Done = exec_Cons_Done assign_Done with_val_Done if_defined_Done assign_vec3_Done

text \<open>The value an optional key gives a field: the file's if the key is there, else the old one.\<close>

definition opt_field :: "'n yaml \<Rightarrow> 'n \<Rightarrow> string \<Rightarrow> ('n \<Rightarrow> 'v option) \<Rightarrow> 'v \<Rightarrow> 'v option" where
  "opt_field Y n key conv old =
     Option.bind (y_sub Y n key) (\<lambda>m. if y_defined Y m then conv m else Some old)"

lemma if_defined_assign:
  assumes "upd (get c) c = c"
  shows "if_defined Y n key (\<lambda>_. [assign (y_at Y n key conv) upd]) c
     = assign (opt_field Y n key conv (get c)) upd c"
  using assms
  by (auto simp: if_defined_def with_val_def opt_field_def y_at_def assign_def exec.simps split: option.splits)

lemma optional_extrinsics:
  "if_defined Y n ''rotate_y_deg'' (\<lambda>_. [assign (y_at Y n ''rotate_y_deg'' (y_real Y)) (\<lambda>v. updEA (\<lambda>e. e\<lparr>ext_rotate_y_deg := v\<rparr>))]) c
     = assign (opt_field Y n ''rotate_y_deg'' (y_real Y) (ext_rotate_y_deg (rg_lidarA c))) (\<lambda>v. updEA (\<lambda>e. e\<lparr>ext_rotate_y_deg := v\<rparr>)) c"
  "if_defined Y n ''rotate_x_deg'' (\<lambda>_. [assign (y_at Y n ''rotate_x_deg'' (y_real Y)) (\<lambda>v. updEA (\<lambda>e. e\<lparr>ext_rotate_x_deg := v\<rparr>))]) c
     = assign (opt_field Y n ''rotate_x_deg'' (y_real Y) (ext_rotate_x_deg (rg_lidarA c))) (\<lambda>v. updEA (\<lambda>e. e\<lparr>ext_rotate_x_deg := v\<rparr>)) c"
  "if_defined Y n ''rotate_y_deg'' (\<lambda>_. [assign (y_at Y n ''rotate_y_deg'' (y_real Y)) (\<lambda>v. updEB (\<lambda>e. e\<lparr>ext_rotate_y_deg := v\<rparr>))]) c
     = assign (opt_field Y n ''rotate_y_deg'' (y_real Y) (ext_rotate_y_deg (rg_lidarB c))) (\<lambda>v. updEB (\<lambda>e. e\<lparr>ext_rotate_y_deg := v\<rparr>)) c"
  "if_defined Y n ''rotate_x_deg'' (\<lambda>_. [assign (y_at Y n ''rotate_x_deg'' (y_real Y)) (\<lambda>v. updEB (\<lambda>e. e\<lparr>ext_rotate_x_deg := v\<rparr>))]) c
     = assign (opt_field Y n ''rotate_x_deg'' (y_real Y) (ext_rotate_x_deg (rg_lidarB c))) (\<lambda>v. updEB (\<lambda>e. e\<lparr>ext_rotate_x_deg := v\<rparr>)) c"
  by (subst if_defined_assign; simp add: updEA_def updEB_def)+

lemma optional_interval:
  "if_defined Y n ''base_update_interval_min'' (\<lambda>_. [assign (y_at Y n ''base_update_interval_min'' (y_real Y)) (\<lambda>v c. c\<lparr>rg_base_update_interval_min := v\<rparr>)]) c
     = assign (opt_field Y n ''base_update_interval_min'' (y_real Y) (rg_base_update_interval_min c)) (\<lambda>v c. c\<lparr>rg_base_update_interval_min := v\<rparr>) c"
  by (subst if_defined_assign [where get = rg_base_update_interval_min]; simp)

text \<open>What a file with root node \<open>doc\<close> says of an extrinsic, over the old value.\<close>

definition ext_of :: "'n yaml \<Rightarrow> 'n \<Rightarrow> string \<Rightarrow> radar_extrinsic \<Rightarrow> radar_extrinsic \<Rightarrow> bool" where
  "ext_of Y doc key old e \<longleftrightarrow>
     (\<exists>n arr. y_sub Y doc key = Some n \<and> y_at Y n ''trans'' (y_reals Y) = Some arr \<and> 3 \<le> length arr
      \<and> ext_trans e = \<lparr>px = arr ! 0, py = arr ! 1, pz = arr ! 2\<rparr>
      \<and> y_at Y n ''rotate_z_deg'' (y_real Y) = Some (ext_rotate_z_deg e)
      \<and> opt_field Y n ''rotate_y_deg'' (y_real Y) (ext_rotate_y_deg old) = Some (ext_rotate_y_deg e)
      \<and> opt_field Y n ''rotate_x_deg'' (y_real Y) (ext_rotate_x_deg old) = Some (ext_rotate_x_deg e))"

lemma ext_stmts_A:
  "exec (ext_stmts Y updEA n) c = (Done, c') \<Longrightarrow> y_sub Y doc key = Some n \<Longrightarrow>
     \<exists>e. ext_of Y doc key (rg_lidarA c) e \<and> c' = c\<lparr>rg_lidarA := e\<rparr>"
  by (rule exI [of _ "rg_lidarA c'"]) (auto simp: ext_stmts_def optional_extrinsics exec_Cons_Done assign_Done with_val_Done
      assign_vec3_Done updEA_def ext_of_def)

lemma ext_stmts_B:
  "exec (ext_stmts Y updEB n) c = (Done, c') \<Longrightarrow> y_sub Y doc key = Some n \<Longrightarrow>
     \<exists>e. ext_of Y doc key (rg_lidarB c) e \<and> c' = c\<lparr>rg_lidarB := e\<rparr>"
  by (rule exI [of _ "rg_lidarB c'"]) (auto simp: ext_stmts_def optional_extrinsics exec_Cons_Done assign_Done with_val_Done
      assign_vec3_Done updEB_def ext_of_def)

definition mqtt_of :: "'n yaml \<Rightarrow> 'n \<Rightarrow> mqtt_config_param \<Rightarrow> bool" where
  "mqtt_of Y n m \<longleftrightarrow>
     y_at Y n ''host'' (y_str Y) = Some (mq_host m) \<and> y_at Y n ''port'' (y_int Y) = Some (mq_port m)
   \<and> y_at Y n ''username'' (y_str Y) = Some (mq_username m)
   \<and> y_at Y n ''password'' (y_str Y) = Some (mq_password m)
   \<and> y_at Y n ''default_topic'' (y_str Y) = Some (mq_default_topic m)
   \<and> y_at Y n ''dev_status_topic'' (y_str Y) = Some (mq_dev_status_topic m)
   \<and> y_at Y n ''qos'' (y_int Y) = Some (mq_qos m)
   \<and> y_at Y n ''reconnect_interval'' (y_int Y) = Some (mq_reconnect_interval m)
   \<and> y_at Y n ''berth_id'' (y_str Y) = Some (mq_berth_id m)"

lemma mqtt_stmts_Done:
  "exec (mqtt_stmts Y n) c = (Done, c') \<Longrightarrow> \<exists>m. mqtt_of Y n m \<and> c' = c\<lparr>rg_mqtt_cfg := m\<rparr>"
  by (rule exI [of _ "rg_mqtt_cfg c'"]) (auto simp: mqtt_stmts_def exec_Cons_Done assign_Done updM_def mqtt_of_def)

text \<open>
  C33: a successful load of \<open>monitor_config.yaml\<close> takes every mandatory field from the file, the
  two optional angles of each lidar, the update interval and the MQTT block from the file when
  they are there, and keeps the old values of those that are not.
\<close>

theorem loadMonitorConfig_reads:
  assumes "loadMonitorConfig Y path c = Some (True, c')"
  shows "\<exists>doc. y_load Y path = Some doc
    \<and> y_at Y doc ''Abg_pcd_path'' (y_str Y) = Some (rg_lidarA_bg_pcd_path c')
    \<and> y_at Y doc ''Bbg_pcd_path'' (y_str Y) = Some (rg_lidarB_bg_pcd_path c')
    \<and> y_at Y doc ''dist_threshold'' (y_real Y) = Some (rg_dist_threshold c')
    \<and> y_at Y doc ''cluster_eps'' (y_real Y) = Some (rg_cluster_eps c')
    \<and> y_at Y doc ''cluster_min_points'' (y_int Y) = Some (rg_cluster_min_points c')
    \<and> y_at Y doc ''stable_frame_count'' (y_int Y) = Some (rg_stable_frame_count c')
    \<and> y_at Y doc ''stable_dist_threshold'' (y_real Y) = Some (rg_stable_dist_threshold c')
    \<and> y_at Y doc ''min_valid_ship_points'' (y_int Y) = Some (rg_min_valid_ship_points c')
    \<and> ext_of Y doc ''lidar_a'' (rg_lidarA c) (rg_lidarA c')
    \<and> ext_of Y doc ''lidar_b'' (rg_lidarB c) (rg_lidarB c')
    \<and> opt_field Y doc ''base_update_interval_min'' (y_real Y) (rg_base_update_interval_min c)
        = Some (rg_base_update_interval_min c')
    \<and> (\<exists>m. y_sub Y doc ''mqtt'' = Some m
          \<and> (if y_defined Y m then mqtt_of Y m (rg_mqtt_cfg c') else rg_mqtt_cfg c' = rg_mqtt_cfg c))"
proof -
  obtain doc where doc: "y_load Y path = Some doc" "exec (monitor_stmts Y doc) c = (Done, c')"
    using assms by (auto simp: loadMonitorConfig_def split: option.splits prod.splits flow.splits)
  from doc(2) obtain v1 v2 v3 v4 v5 v6 v7 v8 c1 na c2 nb c3 iv where
    v: "y_at Y doc ''Abg_pcd_path'' (y_str Y) = Some v1" "y_at Y doc ''Bbg_pcd_path'' (y_str Y) = Some v2"
      "y_at Y doc ''dist_threshold'' (y_real Y) = Some v3" "y_at Y doc ''cluster_eps'' (y_real Y) = Some v4"
      "y_at Y doc ''cluster_min_points'' (y_int Y) = Some v5"
      "y_at Y doc ''stable_frame_count'' (y_int Y) = Some v6"
      "y_at Y doc ''stable_dist_threshold'' (y_real Y) = Some v7"
      "y_at Y doc ''min_valid_ship_points'' (y_int Y) = Some v8"
    and c1: "c1 = c\<lparr>rg_lidarA_bg_pcd_path := v1, rg_lidarB_bg_pcd_path := v2, rg_dist_threshold := v3,
       rg_cluster_eps := v4, rg_cluster_min_points := v5, rg_stable_frame_count := v6,
       rg_stable_dist_threshold := v7, rg_min_valid_ship_points := v8\<rparr>"
    and na: "y_sub Y doc ''lidar_a'' = Some na" "exec (ext_stmts Y updEA na) c1 = (Done, c2)"
    and nb: "y_sub Y doc ''lidar_b'' = Some nb" "exec (ext_stmts Y updEB nb) c2 = (Done, c3)"
    and iv: "opt_field Y doc ''base_update_interval_min'' (y_real Y) (rg_base_update_interval_min c3) = Some iv"
    and mq: "if_defined Y doc ''mqtt'' (\<lambda>_. [with_val (y_sub Y doc ''mqtt'') (mqtt_stmts Y)])
       (c3\<lparr>rg_base_update_interval_min := iv\<rparr>) = (Done, c')"
    unfolding monitor_stmts_def exec_Cons_Done assign_Done with_val_Done optional_interval by auto
  obtain ea where ea: "ext_of Y doc ''lidar_a'' (rg_lidarA c1) ea" "c2 = c1\<lparr>rg_lidarA := ea\<rparr>"
    using ext_stmts_A [OF na(2,1)] by blast
  obtain eb where eb: "ext_of Y doc ''lidar_b'' (rg_lidarB c2) eb" "c3 = c2\<lparr>rg_lidarB := eb\<rparr>"
    using ext_stmts_B [OF nb(2,1)] by blast
  obtain n m where m: "y_sub Y doc ''mqtt'' = Some n"
      "c' = c3\<lparr>rg_base_update_interval_min := iv, rg_mqtt_cfg := m\<rparr>"
      "if y_defined Y n then mqtt_of Y n m else m = rg_mqtt_cfg c3"
    using mq mqtt_stmts_Done
    by (fastforce simp: if_defined_Done exec_Cons_Done with_val_Done split: if_splits)
  show ?thesis
    using doc(1) v ea eb iv m by (simp add: c1)
qed

text \<open>A concrete tree of nodes, and the accessors on it.\<close>

datatype ynode = YUndef | YInt int | YReal real | YStr string | YReals "real list" | YMap "(string \<times> ynode) list"

fun node_sub :: "ynode \<Rightarrow> string \<Rightarrow> ynode option" where
  "node_sub (YMap kvs) k = Some (case map_of kvs k of None \<Rightarrow> YUndef | Some n \<Rightarrow> n)"
| "node_sub YUndef k = Some YUndef"
| "node_sub _ k = None"

fun node_int :: "ynode \<Rightarrow> int option" where
  "node_int (YInt i) = Some i"
| "node_int _ = None"

fun node_real :: "ynode \<Rightarrow> real option" where
  "node_real (YReal r) = Some r"
| "node_real (YInt i) = Some (of_int i)"
| "node_real _ = None"

fun node_str :: "ynode \<Rightarrow> string option" where
  "node_str (YStr x) = Some x"
| "node_str _ = None"

fun node_reals :: "ynode \<Rightarrow> real list option" where
  "node_reals (YReals rs) = Some rs"
| "node_reals _ = None"

definition or_else :: "'v option \<Rightarrow> 'v \<Rightarrow> 'v option" where
  "or_else r d = Some (case r of None \<Rightarrow> d | Some v \<Rightarrow> v)"

definition tree_yaml :: "(string \<Rightarrow> ynode option) \<Rightarrow> ynode yaml" where
  "tree_yaml files = \<lparr>y_load = files, y_defined = (\<lambda>n. n \<noteq> YUndef), y_sub = node_sub,
     y_int = node_int, y_real = node_real, y_str = node_str, y_bool = (\<lambda>_. None), y_reals = node_reals,
     y_int_or = (\<lambda>n. or_else (node_int n)), y_real_or = (\<lambda>n. or_else (node_real n)),
     y_str_or = (\<lambda>n. or_else (node_str n)), y_bool_or = (\<lambda>_ d. Some d)\<rparr>"

text \<open>Structures before anything is loaded (the uninitialised members are given zeros).\<close>

definition blank_lidars :: all_lidar_configs where
  "blank_lidars =
     (let l = \<lparr>lc_name = [], lc_lidar_ip = [], lc_local_ip = [], lc_dev_port = 0, lc_data_port = 0\<rparr>
      in \<lparr>alc_lidarA = l, alc_lidarB = l, alc_debug_save = 0, alc_ship_monitor = 0, alc_save_min = 0\<rparr>)"

definition blank_monitor :: radar_global_config where
  "blank_monitor =
     (let e = \<lparr>ext_trans = origin, ext_rotate_z_deg = 0, ext_rotate_y_deg = 0, ext_rotate_x_deg = 0\<rparr>
      in \<lparr>rg_lidarA_bg_pcd_path = [], rg_lidarB_bg_pcd_path = [], rg_dist_threshold = 0, rg_cluster_eps = 0,
          rg_cluster_min_points = 0, rg_stable_frame_count = 0, rg_stable_dist_threshold = 0,
          rg_min_valid_ship_points = 0, rg_lidarA = e, rg_lidarB = e, rg_base_update_interval_min = 300,
          rg_mqtt_cfg = \<lparr>mq_berth_id = [], mq_host = [], mq_port = 0, mq_username = [], mq_password = [],
            mq_default_topic = [], mq_dev_status_topic = [], mq_qos = 0, mq_reconnect_interval = 0\<rparr>\<rparr>)"

definition sample_ext :: ynode where
  "sample_ext = YMap [(''trans'', YReals [1, 2, 3]), (''rotate_z_deg'', YInt 90)]"

definition sample_monitor :: ynode where
  "sample_monitor = YMap [(''Abg_pcd_path'', YStr ''a.pcd''), (''Bbg_pcd_path'', YStr ''b.pcd''),
     (''dist_threshold'', YInt 1), (''cluster_eps'', YInt 2), (''cluster_min_points'', YInt 100),
     (''stable_frame_count'', YInt 10), (''stable_dist_threshold'', YInt 1),
     (''min_valid_ship_points'', YInt 150), (''lidar_a'', sample_ext), (''lidar_b'', sample_ext)]"

theorem loadMonitorConfig_reads_witness:
  "\<forall>c. \<exists>c'. loadMonitorConfig (tree_yaml (\<lambda>_. Some sample_monitor)) ''f'' c = Some (True, c')
     \<and> rg_stable_frame_count c' = 10 \<and> rg_mqtt_cfg c' = rg_mqtt_cfg c"
proof
  fix c :: radar_global_config
  let ?Y = "tree_yaml (\<lambda>_. Some sample_monitor)"
  have "\<exists>c'. loadMonitorConfig ?Y ''f'' c = Some (True, c')"
    by (simp add: loadMonitorConfig_def monitor_stmts_def ext_stmts_def exec.simps assign_def
        with_val_def if_defined_def y_at_def assign_vec3_def tree_yaml_def sample_monitor_def sample_ext_def)
  then obtain c' where c': "loadMonitorConfig ?Y ''f'' c = Some (True, c')" by blast
  from loadMonitorConfig_reads [OF this] c'
  show "\<exists>c'. loadMonitorConfig ?Y ''f'' c = Some (True, c') \<and> rg_stable_frame_count c' = 10
      \<and> rg_mqtt_cfg c' = rg_mqtt_cfg c"
    by (intro exI [of _ c']) (auto simp: y_at_def tree_yaml_def sample_monitor_def)
qed

text \<open>
  What yaml-cpp documents of \<open>as<T>(fallback)\<close>: the converted value, or the fallback. Accesses
  with \<open>operator[]\<close> succeed on the nodes the registration file consists of.
\<close>

definition fallback_law :: "'n yaml \<Rightarrow> bool" where
  "fallback_law Y \<longleftrightarrow>
     (\<forall>n d. y_int_or Y n d = or_else (y_int Y n) d) \<and> (\<forall>n d. y_real_or Y n d = or_else (y_real Y n) d)
   \<and> (\<forall>n d. y_bool_or Y n d = or_else (y_bool Y n) d) \<and> (\<forall>n d. y_str_or Y n d = or_else (y_str Y n) d)"

definition node_of :: "'n yaml \<Rightarrow> 'n \<Rightarrow> string \<Rightarrow> 'n" where
  "node_of Y n k = the (y_sub Y n k)"

definition val_or :: "('n \<Rightarrow> 'v option) \<Rightarrow> 'n \<Rightarrow> 'v \<Rightarrow> 'v" where
  "val_or conv n d = (case conv n of None \<Rightarrow> d | Some v \<Rightarrow> v)"

definition ndt_of :: "'n yaml \<Rightarrow> 'n \<Rightarrow> ndt_param \<Rightarrow> ndt_param" where
  "ndt_of Y n p =
     (let vx = node_of Y n ''voxel'';
          p1 = (if y_defined Y vx
                then p\<lparr>ndt_voxel_x := val_or (y_real Y) (node_of Y vx ''x'') (ndt_voxel_x p),
                        ndt_voxel_y := val_or (y_real Y) (node_of Y vx ''y'') (ndt_voxel_y p),
                        ndt_voxel_z := val_or (y_real Y) (node_of Y vx ''z'') (ndt_voxel_z p)\<rparr>
                else p)
      in p1\<lparr>ndt_max_iter := val_or (y_int Y) (node_of Y n ''max_iter'') (ndt_max_iter p),
        ndt_trans_eps := val_or (y_real Y) (node_of Y n ''trans_eps'') (ndt_trans_eps p),
        ndt_step_size := val_or (y_real Y) (node_of Y n ''step_size'') (ndt_step_size p),
        ndt_resolution := val_or (y_real Y) (node_of Y n ''resolution'') (ndt_resolution p),
        ndt_fit_thresh := val_or (y_real Y) (node_of Y n ''fit_thresh'') (ndt_fit_thresh p)\<rparr>)"

definition gicp_of :: "'n yaml \<Rightarrow> 'n \<Rightarrow> gicp_param \<Rightarrow> gicp_param" where
  "gicp_of Y n p =
     (let vx = node_of Y n ''voxel'';
          p1 = (if y_defined Y vx
                then p\<lparr>gicp_voxel_x := val_or (y_real Y) (node_of Y vx ''x'') (gicp_voxel_x p),
                        gicp_voxel_y := val_or (y_real Y) (node_of Y vx ''y'') (gicp_voxel_y p),
                        gicp_voxel_z := val_or (y_real Y) (node_of Y vx ''z'') (gicp_voxel_z p)\<rparr>
                else p)
      in p1\<lparr>gicp_use_reciprocal := val_or (y_bool Y) (node_of Y n ''use_reciprocal'') (gicp_use_reciprocal p),
        gicp_max_corr_dist := val_or (y_real Y) (node_of Y n ''max_corr_dist'') (gicp_max_corr_dist p),
        gicp_max_iter := val_or (y_int Y) (node_of Y n ''max_iter'') (gicp_max_iter p),
        gicp_trans_eps := val_or (y_real Y) (node_of Y n ''trans_eps'') (gicp_trans_eps p),
        gicp_euclid_eps := val_or (y_real Y) (node_of Y n ''euclid_eps'') (gicp_euclid_eps p),
        gicp_rot_eps := val_or (y_real Y) (node_of Y n ''rot_eps'') (gicp_rot_eps p),
        gicp_rand_num := val_or (y_int Y) (node_of Y n ''rand_num'') (gicp_rand_num p),
        gicp_fit_thresh := val_or (y_real Y) (node_of Y n ''fit_thresh'') (gicp_fit_thresh p),
        gicp_score_radius := val_or (y_real Y) (node_of Y n ''score_radius'') (gicp_score_radius p)\<rparr>)"

definition opt_node :: "'n yaml \<Rightarrow> 'n \<Rightarrow> string \<Rightarrow> ('n \<Rightarrow> 'p \<Rightarrow> 'p) \<Rightarrow> 'p \<Rightarrow> 'p" where
  "opt_node Y n k f p = (if y_defined Y (node_of Y n k) then f (node_of Y n k) p else p)"

definition sub_total :: "'n yaml \<Rightarrow> bool" where
  "sub_total Y \<longleftrightarrow> (\<forall>n k. y_sub Y n k \<noteq> None)"

lemma sub_totalD: "sub_total Y \<Longrightarrow> y_sub Y n k = Some (node_of Y n k)"
  by (auto simp: sub_total_def node_of_def)

lemma y_at_total: "sub_total Y \<Longrightarrow> y_at Y n k f = f (node_of Y n k)"
  by (simp add: y_at_def sub_totalD)

lemma exec_append: "exec xs c = (Done, c1) \<Longrightarrow> exec (xs @ ys) c = exec ys c1"
  by (induction xs arbitrary: c) (auto simp: exec.simps split: prod.splits flow.splits)

lemma exec_keep:
  assumes "fallback_law Y"
  shows "exec (keep (y_real_or Y) (Some n) getr updr # ss) c = exec ss (updr (val_or (y_real Y) n (getr c)) c)"
    "exec (keep (y_int_or Y) (Some n) geti updi # ss) c = exec ss (updi (val_or (y_int Y) n (geti c)) c)"
    "exec (keep (y_bool_or Y) (Some n) getb updb # ss) c = exec ss (updb (val_or (y_bool Y) n (getb c)) c)"
  using assms by (simp_all add: fallback_law_def exec.simps keep_def assign_def or_else_def val_or_def)

lemma exec_block:
  assumes "sub_total Y" "y_defined Y (node_of Y n k) \<Longrightarrow> exec (body (node_of Y n k)) c = (Done, c1)"
  shows "exec (if_defined Y n k body # ss) c = exec ss (if y_defined Y (node_of Y n k) then c1 else c)"
  using assms by (simp add: exec.simps if_defined_def with_val_def sub_totalD)

lemma exec_ndt:
  assumes "fallback_law Y" "sub_total Y"
  shows "exec (ndt_stmts Y n) c = (Done, c\<lparr>reg_ndt := ndt_of Y n (reg_ndt c)\<rparr>)"
  unfolding ndt_stmts_def
  by (cases "y_defined Y (node_of Y n ''voxel'')"; subst exec_block [OF assms(2)])
    (simp_all add: y_at_total sub_totalD assms exec_keep updN_def ndt_of_def Let_def, simp_all?)

lemma exec_gicp:
  assumes "fallback_law Y" "sub_total Y"
  shows "exec (gicp_stmts Y n) c = (Done, c\<lparr>reg_gicp := gicp_of Y n (reg_gicp c)\<rparr>)"
  unfolding gicp_stmts_def
  by (cases "y_defined Y (node_of Y n ''voxel'')"; subst exec_block [OF assms(2)])
    (simp_all add: y_at_total sub_totalD assms exec_keep updG_def gicp_of_def Let_def, simp_all?)

text \<open>
  \<open>loadRegParam\<close> on a readable file always succeeds, and replaces exactly the parameters
  that are present and convertible: a missing section, a missing voxel block or a missing or
  ill-typed key leaves the value the structure had before, which is the compiled-in default
  when the structure is fresh.
\<close>

theorem loadRegParam_spec:
  assumes "fallback_law Y" "sub_total Y" "y_load Y path = Some doc" "y_defined Y doc"
  shows "loadRegParam Y path c = (True,
     c\<lparr>reg_ndt := opt_node Y doc ''ndt'' (ndt_of Y) (reg_ndt c),
       reg_gicp := opt_node Y doc ''gicp'' (gicp_of Y) (reg_gicp c)\<rparr>)"
proof -
  have n: "exec [with_val (y_sub Y doc ''ndt'') (ndt_stmts Y)] c
      = (Done, c\<lparr>reg_ndt := ndt_of Y (node_of Y doc ''ndt'') (reg_ndt c)\<rparr>)" for c
    using assms by (simp add: exec.simps with_val_def sub_totalD exec_ndt)
  have g: "exec [with_val (y_sub Y doc ''gicp'') (gicp_stmts Y)] c
      = (Done, c\<lparr>reg_gicp := gicp_of Y (node_of Y doc ''gicp'') (reg_gicp c)\<rparr>)" for c
    using assms by (simp add: exec.simps with_val_def sub_totalD exec_gicp)
  show ?thesis
    using assms(3,4)
    by (simp add: loadRegParam_def exec_block [OF assms(2) n] exec_block [OF assms(2) g] opt_node_def)
qed

definition total_yaml :: "(string \<Rightarrow> ynode option) \<Rightarrow> ynode yaml" where
  "total_yaml files = (tree_yaml files)\<lparr>y_sub := (\<lambda>n k. Some (case node_sub n k of None \<Rightarrow> YUndef | Some m \<Rightarrow> m))\<rparr>"

theorem loadRegParam_spec_witness:
  "loadRegParam (total_yaml (\<lambda>_. Some (YMap [(''ndt'', YMap [(''max_iter'', YInt 50), (''step_size'', YStr ''x'')])])))
     ''reg.yaml'' reg_default
   = (True, reg_default\<lparr>reg_ndt := ndt_default\<lparr>ndt_max_iter := 50\<rparr>\<rparr>)"
proof -
  let ?doc = "YMap [(''ndt'', YMap [(''max_iter'', YInt 50), (''step_size'', YStr ''x'')])]"
  let ?Y = "total_yaml (\<lambda>_. Some ?doc)"
  have h: "fallback_law ?Y" "sub_total ?Y" "y_load ?Y ''reg.yaml'' = Some ?doc" "y_defined ?Y ?doc"
    by (auto simp: fallback_law_def sub_total_def total_yaml_def tree_yaml_def or_else_def)
  show ?thesis
    unfolding loadRegParam_spec [OF h]
    by (simp add: opt_node_def ndt_of_def node_of_def val_or_def total_yaml_def tree_yaml_def reg_default_def
        ndt_default_def)
qed

lemma buildLidarTransform_rigid:
  assumes "eigen_law E"
  shows "eg_rigid E (buildLidarTransform E ext)"
  unfolding buildLidarTransform_def Let_def
  by (intro eigen_lawD(8-10) [OF assms])

text \<open>
  The extrinsic transform of a lidar is the rigid motion that rotates about \<open>x\<close>, then
  \<open>y\<close>, then \<open>z\<close> by the configured degrees and then adds the configured translation; its
  inverse undoes it.
\<close>

theorem buildLidarTransform_action:
  assumes "eigen_law E"
  shows "eg_apply E (buildLidarTransform E ext) p =
       pt_add (rot_axis (ext_rotate_z_deg ext * pi / 180) UnitZ (rot_axis (ext_rotate_y_deg ext * pi / 180) UnitY
         (rot_axis (ext_rotate_x_deg ext * pi / 180) UnitX p))) (ext_trans ext)
     \<and> eg_rigid E (buildLidarTransform E ext)
     \<and> eg_apply E (eg_inverse E (buildLidarTransform E ext)) (eg_apply E (buildLidarTransform E ext) p) = p"
proof -
  have "pt_sub p origin = p" for p by (auto intro: pointT_eqI simp: origin_def)
  then have act: "eg_apply E (buildLidarTransform E ext) p =
       pt_add (rot_axis (ext_rotate_z_deg ext * pi / 180) UnitZ (rot_axis (ext_rotate_y_deg ext * pi / 180) UnitY
         (rot_axis (ext_rotate_x_deg ext * pi / 180) UnitX p))) (ext_trans ext)"
    unfolding buildLidarTransform_def Let_def by (simp only: eigen_lawD(1-3) [OF assms])
  have "eg_rigid E (buildLidarTransform E ext)" by (rule buildLidarTransform_rigid [OF assms])
  then show ?thesis using act eigen_lawD(6) [OF assms] by blast
qed

theorem buildLidarTransform_action_witness:
  "eg_apply motion_eigen (buildLidarTransform motion_eigen
     \<lparr>ext_trans = \<lparr>px = 1, py = 2, pz = 3\<rparr>, ext_rotate_z_deg = 180, ext_rotate_y_deg = 0, ext_rotate_x_deg = 0\<rparr>)
     \<lparr>px = 5, py = 0, pz = 0\<rparr> = \<lparr>px = - 4, py = 2, pz = 3\<rparr>"
  using buildLidarTransform_action [OF motion_eigen_law, of "\<lparr>ext_trans = \<lparr>px = 1, py = 2, pz = 3\<rparr>,
     ext_rotate_z_deg = 180, ext_rotate_y_deg = 0, ext_rotate_x_deg = 0\<rparr>" "\<lparr>px = 5, py = 0, pz = 0\<rparr>"]
  by (simp add: pt_add_def)

end
