(* ===== verification/Point_Fuser.thy ===== *)
theory Point_Fuser
  imports Ring_Queue System_State Config_Loader
begin

text \<open>
  \<open>include/point_cloud_fuser.h\<close> and \<open>src/point_cloud_fuser.cpp\<close>: the thread that pairs the
  frames of the two lidars by time stamp, moves the points of lidar B into the coordinates of
  lidar A and hands the merged frame to the pose calculator. \<open>fuse_iteration\<close> is one pass of
  \<open>fuseLoop\<close> over the three queues and the two caches. A push into the output queue blocks; it
  is the loop \<open>enq_retry\<close> of the theory \<open>Ring_Queue\<close>, driven by a schedule of what happens during
  each wait (whether \<open>is_running_\<close> is still set, how many frames the consumer takes).
\<close>

section \<open>Frames and state\<close>

record raw_cloud =
  raw_lidar_ip :: string
  raw_lidar_id :: string
  raw_timestamp :: u64
  raw_points :: cloud

record fused_cloud =
  fu_lidar_ip :: string
  fu_lidar_id :: string
  fu_timestamp :: u64
  fu_points :: cloud
  fu_valid_points :: int

definition MATCH_NS :: u64 where "MATCH_NS = 500"
definition MAX_CACHE_FRAME :: nat where "MAX_CACHE_FRAME = 30"
definition FRAME_CACHE :: nat where "FRAME_CACHE = 2"

text \<open>
  What the loop reports: a cache overflow (a log line), a stale frame (a log line and
  \<open>reportError\<close>), and the debug dump of a fused frame.
\<close>

datatype fuse_event = Cache_A_overflow | Cache_B_overflow | Stale_A | Stale_B | Save_pcd u64

text \<open>
  The output side: the queue, the frames its consumer has taken so far, the schedules of the
  blocking pushes to come, and the events.
\<close>

record out_side =
  os_queue :: "fused_cloud ring_queue"
  os_taken :: "fused_cloud list"
  os_waits :: "(bool \<times> nat) list list"
  os_events :: "fuse_event list"

record 'm fuser =
  fz_is_running :: bool
  fz_thread :: bool          \<comment> \<open>the thread object is joinable\<close>
  fz_fuse_cfg :: radar_global_config
  fz_lidarCfg :: all_lidar_configs
  fz_T_A2B :: 'm
  fz_T_B2A :: 'm
  fz_cacheA :: "raw_cloud list"
  fz_cacheB :: "raw_cloud list"

section \<open>Start and stop\<close>

text \<open>\<open>None\<close> is the undefined behaviour \<open>loadMonitorConfig\<close> can run into.\<close>

definition fuser_start :: "'n yaml \<Rightarrow> 'm eigen \<Rightarrow> 'm fuser \<Rightarrow> 'm fuser option" where
  "fuser_start Y E f =
     (if fz_is_running f then Some f
      else let f1 = f\<lparr>fz_is_running := True\<rparr>;
               (ok1, lc) = loadLidarConfigs Y ''../dev_config.yaml'' (fz_lidarCfg f1);
               f2 = f1\<lparr>fz_lidarCfg := lc\<rparr>
           in if \<not> ok1 then Some f2
              else case loadMonitorConfig Y ''../monitor_config.yaml'' (fz_fuse_cfg f2) of
                None \<Rightarrow> None
              | Some (ok2, mc) \<Rightarrow>
                  (let f3 = f2\<lparr>fz_fuse_cfg := mc\<rparr>
                   in if \<not> ok2 then Some f3
                      else let T_A2dock = getLidarATrans E (rg_lidarA mc);
                               T_B2dock = getLidarBTrans E (rg_lidarB mc);
                               T_B2A = eg_mult E (eg_inverse E T_A2dock) T_B2dock
                           in Some (f3\<lparr>fz_T_B2A := T_B2A, fz_T_A2B := eg_inverse E T_B2A,
                                       fz_thread := True\<rparr>)))"

definition fuser_stop :: "'m fuser \<Rightarrow> 'm fuser" where
  "fuser_stop f = f\<lparr>fz_is_running := False, fz_thread := False\<rparr>"

section \<open>One pass of the loop\<close>

text \<open>
  \<open>fuse\<close>; \<open>transform\<close> is \<open>pcl::transformPointCloud\<close>. The second component is the debug dump.
\<close>

definition fuse :: "('m \<Rightarrow> cloud \<Rightarrow> cloud) \<Rightarrow> 'm fuser \<Rightarrow> raw_cloud \<Rightarrow> raw_cloud
    \<Rightarrow> fused_cloud \<times> fuse_event list" where
  "fuse transform f lidarA lidarB =
     (let ts = max (raw_timestamp lidarA) (raw_timestamp lidarB);
          pts = raw_points lidarA @ transform (fz_T_B2A f) (raw_points lidarB)
      in (\<lparr>fu_lidar_ip = raw_lidar_ip lidarA @ '','' @ raw_lidar_ip lidarB,
           fu_lidar_id = raw_lidar_id lidarA, fu_timestamp = ts, fu_points = pts,
           fu_valid_points = int (length pts)\<rparr>,
          if alc_debug_save (fz_lidarCfg f) \<noteq> 0 then [Save_pcd ts] else []))"

text \<open>The frame of a single lidar, copied.\<close>

definition single :: "raw_cloud \<Rightarrow> fused_cloud" where
  "single a = \<lparr>fu_lidar_ip = raw_lidar_ip a, fu_lidar_id = raw_lidar_id a,
     fu_timestamp = raw_timestamp a, fu_points = raw_points a,
     fu_valid_points = int (length (raw_points a))\<rparr>"

definition note_event :: "fuse_event list \<Rightarrow> out_side \<Rightarrow> out_side" where
  "note_event es os = os\<lparr>os_events := os_events os @ es\<rparr>"

text \<open>The blocking push; \<open>None\<close> when the schedule ends with the loop still waiting.\<close>

definition push_out :: "fused_cloud \<Rightarrow> out_side \<Rightarrow> out_side option" where
  "push_out x os =
     map_option (\<lambda>(ok, ds, q). os\<lparr>os_queue := q, os_taken := os_taken os @ ds, os_waits := tl (os_waits os)\<rparr>)
       (enq_retry enqueue dequeue (os_queue os) x (case os_waits os of [] \<Rightarrow> [] | w # _ \<Rightarrow> w))"

text \<open>\<open>while (cache.size() > MAX_CACHE_FRAME) erase front, warn\<close>.\<close>

fun trim_cache :: "fuse_event \<Rightarrow> raw_cloud list \<Rightarrow> out_side \<Rightarrow> raw_cloud list \<times> out_side" where
  "trim_cache e [] os = ([], os)"
| "trim_cache e (x # xs) os =
     (if MAX_CACHE_FRAME < length (x # xs) then trim_cache e xs (note_event [e] os) else (x # xs, os))"

definition pull :: "fuse_event \<Rightarrow> raw_cloud ring_queue \<Rightarrow> raw_cloud list \<Rightarrow> out_side
    \<Rightarrow> raw_cloud ring_queue \<times> raw_cloud list \<times> out_side" where
  "pull e q cache os =
     (case dequeue q of
        (None, q') \<Rightarrow> (q', cache, os)
      | (Some d, q') \<Rightarrow> (q', trim_cache e (cache @ [d]) os))"

definition diff_ns :: "raw_cloud \<Rightarrow> raw_cloud \<Rightarrow> u64" where
  "diff_ns a b = (if raw_timestamp b < raw_timestamp a then raw_timestamp a - raw_timestamp b
                  else raw_timestamp b - raw_timestamp a)"

text \<open>The matching loop: whether a pair was found, the caches, the output side.\<close>

fun match_loop :: "('m \<Rightarrow> cloud \<Rightarrow> cloud) \<Rightarrow> 'm fuser \<Rightarrow> bool \<Rightarrow> raw_cloud list \<Rightarrow> raw_cloud list
    \<Rightarrow> out_side \<Rightarrow> (bool \<times> raw_cloud list \<times> raw_cloud list \<times> out_side) option" where
  "match_loop tr f matched (a # as) (b # bs) os =
     (if diff_ns a b < MATCH_NS
      then (case fuse tr f a b of (fused, ev) \<Rightarrow>
              (case push_out fused (note_event ev os) of
                 None \<Rightarrow> None
               | Some os' \<Rightarrow> match_loop tr f True as bs os'))
      else if raw_timestamp a < raw_timestamp b
      then match_loop tr f matched as (b # bs) (note_event [Stale_A] os)
      else match_loop tr f matched (a # as) bs (note_event [Stale_B] os))"
| "match_loop tr f matched as bs os = Some (matched, as, bs, os)"

text \<open>The two branches after the loop.\<close>

definition single_step :: "bool \<Rightarrow> raw_cloud list \<Rightarrow> raw_cloud list \<Rightarrow> out_side
    \<Rightarrow> (bool \<times> raw_cloud list \<times> out_side) option" where
  "single_step matched own other os =
     (case own of
        [] \<Rightarrow> Some (matched, own, os)
      | x # rest \<Rightarrow>
          if \<not> matched \<and> other = []
          then map_option (\<lambda>os'. (True, rest, os')) (push_out (single x) os)
          else Some (matched, own, os))"

record fuse_env =
  fe_queueA :: "raw_cloud ring_queue"
  fe_queueB :: "raw_cloud ring_queue"
  fe_out :: out_side

text \<open>The pass after the two pulls: the guard, the matching loop, the two single-lidar branches.\<close>

definition fuse_match :: "('m \<Rightarrow> cloud \<Rightarrow> cloud) \<Rightarrow> 'm fuser \<times> fuse_env \<Rightarrow> ('m fuser \<times> fuse_env) option" where
  "fuse_match tr s =
     (case s of (f, e) \<Rightarrow>
      let ca = fz_cacheA f; cb = fz_cacheB f
      in if length ca \<le> FRAME_CACHE \<or> length cb \<le> FRAME_CACHE then Some (f, e)
         else case match_loop tr f False ca cb (fe_out e) of
           None \<Rightarrow> None
         | Some (m, ca1, cb1, os1) \<Rightarrow>
             (case single_step m ca1 cb1 os1 of
                None \<Rightarrow> None
              | Some (m1, ca2, os2) \<Rightarrow>
                  (case single_step m1 cb1 ca2 os2 of
                     None \<Rightarrow> None
                   | Some (m2, cb2, os3) \<Rightarrow>
                       Some (f\<lparr>fz_cacheA := ca2, fz_cacheB := cb2\<rparr>, e\<lparr>fe_out := os3\<rparr>))))"

definition fuse_iteration :: "('m \<Rightarrow> cloud \<Rightarrow> cloud) \<Rightarrow> 'm fuser \<times> fuse_env \<Rightarrow> ('m fuser \<times> fuse_env) option" where
  "fuse_iteration tr s =
     (case s of (f, e) \<Rightarrow>
      case pull Cache_A_overflow (fe_queueA e) (fz_cacheA f) (fe_out e) of (qa, ca, os1) \<Rightarrow>
      case pull Cache_B_overflow (fe_queueB e) (fz_cacheB f) os1 of (qb, cb, os2) \<Rightarrow>
      fuse_match tr (f\<lparr>fz_cacheA := ca, fz_cacheB := cb\<rparr>,
                     \<lparr>fe_queueA = qa, fe_queueB = qb, fe_out = os2\<rparr>))"

section \<open>The pairing\<close>

text \<open>
  The frames delivered so far and still queued, in order; and that the component is not being
  stopped during the pushes to come.
\<close>

definition stream :: "out_side \<Rightarrow> fused_cloud list" where
  "stream os = os_taken os @ rq_list (os_queue os)"

definition running :: "out_side \<Rightarrow> bool" where
  "running os \<longleftrightarrow> (\<forall>w\<in>set (os_waits os). \<forall>e\<in>set w. fst e)"

text \<open>The matching loop without its effects: the pairs, and what is left of the caches.\<close>

fun pairs :: "raw_cloud list \<Rightarrow> raw_cloud list \<Rightarrow> (raw_cloud \<times> raw_cloud) list" where
  "pairs (a # as) (b # bs) =
     (if diff_ns a b < MATCH_NS then (a, b) # pairs as bs
      else if raw_timestamp a < raw_timestamp b then pairs as (b # bs) else pairs (a # as) bs)"
| "pairs _ _ = []"

fun rests :: "raw_cloud list \<Rightarrow> raw_cloud list \<Rightarrow> raw_cloud list \<times> raw_cloud list" where
  "rests (a # as) (b # bs) =
     (if diff_ns a b < MATCH_NS then rests as bs
      else if raw_timestamp a < raw_timestamp b then rests as (b # bs) else rests (a # as) bs)"
| "rests as bs = (as, bs)"

lemma stream_note [simp]: "stream (note_event es os) = stream os"
  "running (note_event es os) = running os" "os_queue (note_event es os) = os_queue os"
  by (simp_all add: stream_def running_def note_event_def)

lemma push_out_stream:
  assumes "rq_wf (os_queue os)" "running os" "push_out x os = Some os'"
  shows "stream os' = stream os @ [x] \<and> rq_wf (os_queue os') \<and> running os'"
proof -
  let ?w = "case os_waits os of [] \<Rightarrow> [] | w # _ \<Rightarrow> w"
  obtain ok ds q where r: "enq_retry enqueue dequeue (os_queue os) x ?w = Some (ok, ds, q)"
    and os': "os' = os\<lparr>os_queue := q, os_taken := os_taken os @ ds, os_waits := tl (os_waits os)\<rparr>"
    using assms(3) by (auto simp: push_out_def)
  have "\<forall>e\<in>set ?w. fst e" using assms(2) by (cases "os_waits os") (simp_all add: running_def)
  then have "ok" using enq_retry_running [OF r] by blast
  moreover have "running os'"
    using assms(2) by (cases "os_waits os") (simp_all add: running_def os')
  ultimately show ?thesis
    using rq.enq_retry_fifo [OF assms(1) r] by (simp add: os' stream_def)
qed

lemma match_loop_pairs:
  assumes "rq_wf (os_queue os)" "running os" "match_loop tr f m as bs os = Some (m', as', bs', os')"
  shows "stream os' = stream os @ map (\<lambda>(a, b). fst (fuse tr f a b)) (pairs as bs)
     \<and> rq_wf (os_queue os') \<and> running os' \<and> (as', bs') = rests as bs \<and> m' = (m \<or> pairs as bs \<noteq> [])"
  using assms
proof (induction tr f m as bs os rule: match_loop.induct)
  case (1 tr f m a as b bs os)
  show ?case
  proof (cases "diff_ns a b < MATCH_NS")
    case True
    obtain x ev where x: "fuse tr f a b = (x, ev)" by force
    obtain os1 where os1: "push_out x (note_event ev os) = Some os1"
      "match_loop tr f True as bs os1 = Some (m', as', bs', os')"
      using "1.prems"(3) True x by (auto split: option.splits)
    from push_out_stream [OF _ _ os1(1)] "1.prems"(1,2)
    have s: "stream os1 = stream os @ [x]" "rq_wf (os_queue os1)" "running os1" by auto
    from "1.IH"(1) [OF True x [symmetric] os1(1) s(2,3) os1(2)] show ?thesis
      using s(1) x True by simp
  next
    case False
    then show ?thesis using 1 by (simp split: if_splits)
  qed
qed auto

text \<open>\<open>|a.timestamp - b.timestamp| < 500\<close>, over the numbers the time stamps denote.\<close>

definition near :: "raw_cloud \<Rightarrow> raw_cloud \<Rightarrow> bool" where
  "near a b \<longleftrightarrow> unat (raw_timestamp a) < unat (raw_timestamp b) + 500
     \<and> unat (raw_timestamp b) < unat (raw_timestamp a) + 500"

lemma diff_ns_near: "diff_ns a b < MATCH_NS \<longleftrightarrow> near a b"
proof (cases "raw_timestamp b < raw_timestamp a")
  case True
  then have "unat (raw_timestamp a - raw_timestamp b) = unat (raw_timestamp a) - unat (raw_timestamp b)"
    "unat (raw_timestamp b) < unat (raw_timestamp a)"
    by (simp_all add: unat_sub word_less_nat_alt order_less_imp_le)
  then show ?thesis using True by (simp add: diff_ns_def MATCH_NS_def near_def word_less_nat_alt) linarith
next
  case False
  then have "unat (raw_timestamp b - raw_timestamp a) = unat (raw_timestamp b) - unat (raw_timestamp a)"
    "unat (raw_timestamp a) \<le> unat (raw_timestamp b)"
    by (simp_all add: unat_sub word_le_nat_alt not_less)
  then show ?thesis using False by (simp add: diff_ns_def MATCH_NS_def near_def word_less_nat_alt) linarith
qed

definition by_time :: "raw_cloud list \<Rightarrow> bool" where
  "by_time xs \<longleftrightarrow> sorted_wrt (\<lambda>x y. raw_timestamp x \<le> raw_timestamp y) xs"

lemma by_time_simps [simp]: "by_time []"
  "by_time (x # xs) \<longleftrightarrow> (\<forall>y\<in>set xs. raw_timestamp x \<le> raw_timestamp y) \<and> by_time xs"
  by (simp_all add: by_time_def)

lemma not_near_later:
  assumes "\<not> near a b" "raw_timestamp a < raw_timestamp b" "raw_timestamp b \<le> raw_timestamp y"
  shows "\<not> near a y" "\<not> near y a"
  using assms by (auto simp: near_def word_less_nat_alt word_le_nat_alt)

lemma near_sym: "near a b \<longleftrightarrow> near b a"
  by (auto simp: near_def)

lemma pairs_sound:
  "(a, b) \<in> set (pairs as bs) \<Longrightarrow> near a b \<and> a \<in> set as \<and> b \<in> set bs"
  by (induction as bs rule: pairs.induct) (auto simp: diff_ns_near split: if_splits)

lemma pairs_maximal:
  assumes "by_time as" "by_time bs" "x \<in> set as" "y \<in> set bs" "near x y"
  shows "x \<in> fst ` set (pairs as bs) \<or> y \<in> snd ` set (pairs as bs)"
  using assms
proof (induction as bs rule: pairs.induct)
  case (1 a as b bs)
  consider "near a b" | "\<not> near a b" "raw_timestamp a < raw_timestamp b"
    | "\<not> near b a" "\<not> raw_timestamp a < raw_timestamp b"
    using near_sym by blast
  then show ?case
  proof cases
    case 1
    then show ?thesis using "1.prems" "1.IH"(1) by (auto simp: diff_ns_near)
  next
    case 2
    have "raw_timestamp b \<le> raw_timestamp y" using "1.prems" by auto
    then have "x \<noteq> a" using not_near_later(1) [OF 2] "1.prems"(5) by blast
    then show ?thesis using 2 "1.prems" "1.IH"(2) by (simp add: diff_ns_near)
  next
    case 3
    have ba: "raw_timestamp b < raw_timestamp a"
      using 3 by (auto simp: near_def word_less_nat_alt not_less)
    have "raw_timestamp a \<le> raw_timestamp x" using "1.prems" by auto
    then have "y \<noteq> b" using not_near_later(2) [OF 3(1) ba] "1.prems"(5) by blast
    then show ?thesis using 3 "1.prems" "1.IH"(3) near_sym by (simp add: diff_ns_near)
  qed
qed auto

lemma rests_empty: "rests as bs = (as', bs') \<Longrightarrow> as' = [] \<or> bs' = []"
  by (induction as bs rule: rests.induct) (auto split: if_splits)

lemma rests_suffix:
  "rests as bs = (as', bs') \<Longrightarrow> \<exists>xs ys. as = xs @ as' \<and> bs = ys @ bs'"
proof (induction as bs rule: rests.induct)
  case (1 a as b bs)
  then show ?case by (auto split: if_splits)
qed auto

text \<open>
  C3: the pairing of the matching loop, for a running component. The frames pushed are, in
  order, the fusions of the pairs; the two frames of a pair come from the two caches and are
  less than 500 ns apart; at least one cache is empty afterwards and what is left of each
  cache is its newest part; and no pair is missed: in caches ordered by time, of any two frames
  less than 500 ns apart at least one has been paired.
\<close>

theorem match_loop_pairing:
  assumes "rq_wf (os_queue os)" "running os" "match_loop tr f False as bs os = Some (m, as', bs', os')"
  shows "stream os' = stream os @ map (\<lambda>(a, b). fst (fuse tr f a b)) (pairs as bs)
    \<and> (\<forall>(a, b)\<in>set (pairs as bs). near a b \<and> a \<in> set as \<and> b \<in> set bs)
    \<and> (m \<longleftrightarrow> pairs as bs \<noteq> []) \<and> (as' = [] \<or> bs' = [])
    \<and> (\<exists>xs ys. as = xs @ as' \<and> bs = ys @ bs')
    \<and> (by_time as \<and> by_time bs \<longrightarrow> (\<forall>x\<in>set as. \<forall>y\<in>set bs. near x y \<longrightarrow>
         x \<in> fst ` set (pairs as bs) \<or> y \<in> snd ` set (pairs as bs)))"
proof -
  note r = match_loop_pairs [OF assms]
  then have "rests as bs = (as', bs')" by simp
  then have rest: "as' = [] \<or> bs' = []" "\<exists>xs ys. as = xs @ as' \<and> bs = ys @ bs'"
    by (auto dest: rests_empty rests_suffix)
  have "\<forall>(a, b)\<in>set (pairs as bs). near a b \<and> a \<in> set as \<and> b \<in> set bs"
    using pairs_sound by blast
  moreover have "by_time as \<and> by_time bs \<longrightarrow> (\<forall>x\<in>set as. \<forall>y\<in>set bs. near x y \<longrightarrow>
         x \<in> fst ` set (pairs as bs) \<or> y \<in> snd ` set (pairs as bs))"
    using pairs_maximal by blast
  ultimately show ?thesis using r rest by blast
qed

section \<open>A pass of the loop\<close>

lemma note_event_append: "note_event ys (note_event xs os) = note_event (xs @ ys) os"
  by (simp add: note_event_def)

lemma note_event_Nil [simp]: "note_event [] os = os"
  by (simp add: note_event_def)

lemma waits_note [simp]: "os_waits (note_event es os) = os_waits os"
  by (simp add: note_event_def)

lemma trim_cache_last_n:
  "trim_cache e xs os = (last_n 30 xs, note_event (replicate (length xs - 30) e) os)"
proof (induction xs arbitrary: os)
  case (Cons x xs)
  show ?case
  proof (cases "30 < length (x # xs)")
    case True
    then have "length (x # xs) - 30 = Suc (length xs - 30)" by simp
    then show ?thesis using True Cons
      by (simp add: MAX_CACHE_FRAME_def last_n_def note_event_append)
  qed (simp add: MAX_CACHE_FRAME_def)
qed (simp add: last_n_def)

lemma pull_cache:
  assumes "rq_wf q" "length cache \<le> 30"
  shows "\<exists>q' es. pull e q cache os = (q', last_n 30 (cache @ take 1 (rq_list q)), note_event es os)
     \<and> rq_wf q' \<and> rq_list q' = drop 1 (rq_list q)"
proof -
  have w: "rq_wf (snd (dequeue q))" by (rule rq.deq_invar [OF assms(1)])
  have l: "rq_list (snd (dequeue q)) = tl (rq_list q)" by (rule rq.deq_contents [OF assms(1)])
  have h: "fst (dequeue q) = (case rq_list q of [] \<Rightarrow> None | x # _ \<Rightarrow> Some x)"
    by (rule rq.deq_result [OF assms(1)])
  show ?thesis
  proof (cases "rq_list q")
    case Nil
    then obtain q1 where "dequeue q = (None, q1)" using h by (cases "dequeue q") simp
    then show ?thesis using w l Nil assms(2)
      by (intro exI [of _ q1] exI [of _ "[]"]) (simp add: pull_def)
  next
    case (Cons x xs)
    then obtain q1 where "dequeue q = (Some x, q1)" using h by (cases "dequeue q") simp
    then show ?thesis using w l Cons assms(2)
      by (intro exI [of _ q1] exI [of _ "replicate (length (cache @ [x]) - 30) e"])
        (simp add: pull_def trim_cache_last_n)
  qed
qed

text \<open>The invariant of the loop.\<close>

definition fuse_inv :: "'m fuser \<times> fuse_env \<Rightarrow> bool" where
  "fuse_inv s \<longleftrightarrow> (case s of (f, e) \<Rightarrow>
     rq_wf (fe_queueA e) \<and> rq_wf (fe_queueB e) \<and> rq_wf (os_queue (fe_out e)) \<and> running (fe_out e)
     \<and> length (fz_cacheA f) \<le> 30 \<and> length (fz_cacheB f) \<le> 30)"

text \<open>The part of it that also holds while the component is being stopped.\<close>

definition fuse_ok :: "'m fuser \<times> fuse_env \<Rightarrow> bool" where
  "fuse_ok s \<longleftrightarrow> (case s of (f, e) \<Rightarrow>
     rq_wf (fe_queueA e) \<and> rq_wf (fe_queueB e) \<and> rq_wf (os_queue (fe_out e))
     \<and> length (fz_cacheA f) \<le> 30 \<and> length (fz_cacheB f) \<le> 30)"

lemma fuse_inv_ok: "fuse_inv (f, e) \<longleftrightarrow> fuse_ok (f, e) \<and> running (fe_out e)"
  by (auto simp: fuse_inv_def fuse_ok_def)

text \<open>What one pass pulls into the caches.\<close>

definition pulled :: "raw_cloud ring_queue \<Rightarrow> raw_cloud list \<Rightarrow> raw_cloud list" where
  "pulled q cache = last_n 30 (cache @ take 1 (rq_list q))"

lemma single_step_stream:
  assumes "rq_wf (os_queue os)" "running os" "single_step m own other os = Some (m', own', os')"
  shows "rq_wf (os_queue os') \<and> running os'
    \<and> (if \<not> m \<and> other = [] \<and> own \<noteq> [] then m' \<and> own' = tl own \<and> stream os' = stream os @ [single (hd own)]
       else m' = m \<and> own' = own \<and> stream os' = stream os)"
  using assms push_out_stream [OF assms(1,2)]
  by (auto simp: single_step_def split: list.splits if_splits)

text \<open>What a pass sends, as a function of the two caches.\<close>

definition sent :: "('m \<Rightarrow> cloud \<Rightarrow> cloud) \<Rightarrow> 'm fuser \<Rightarrow> raw_cloud list \<Rightarrow> raw_cloud list \<Rightarrow> fused_cloud list" where
  "sent tr f ca cb =
     (if length ca \<le> 2 \<or> length cb \<le> 2 then []
      else if pairs ca cb \<noteq> [] then map (\<lambda>(a, b). fst (fuse tr f a b)) (pairs ca cb)
      else case rests ca cb of
          ([], []) \<Rightarrow> [] | (a # _, _) \<Rightarrow> [single a] | ([], b # _) \<Rightarrow> [single b])"

lemma length_pulled [simp]: "length (pulled q c) \<le> 30"
  by (simp add: pulled_def)

lemma rests_length: "rests as bs = (as', bs') \<Longrightarrow> length as' \<le> length as \<and> length bs' \<le> length bs"
  using rests_suffix by fastforce

text \<open>The two pulls keep the invariant and the stream, and set the caches.\<close>

lemma fuse_iteration_pulls_ok:
  assumes "fuse_ok (f, e)"
  obtains f1 e1 where "fuse_iteration tr (f, e) = fuse_match tr (f1, e1)" "fuse_ok (f1, e1)"
    "f1 = f\<lparr>fz_cacheA := pulled (fe_queueA e) (fz_cacheA f), fz_cacheB := pulled (fe_queueB e) (fz_cacheB f)\<rparr>"
    "stream (fe_out e1) = stream (fe_out e)" "os_queue (fe_out e1) = os_queue (fe_out e)"
    "os_waits (fe_out e1) = os_waits (fe_out e)"
    "rq_list (fe_queueA e1) = drop 1 (rq_list (fe_queueA e))"
    "rq_list (fe_queueB e1) = drop 1 (rq_list (fe_queueB e))"
proof -
  have inv: "rq_wf (fe_queueA e)" "rq_wf (fe_queueB e)" "length (fz_cacheA f) \<le> 30" "length (fz_cacheB f) \<le> 30"
    using assms by (simp_all add: fuse_ok_def)
  obtain qa es1 where a: "pull Cache_A_overflow (fe_queueA e) (fz_cacheA f) (fe_out e)
      = (qa, pulled (fe_queueA e) (fz_cacheA f), note_event es1 (fe_out e))" "rq_wf qa"
      "rq_list qa = drop 1 (rq_list (fe_queueA e))"
    using pull_cache [OF inv(1,3), of Cache_A_overflow "fe_out e"] by (auto simp: pulled_def)
  obtain qb es2 where b: "pull Cache_B_overflow (fe_queueB e) (fz_cacheB f) (note_event es1 (fe_out e))
      = (qb, pulled (fe_queueB e) (fz_cacheB f), note_event es2 (note_event es1 (fe_out e)))" "rq_wf qb"
      "rq_list qb = drop 1 (rq_list (fe_queueB e))"
    using pull_cache [OF inv(2,4), of Cache_B_overflow "note_event es1 (fe_out e)"] by (auto simp: pulled_def)
  show ?thesis
    by (rule that [of "f\<lparr>fz_cacheA := pulled (fe_queueA e) (fz_cacheA f), fz_cacheB := pulled (fe_queueB e) (fz_cacheB f)\<rparr>"
        "\<lparr>fe_queueA = qa, fe_queueB = qb, fe_out = note_event (es1 @ es2) (fe_out e)\<rparr>"])
      (use assms a b in \<open>simp_all add: fuse_iteration_def fuse_ok_def note_event_append\<close>)
qed

lemma fuse_iteration_pulls:
  assumes "fuse_inv (f, e)"
  obtains f1 e1 where "fuse_iteration tr (f, e) = fuse_match tr (f1, e1)" "fuse_inv (f1, e1)"
    "f1 = f\<lparr>fz_cacheA := pulled (fe_queueA e) (fz_cacheA f), fz_cacheB := pulled (fe_queueB e) (fz_cacheB f)\<rparr>"
    "stream (fe_out e1) = stream (fe_out e)"
    "rq_list (fe_queueA e1) = drop 1 (rq_list (fe_queueA e))"
    "rq_list (fe_queueB e1) = drop 1 (rq_list (fe_queueB e))"
proof -
  have ok: "fuse_ok (f, e)" "running (fe_out e)" using assms by (simp_all add: fuse_inv_ok)
  obtain f1 e1 where r: "fuse_iteration tr (f, e) = fuse_match tr (f1, e1)" "fuse_ok (f1, e1)"
    "f1 = f\<lparr>fz_cacheA := pulled (fe_queueA e) (fz_cacheA f), fz_cacheB := pulled (fe_queueB e) (fz_cacheB f)\<rparr>"
    "stream (fe_out e1) = stream (fe_out e)" "os_waits (fe_out e1) = os_waits (fe_out e)"
    "rq_list (fe_queueA e1) = drop 1 (rq_list (fe_queueA e))"
    "rq_list (fe_queueB e1) = drop 1 (rq_list (fe_queueB e))"
    by (rule fuse_iteration_pulls_ok [OF ok(1), of tr]) blast
  from that [OF r(1) _ r(3,4,6,7)] r(2,5) ok(2) show ?thesis by (simp add: fuse_inv_ok running_def)
qed

lemma fuse_caches [simp]: "fuse tr (f\<lparr>fz_cacheA := a, fz_cacheB := b\<rparr>) = fuse tr f"
  by (intro ext) (simp add: fuse_def)

lemma fuse_match_sent:
  assumes "fuse_inv (f, e)" "fuse_match tr (f, e) = Some (f', e')"
  shows "fuse_inv (f', e') \<and> stream (fe_out e') = stream (fe_out e) @ sent tr f (fz_cacheA f) (fz_cacheB f)"
proof (cases "length (fz_cacheA f) \<le> 2 \<or> length (fz_cacheB f) \<le> 2")
  case True
  then show ?thesis using assms by (auto simp: fuse_match_def sent_def FRAME_CACHE_def Let_def)
next
  case False
  let ?ca = "fz_cacheA f" and ?cb = "fz_cacheB f"
  have inv: "rq_wf (os_queue (fe_out e))" "running (fe_out e)" using assms(1) by (simp_all add: fuse_inv_def)
  obtain m ca1 cb1 os3 m1 ca2 os4 m2 cb2 os5 where
    st: "match_loop tr f False ?ca ?cb (fe_out e) = Some (m, ca1, cb1, os3)"
      "single_step m ca1 cb1 os3 = Some (m1, ca2, os4)" "single_step m1 cb1 ca2 os4 = Some (m2, cb2, os5)"
    and out: "f' = f\<lparr>fz_cacheA := ca2, fz_cacheB := cb2\<rparr>" "e' = e\<lparr>fe_out := os5\<rparr>"
    using assms(2) False by (auto simp: fuse_match_def FRAME_CACHE_def Let_def split: option.splits)
  have ml: "stream os3 = stream (fe_out e) @ map (\<lambda>(a, b). fst (fuse tr f a b)) (pairs ?ca ?cb)"
      "rq_wf (os_queue os3)" "running os3" "rests ?ca ?cb = (ca1, cb1)" "m = (pairs ?ca ?cb \<noteq> [])"
    using match_loop_pairs [OF inv st(1)] by auto
  note s1 = single_step_stream [OF ml(2,3) st(2)]
  then have "rq_wf (os_queue os4)" "running os4" by auto
  note s2 = single_step_stream [OF this st(3)]
  have emp: "ca1 = [] \<or> cb1 = []" using rests_empty [OF ml(4)] .
  have "length ca1 \<le> 30" "length cb1 \<le> 30"
    using rests_length [OF ml(4)] assms(1) by (auto simp: fuse_inv_def)
  then have "fuse_inv (f', e')" using s1 s2 assms(1) out by (auto simp: fuse_inv_def split: if_splits)
  moreover have "stream os5 = stream (fe_out e) @ sent tr f ?ca ?cb"
    using s1 s2 ml(1,4,5) False emp by (auto simp: sent_def split: if_splits list.splits)
  ultimately show ?thesis using out by simp
qed

lemma sent_caches [simp]: "sent tr (f\<lparr>fz_cacheA := a, fz_cacheB := b\<rparr>) = sent tr f"
  by (intro ext) (simp add: sent_def)

lemma fuse_iteration_sent:
  assumes "fuse_inv (f, e)" "fuse_iteration tr (f, e) = Some (f', e')"
  shows "fuse_inv (f', e') \<and> stream (fe_out e') = stream (fe_out e)
       @ sent tr f (pulled (fe_queueA e) (fz_cacheA f)) (pulled (fe_queueB e) (fz_cacheB f))"
proof (rule fuse_iteration_pulls [OF assms(1), of tr])
  fix f1 e1 assume "fuse_iteration tr (f, e) = fuse_match tr (f1, e1)" "fuse_inv (f1, e1)"
    "stream (fe_out e1) = stream (fe_out e)" and
    f1: "f1 = f\<lparr>fz_cacheA := pulled (fe_queueA e) (fz_cacheA f), fz_cacheB := pulled (fe_queueB e) (fz_cacheB f)\<rparr>"
  then show ?thesis using fuse_match_sent [of f1 e1 tr f' e'] assms(2) by simp
qed

lemma sent_sound:
  assumes "x \<in> set (sent tr f ca cb)"
  shows "(\<exists>a\<in>set ca. \<exists>b\<in>set cb. near a b \<and> x = fst (fuse tr f a b))
     \<or> pairs ca cb = [] \<and> (\<exists>a\<in>set ca \<union> set cb. x = single a)"
proof (cases "pairs ca cb = []")
  case True
  obtain ra rb where r: "rests ca cb = (ra, rb)" by force
  then have "set ra \<subseteq> set ca" "set rb \<subseteq> set cb" using rests_suffix by fastforce+
  then show ?thesis using assms True r by (auto simp: sent_def split: if_splits list.splits)
next
  case False
  then show ?thesis using assms pairs_sound by (fastforce simp: sent_def split: if_splits)
qed

text \<open>
  C15: one pass of \<open>fuseLoop\<close>. It keeps the queues well formed and both caches within thirty
  frames, it appends to the output stream and changes nothing already there, and every frame it
  appends is either the fusion of a frame of A and a frame of B less than 500 ns apart, or, when
  the pass found no pair at all, the unchanged frame of one lidar. It appends nothing while
  either cache holds two frames or fewer.
\<close>

theorem fuse_iteration_spec:
  assumes "fuse_inv (f, e)" "fuse_iteration tr (f, e) = Some (f', e')"
    "ca = pulled (fe_queueA e) (fz_cacheA f)" "cb = pulled (fe_queueB e) (fz_cacheB f)"
  shows "fuse_inv (f', e') \<and> length (fz_cacheA f') \<le> 30 \<and> length (fz_cacheB f') \<le> 30
    \<and> (\<exists>xs. stream (fe_out e') = stream (fe_out e) @ xs
        \<and> (\<forall>x\<in>set xs. (\<exists>a\<in>set ca. \<exists>b\<in>set cb. near a b \<and> x = fst (fuse tr f a b))
             \<or> pairs ca cb = [] \<and> (\<exists>a\<in>set ca \<union> set cb. x = single a))
        \<and> (length ca \<le> 2 \<or> length cb \<le> 2 \<longrightarrow> xs = []))"
proof -
  have r: "fuse_inv (f', e')" "stream (fe_out e') = stream (fe_out e) @ sent tr f ca cb"
    using fuse_iteration_sent [OF assms(1,2)] assms(3,4) by auto
  have "length ca \<le> 2 \<or> length cb \<le> 2 \<longrightarrow> sent tr f ca cb = []" by (simp add: sent_def)
  then show ?thesis using r sent_sound [of _ tr f ca cb]
    by (intro conjI exI [of _ "sent tr f ca cb"]) (auto simp: fuse_inv_def)
qed

section \<open>Runs\<close>

text \<open>Passes of the loop; before each, the acquisition thread of lidar A pushes some frames.\<close>

definition feedA :: "raw_cloud list \<Rightarrow> 'm fuser \<times> fuse_env \<Rightarrow> 'm fuser \<times> fuse_env" where
  "feedA xs s = (fst s, (snd s)\<lparr>fe_queueA := foldl (\<lambda>q x. snd (enqueue q x)) (fe_queueA (snd s)) xs\<rparr>)"

fun fuse_run :: "('m \<Rightarrow> cloud \<Rightarrow> cloud) \<Rightarrow> raw_cloud list list \<Rightarrow> 'm fuser \<times> fuse_env
    \<Rightarrow> ('m fuser \<times> fuse_env) option" where
  "fuse_run tr [] s = Some s"
| "fuse_run tr (xs # xss) s =
     (case fuse_iteration tr (feedA xs s) of None \<Rightarrow> None | Some s' \<Rightarrow> fuse_run tr xss s')"

lemma feed_wf: "rq_wf q \<Longrightarrow> rq_wf (foldl (\<lambda>q x. snd (enqueue q x)) q xs)"
  by (induction xs arbitrary: q) (simp_all add: rq.enq_invar)

lemma feedA_inv: "fuse_inv s \<Longrightarrow> fuse_inv (feedA xs s)"
  by (cases s) (simp add: fuse_inv_def feedA_def feed_wf)

definition silentB :: "'m fuser \<times> fuse_env \<Rightarrow> bool" where
  "silentB s \<longleftrightarrow> rq_list (fe_queueB (snd s)) = [] \<and> length (fz_cacheB (fst s)) \<le> 2"

lemma fuse_iteration_silent:
  assumes "fuse_inv s" "silentB s"
  shows "\<exists>s'. fuse_iteration tr s = Some s' \<and> silentB s' \<and> fuse_inv s'
     \<and> stream (fe_out (snd s')) = stream (fe_out (snd s))"
proof -
  obtain f e where s: "s = (f, e)" by force
  with assms have inv: "fuse_inv (f, e)" and B: "rq_list (fe_queueB e) = []" "length (fz_cacheB f) \<le> 2"
    by (auto simp: silentB_def)
  show ?thesis
  proof (rule fuse_iteration_pulls [OF inv, of tr])
    fix f1 e1 assume it: "fuse_iteration tr (f, e) = fuse_match tr (f1, e1)" "fuse_inv (f1, e1)"
      "stream (fe_out e1) = stream (fe_out e)" "rq_list (fe_queueB e1) = drop 1 (rq_list (fe_queueB e))"
      and f1: "f1 = f\<lparr>fz_cacheA := pulled (fe_queueA e) (fz_cacheA f), fz_cacheB := pulled (fe_queueB e) (fz_cacheB f)\<rparr>"
    have "length (fz_cacheB f1) \<le> 2" using B f1 by (simp add: pulled_def)
    moreover from this have "fuse_match tr (f1, e1) = Some (f1, e1)"
      by (simp add: fuse_match_def FRAME_CACHE_def)
    ultimately show ?thesis using it B by (auto simp: s silentB_def)
  qed
qed

text \<open>
  C38: a silent lidar B silences the pipeline. As long as B delivers nothing and at most two of
  its frames are cached, every pass returns and none ever sends a frame, however many frames A
  delivers; the frames of A are dropped at the cache limit. The branch commented "only A has
  data: output A directly" cannot be reached in this situation.
\<close>

theorem fuse_run_starved:
  assumes "fuse_inv s" "silentB s"
  shows "\<exists>f' e'. fuse_run tr xss s = Some (f', e') \<and> stream (fe_out e') = stream (fe_out (snd s))
     \<and> length (fz_cacheA f') \<le> 30"
  using assms
proof (induction xss arbitrary: s)
  case Nil
  then show ?case by (cases s) (simp add: fuse_inv_def)
next
  case (Cons xs xss)
  have "fuse_inv (feedA xs s)" by (rule feedA_inv [OF Cons.prems(1)])
  moreover have "silentB (feedA xs s)" "fe_out (snd (feedA xs s)) = fe_out (snd s)"
    using Cons.prems by (simp_all add: silentB_def feedA_def)
  ultimately obtain s' where s': "fuse_iteration tr (feedA xs s) = Some s'" "silentB s'" "fuse_inv s'"
     "stream (fe_out (snd s')) = stream (fe_out (snd s))"
    using fuse_iteration_silent [of "feedA xs s" tr] by auto
  from Cons.IH [OF s'(3,2)] s' show ?case by simp
qed

section \<open>Progress\<close>

text \<open>
  Each blocking push finds the flag cleared after its first attempt, or a consumer takes a frame
  during its first sleep.
\<close>

definition served :: "out_side \<Rightarrow> bool" where
  "served os \<longleftrightarrow> (\<forall>w\<in>set (os_waits os). \<exists>b k env. w = (b, k) # env \<and> (b \<longrightarrow> 0 < k))"

lemma served_note [simp]: "served (note_event es os) = served os"
  by (simp add: served_def)

lemma push_out_served:
  assumes "rq_wf (os_queue os)" "2 \<le> rq_cap (os_queue os)" "served os" "os_waits os \<noteq> []"
  shows "\<exists>os'. push_out x os = Some os' \<and> rq_wf (os_queue os') \<and> 2 \<le> rq_cap (os_queue os')
     \<and> served os' \<and> os_waits os' = tl (os_waits os)"
proof -
  obtain w ws where ws: "os_waits os = w # ws" using assms(4) by (cases "os_waits os") auto
  then obtain b k env where w: "w = (b, k) # env" "b \<longrightarrow> 0 < k" using assms(3) by (auto simp: served_def)
  have "0 < rq_cap (os_queue os) - 1" using assms(2) by simp
  then have "\<exists>ok ds q. enq_retry enqueue dequeue (os_queue os) x w = Some (ok, ds, q)"
    using w rq.enq_retry_progress [OF assms(1), of k x env] rq.enq_retry_stopped [OF assms(1), of x k env] by (cases b) auto
  then obtain ok ds q where r: "enq_retry enqueue dequeue (os_queue os) x w = Some (ok, ds, q)" by blast
  have "rq_cap (os_queue os) - 1 = rq_cap q - 1" "rq_wf q"
    using rq.enq_retry_fifo [OF assms(1) r] by auto
  then show ?thesis using r assms(2,3) by (auto simp: push_out_def ws served_def)
qed

lemma match_loop_served:
  assumes "rq_wf (os_queue os)" "2 \<le> rq_cap (os_queue os)" "served os"
    "length (pairs as bs) \<le> length (os_waits os)"
  shows "\<exists>m' as' bs' os'. match_loop tr f m as bs os = Some (m', as', bs', os')
     \<and> rq_wf (os_queue os') \<and> 2 \<le> rq_cap (os_queue os') \<and> served os'
     \<and> os_waits os' = drop (length (pairs as bs)) (os_waits os)"
  using assms
proof (induction tr f m as bs os rule: match_loop.induct)
  case (1 tr f m a as b bs os)
  show ?case
  proof (cases "diff_ns a b < MATCH_NS")
    case True
    obtain x ev where x: "fuse tr f a b = (x, ev)" by force
    have n: "length (pairs as bs) < length (os_waits os)" "os_waits os \<noteq> []"
      using "1.prems"(4) True by auto
    then obtain os1 where os1: "push_out x (note_event ev os) = Some os1" "rq_wf (os_queue os1)"
        "2 \<le> rq_cap (os_queue os1)" "served os1" "os_waits os1 = tl (os_waits os)"
      using push_out_served [of "note_event ev os" x] "1.prems"(1-3) by auto
    have "length (pairs as bs) \<le> length (os_waits os1)" using n os1(5) by simp
    from "1.IH"(1) [OF True x [symmetric] os1(1-4) this] show ?thesis
      using True x os1(1,5) by (auto simp: drop_Suc)
  next
    case False
    then show ?thesis using 1 by (cases "raw_timestamp a < raw_timestamp b") simp_all
  qed
qed auto

lemma length_pairs: "length (pairs as bs) \<le> length as"
  by (induction as bs rule: pairs.induct) auto

lemma single_step_served:
  assumes "rq_wf (os_queue os)" "2 \<le> rq_cap (os_queue os)" "served os" "os_waits os \<noteq> []"
  shows "\<exists>m' own' os'. single_step m own other os = Some (m', own', os') \<and> (m' = m \<and> os' = os \<or> m')
     \<and> rq_wf (os_queue os') \<and> 2 \<le> rq_cap (os_queue os') \<and> served os'"
proof (cases "own \<noteq> [] \<and> \<not> m \<and> other = []")
  case True
  then obtain x rest where own: "own = x # rest" by (cases own) auto
  obtain os' where "push_out (single x) os = Some os'" "rq_wf (os_queue os')"
      "2 \<le> rq_cap (os_queue os')" "served os'"
    using push_out_served [OF assms, of "single x"] by blast
  then show ?thesis using True by (auto simp: single_step_def own)
next
  case False
  then show ?thesis using assms by (auto simp: single_step_def split: list.splits)
qed

lemma fuse_iteration_total:
  assumes "fuse_ok (f, e)" "2 \<le> rq_cap (os_queue (fe_out e))" "served (fe_out e)"
    "32 \<le> length (os_waits (fe_out e))"
  shows "\<exists>s'. fuse_iteration tr (f, e) = Some s'"
proof (rule fuse_iteration_pulls_ok [OF assms(1), of tr])
  fix f1 e1 assume it: "fuse_iteration tr (f, e) = fuse_match tr (f1, e1)" "fuse_ok (f1, e1)"
    "os_queue (fe_out e1) = os_queue (fe_out e)" "os_waits (fe_out e1) = os_waits (fe_out e)"
  let ?ca = "fz_cacheA f1" and ?cb = "fz_cacheB f1"
  have "length (pairs ?ca ?cb) \<le> 30"
    using it(2) length_pairs order.trans by (fastforce simp: fuse_ok_def)
  then obtain m ca cb os1 where m: "match_loop tr f1 False ?ca ?cb (fe_out e1) = Some (m, ca, cb, os1)"
      "rq_wf (os_queue os1)" "2 \<le> rq_cap (os_queue os1)" "served os1" "os_waits os1 \<noteq> []"
    using match_loop_served [of "fe_out e1" ?ca ?cb tr f1 False] it assms by (auto simp: fuse_ok_def served_def)
  obtain m1 ca1 os2 where s1: "single_step m ca cb os1 = Some (m1, ca1, os2)" "m1 = m \<and> os2 = os1 \<or> m1"
    using single_step_served [OF m(2-5)] by blast
  have "\<exists>r. single_step m1 cb ca1 os2 = Some r"
  proof (cases m1)
    case True
    then show ?thesis by (cases cb) (auto simp: single_step_def)
  next
    case False
    then have "os2 = os1" using s1(2) by blast
    then show ?thesis using single_step_served [OF m(2-5), of m1 cb ca1] by blast
  qed
  then show ?thesis using it(1) m(1) s1(1) by (auto simp: fuse_match_def Let_def)
qed

text \<open>
  A pass of the loop returns. If for every blocking push the consumer takes at least one frame during
  the first sleep, or \<open>stop\<close> has cleared the flag, no push waits forever and the pass ends, so that
  \<open>stop\<close> can join the thread even when nobody empties the queue; thirty-two schedules are
  enough, since a pass pushes at most thirty pairs or one single frame.
\<close>

theorem fuse_iteration_returns:
  assumes "fuse_ok (f, e)" "2 \<le> rq_cap (os_queue (fe_out e))" "served (fe_out e)"
    "32 \<le> length (os_waits (fe_out e))"
  shows "\<exists>s'. fuse_iteration tr (f, e) = Some s'"
  by (rule fuse_iteration_total [OF assms])

section \<open>One frame of coordinates\<close>

text \<open>
  C31: both clouds of a fused frame are in the coordinates of lidar A. After a successful start,
  mapping the fused points with A's transform to the dock gives A's points mapped with A's
  transform followed by B's points mapped with B's own transform.
\<close>

theorem fuse_common_frame:
  assumes "eigen_law E" "\<And>T c. tr T c = map (eg_apply E T) c"
    "\<not> fz_is_running f0" "fuser_start Y E f0 = Some f" "fz_thread f" "\<not> fz_thread f0"
  shows "map (eg_apply E (getLidarATrans E (rg_lidarA (fz_fuse_cfg f)))) (fu_points (fst (fuse tr f a b)))
    = map (eg_apply E (getLidarATrans E (rg_lidarA (fz_fuse_cfg f)))) (raw_points a)
      @ map (eg_apply E (getLidarBTrans E (rg_lidarB (fz_fuse_cfg f)))) (raw_points b)"
proof -
  let ?TA = "getLidarATrans E (rg_lidarA (fz_fuse_cfg f))" and ?TB = "getLidarBTrans E (rg_lidarB (fz_fuse_cfg f))"
  have T: "fz_T_B2A f = eg_mult E (eg_inverse E ?TA) ?TB"
    using assms(3-6)
    by (auto simp: fuser_start_def Let_def split: prod.splits option.splits if_splits)
  have "eg_apply E ?TA (eg_apply E (eg_inverse E ?TA) p) = p" for p
    using eigen_lawD(5) [OF assms(1)] buildLidarTransform_rigid [OF assms(1)]
    by (simp add: getLidarATrans_def)
  then show ?thesis
    by (simp add: fuse_def Let_def assms(2) T eigen_lawD(4) [OF assms(1)])
qed

section \<open>Sample runs\<close>

definition frame_at :: "u64 \<Rightarrow> raw_cloud" where
  "frame_at t = \<lparr>raw_lidar_ip = ''10.0.0.1'', raw_lidar_id = ''A'', raw_timestamp = t,
     raw_points = [\<lparr>px = 1, py = 0, pz = 0\<rparr>]\<rparr>"

definition ring4 :: "'a \<Rightarrow> 'a ring_queue" where
  "ring4 d = \<lparr>rq_capacity = 4, rq_buffer = [d, d, d, d], rq_head = 0, rq_tail = 0\<rparr>"

definition idle_out :: "(bool \<times> nat) list list \<Rightarrow> out_side" where
  "idle_out ws = \<lparr>os_queue = ring4 (single (frame_at 0)), os_taken = [], os_waits = ws, os_events = []\<rparr>"

definition sample_fuser :: "'m \<Rightarrow> raw_cloud list \<Rightarrow> raw_cloud list \<Rightarrow> 'm fuser" where
  "sample_fuser T ca cb = \<lparr>fz_is_running = False, fz_thread = False, fz_fuse_cfg = blank_monitor,
     fz_lidarCfg = blank_lidars, fz_T_A2B = T, fz_T_B2A = T, fz_cacheA = ca, fz_cacheB = cb\<rparr>"

definition sample_env :: "(bool \<times> nat) list list \<Rightarrow> fuse_env" where
  "sample_env ws = \<lparr>fe_queueA = ring4 (frame_at 0), fe_queueB = ring4 (frame_at 0), fe_out = idle_out ws\<rparr>"

lemma ring4_wf: "rq_wf (ring4 d)" "rq_list (ring4 d) = []" "rq_cap (ring4 d) = 4"
  by (simp_all add: ring4_def rq_wf_def rq_list_def rq_len_def rq_cap_def ring_dist_def)

lemma sample_inv:
  "length ca \<le> 30 \<Longrightarrow> length cb \<le> 30 \<Longrightarrow> \<forall>w\<in>set ws. \<forall>e\<in>set w. fst e \<Longrightarrow>
     fuse_inv (sample_fuser () ca cb, sample_env ws)"
  by (simp add: fuse_inv_def sample_fuser_def sample_env_def idle_out_def ring4_wf running_def)

theorem match_loop_pairing_witness:
  "\<exists>os'. match_loop (\<lambda>_ c. c) (sample_fuser () [] []) False [frame_at 1000, frame_at 5000] [frame_at 1499] (idle_out [])
      = Some (True, [frame_at 5000], [], os')
    \<and> map fu_timestamp (stream os') = [1499]"
proof -
  let ?f = "sample_fuser () [] []"
  have run: "\<exists>os'. match_loop (\<lambda>_ c. c) ?f False [frame_at 1000, frame_at 5000] [frame_at 1499] (idle_out [])
      = Some (True, [frame_at 5000], [], os')"
    by (simp add: frame_at_def diff_ns_def MATCH_NS_def fuse_def Let_def push_out_def note_event_def
        idle_out_def ring4_def enqueue_def next_index_def)
  then obtain os' where os': "match_loop (\<lambda>_ c. c) ?f False [frame_at 1000, frame_at 5000] [frame_at 1499] (idle_out [])
      = Some (True, [frame_at 5000], [], os')" by blast
  have h: "rq_wf (os_queue (idle_out []))" "running (idle_out [])" "stream (idle_out []) = []"
    by (simp_all add: idle_out_def ring4_wf running_def stream_def)
  have "pairs [frame_at 1000, frame_at 5000] [frame_at 1499] = [(frame_at 1000, frame_at 1499)]"
    by (simp add: frame_at_def diff_ns_def MATCH_NS_def)
  then have "stream os' = [fst (fuse (\<lambda>_ c. c) ?f (frame_at 1000) (frame_at 1499))]"
    using match_loop_pairing [OF h(1,2) os'] h(3) by simp
  then show ?thesis using os' by (auto simp: fuse_def Let_def frame_at_def)
qed

theorem fuse_iteration_spec_witness:
  "\<exists>f' e'. fuse_iteration (\<lambda>_ c. c) (sample_fuser () (replicate 3 (frame_at 1000)) (replicate 2 (frame_at 1000)), sample_env [])
      = Some (f', e') \<and> length (fz_cacheA f') \<le> 30 \<and> stream (fe_out e') = []"
proof -
  let ?f = "sample_fuser () (replicate 3 (frame_at 1000)) (replicate 2 (frame_at 1000))" and ?e = "sample_env []"
  have inv: "fuse_inv (?f, ?e)" by (rule sample_inv) simp_all
  have p: "pulled (fe_queueB ?e) (fz_cacheB ?f) = replicate 2 (frame_at 1000)"
    by (simp add: pulled_def sample_env_def sample_fuser_def ring4_wf)
  have "silentB (?f, ?e)" by (simp add: silentB_def sample_env_def sample_fuser_def ring4_wf)
  then obtain f' e' where it: "fuse_iteration (\<lambda>_ c. c) (?f, ?e) = Some (f', e')"
    using fuse_iteration_silent [OF inv] by fastforce
  have "stream (fe_out ?e) = []" by (simp add: sample_env_def idle_out_def stream_def ring4_wf)
  then show ?thesis using fuse_iteration_spec [OF inv it refl refl] it p by auto
qed

theorem fuse_run_starved_witness:
  "\<exists>f' e'. fuse_run (\<lambda>_ c. c) (replicate 100 [frame_at 1, frame_at 2]) (sample_fuser () [] [], sample_env [])
     = Some (f', e') \<and> stream (fe_out e') = []"
proof -
  have i: "fuse_inv (sample_fuser () [] [], sample_env [])" by (rule sample_inv) simp_all
  have h: "silentB (sample_fuser () [] [], sample_env [])" "stream (fe_out (sample_env [])) = []"
    by (simp_all add: silentB_def sample_env_def sample_fuser_def idle_out_def stream_def ring4_wf)
  show ?thesis using fuse_run_starved [OF i h(1), of "\<lambda>_ c. c" "replicate 100 [frame_at 1, frame_at 2]"] h(2)
    by auto
qed

theorem fuse_iteration_returns_witness:
  "\<exists>s'. fuse_iteration (\<lambda>_ c. c) (sample_fuser () (replicate 30 (frame_at 7)) (replicate 30 (frame_at 7)),
      sample_env (replicate 32 [(True, 1)])) = Some s'"
proof -
  let ?e = "sample_env (replicate 32 [(True, 1)])"
  have "fuse_inv (sample_fuser () (replicate 30 (frame_at 7)) (replicate 30 (frame_at 7)), ?e)"
    by (rule sample_inv) simp_all
  then have "fuse_ok (sample_fuser () (replicate 30 (frame_at 7)) (replicate 30 (frame_at 7)), ?e)" by (simp add: fuse_inv_ok)
  moreover have "2 \<le> rq_cap (os_queue (fe_out ?e))" "served (fe_out ?e)" "32 \<le> length (os_waits (fe_out ?e))"
    by (auto simp: sample_env_def idle_out_def ring4_wf served_def)
  ultimately show ?thesis by (rule fuse_iteration_returns)
qed

definition sample_files :: "string \<Rightarrow> ynode option" where
  "sample_files path = Some (if path = ''../dev_config.yaml'' then YMap [] else sample_monitor)"

theorem fuse_common_frame_witness:
  "\<exists>f. fuser_start (tree_yaml sample_files) motion_eigen (sample_fuser (eg_identity motion_eigen) [] []) = Some f
     \<and> fz_thread f
     \<and> map (eg_apply motion_eigen (getLidarATrans motion_eigen (rg_lidarA (fz_fuse_cfg f))))
         (fu_points (fst (fuse (\<lambda>T. map (eg_apply motion_eigen T)) f (frame_at 1) (frame_at 2))))
       = map (eg_apply motion_eigen (getLidarATrans motion_eigen (rg_lidarA (fz_fuse_cfg f)))) (raw_points (frame_at 1))
         @ map (eg_apply motion_eigen (getLidarBTrans motion_eigen (rg_lidarB (fz_fuse_cfg f)))) (raw_points (frame_at 2))"
proof -
  let ?f0 = "sample_fuser (eg_identity motion_eigen) [] []"
  have l1: "\<exists>lc. loadLidarConfigs (tree_yaml sample_files) ''../dev_config.yaml'' c = (True, lc)" for c
    by (simp add: loadLidarConfigs_def exec.simps assign_def with_val_def if_defined_def y_at_def
        tree_yaml_def sample_files_def or_else_def)
  have l2: "\<exists>mc. loadMonitorConfig (tree_yaml sample_files) ''../monitor_config.yaml'' c = Some (True, mc)" for c
    by (simp add: loadMonitorConfig_def monitor_stmts_def ext_stmts_def exec.simps assign_def
        with_val_def if_defined_def y_at_def assign_vec3_def tree_yaml_def sample_monitor_def sample_ext_def sample_files_def)
  obtain lc where lc: "loadLidarConfigs (tree_yaml sample_files) ''../dev_config.yaml'' (fz_lidarCfg ?f0) = (True, lc)"
    using l1 by blast
  obtain mc where mc: "loadMonitorConfig (tree_yaml sample_files) ''../monitor_config.yaml'' (fz_fuse_cfg ?f0) = Some (True, mc)"
    using l2 by blast
  have "\<exists>f. fuser_start (tree_yaml sample_files) motion_eigen ?f0 = Some f \<and> fz_thread f"
    using lc mc by (simp add: fuser_start_def Let_def sample_fuser_def)
  then obtain f where f: "fuser_start (tree_yaml sample_files) motion_eigen ?f0 = Some f" "fz_thread f" by blast
  have "\<not> fz_is_running ?f0" "\<not> fz_thread ?f0" by (simp_all add: sample_fuser_def)
  from fuse_common_frame [OF motion_eigen_law refl this(1) f this(2)] f show ?thesis by blast
qed

end
