(* ===== verification/Acquirer.thy ===== *)
theory Acquirer
  imports Bg_Diff Point_Fuser Lidar_Point
begin

text \<open>
  \<open>include/point_cloud_acquirer.h\<close> and \<open>src/point_cloud_acquirer.cpp\<close>: the source of the pipeline.
  One thread per lidar configures a receiver of the lidar SDK, prepares the background
  subtraction and then feeds its queue. In the code as it is compiled the live acquisition is
  switched off (\<open>#if 0\<close>): each thread reads one point cloud from a fixed file and enqueues it every
  300 milliseconds, always with the same time stamp. That is what is modelled here. The two
  camera threads only print a line.
\<close>

section \<open>State\<close>

record acquirer =
  aq_is_running :: bool
  aq_threads :: bool         \<comment> \<open>the four thread objects are joinable\<close>
  aq_lidarCfg :: all_lidar_configs
  aq_monitor_cfg :: radar_global_config
  aq_bg_a :: bg_diff
  aq_bg_b :: bg_diff

section \<open>Background subtraction\<close>

definition initLidarBgProcessor :: "pcl \<Rightarrow> radar_global_config \<Rightarrow> int \<Rightarrow> bg_diff \<Rightarrow> bool \<times> bg_diff" where
  "initLidarBgProcessor L cfg lidar_sel proc =
     (let p = setMinValidShipPoints (rg_min_valid_ship_points cfg)
                (setStableDistThreshold (rg_stable_dist_threshold cfg)
                  (setStableFrameCount (rg_stable_frame_count cfg)
                    (setDistanceThreshold (rg_dist_threshold cfg) proc)))
      in if lidar_sel = 0 then loadBackground L (rg_lidarA_bg_pcd_path cfg) p
         else loadBackground L (rg_lidarB_bg_pcd_path cfg) p)"

text \<open>The branches of the \<open>switch\<close> over the status are empty.\<close>

definition processOneLidarFrame :: "pcl \<Rightarrow> radar_global_config \<Rightarrow> bg_diff \<Rightarrow> cloud option
    \<Rightarrow> bg_ub + (monitor_result \<times> cloud \<times> bg_diff)" where
  "processOneLidarFrame L cfg proc raw_cloud =
     monitorShip L proc raw_cloud (rg_cluster_eps cfg) (rg_cluster_min_points cfg)"

section \<open>Start and stop\<close>

text \<open>The configuration is read again before the flag is tested; \<open>None\<close> is undefined behaviour while loading.\<close>

definition acq_start :: "'n yaml \<Rightarrow> acquirer \<Rightarrow> acquirer option" where
  "acq_start Y s =
     (let (ok1, lc) = loadLidarConfigs Y ''../dev_config.yaml'' (aq_lidarCfg s);
          s1 = s\<lparr>aq_lidarCfg := lc\<rparr>
      in if \<not> ok1 then Some s1
         else case loadMonitorConfig Y ''../monitor_config.yaml'' (aq_monitor_cfg s1) of
           None \<Rightarrow> None
         | Some (ok2, mc) \<Rightarrow>
             (let s2 = s1\<lparr>aq_monitor_cfg := mc\<rparr>
              in if \<not> ok2 then Some s2
                 else if aq_is_running s2 then Some s2
                 else Some (s2\<lparr>aq_is_running := True, aq_threads := True\<rparr>)))"

definition acq_stop :: "acquirer \<Rightarrow> acquirer" where
  "acq_stop s = s\<lparr>aq_is_running := False, aq_threads := False\<rparr>"

section \<open>The lidar threads\<close>

text \<open>A null pointer is \<open>None\<close>. Only the code \<open>-1\<close> counts as a failure here, whereas \<open>loadBackground\<close>
  tests for any negative code.\<close>

definition loadPcdFile :: "pcl \<Rightarrow> string \<Rightarrow> cloud option" where
  "loadPcdFile L pcd_path = (case pcl_load L pcd_path [] of (ret, cloud) \<Rightarrow> if ret = - 1 then None else Some cloud)"

definition pcdA :: string where "pcdA = ''/home/hz/CBYD/bg_berth/L_A_Lidar_bg.pcd''"
definition pcdB :: string where "pcdB = ''/home/hz/CBYD/bg_berth/L_B_Lidar_bg.pcd''"

text \<open>
  The receiver of one lidar: a new decoder (on the memory \<open>dev\<close>), the ports and the address,
  \<open>LidarStart\<close>. The parameters of \<open>setPortAndIP\<close> are the data port and the device port, of sixteen
  bits; the caller passes the device port first.
\<close>

definition receiver :: "lidar_config \<Rightarrow> lidar_ls \<Rightarrow> lidar_ls" where
  "receiver c dev =
     LidarStart (setPortAndIP (lc_dev_port c mod 65536) (lc_data_port c mod 65536) (lc_local_ip c) ''224.1.1.102'' (ls_new dev))"

text \<open>The two threads up to their loops: the receiver, the cloud read from the file, the members.\<close>

definition radar1_prepare :: "pcl \<Rightarrow> lidar_ls \<Rightarrow> acquirer \<Rightarrow> lidar_ls \<times> cloud option \<times> acquirer" where
  "radar1_prepare L dev s =
     (let lidar = receiver (alc_lidarA (aq_lidarCfg s)) dev;
          s1 = (if alc_ship_monitor (aq_lidarCfg s) \<noteq> 0
                then let (ok, p) = initLidarBgProcessor L (aq_monitor_cfg s) 0 (aq_bg_a s);
                         t = s\<lparr>aq_bg_a := p\<rparr>
                     in if ok then t else t\<lparr>aq_lidarCfg := (aq_lidarCfg t)\<lparr>alc_ship_monitor := 0\<rparr>\<rparr>
                else s)
      in (lidar, loadPcdFile L pcdA, s1))"

definition radar2_prepare :: "pcl \<Rightarrow> lidar_ls \<Rightarrow> acquirer \<Rightarrow> lidar_ls \<times> cloud option \<times> acquirer" where
  "radar2_prepare L dev s =
     (let lidar = receiver (alc_lidarB (aq_lidarCfg s)) dev;
          s1 = (if alc_ship_monitor (aq_lidarCfg s) \<noteq> 0
                then let (ok, p) = initLidarBgProcessor L (aq_monitor_cfg s) 1 (aq_bg_b s);
                         t = s\<lparr>aq_bg_b := p\<rparr>
                     in if ok then t else t\<lparr>aq_lidarCfg := (aq_lidarCfg t)\<lparr>alc_ship_monitor := 0\<rparr>\<rparr>
                else s)
      in (lidar, loadPcdFile L pcdB, s1))"

definition SOURCE_TS :: u64 where "SOURCE_TS = 19999999999"

definition radar_frame :: "lidar_config \<Rightarrow> string \<Rightarrow> cloud \<Rightarrow> raw_cloud" where
  "radar_frame c lidar_id pts =
     \<lparr>raw_lidar_ip = lc_lidar_ip c, raw_lidar_id = lidar_id, raw_timestamp = SOURCE_TS, raw_points = pts\<rparr>"

text \<open>
  One pass of a lidar loop. A frame with a null cloud is dereferenced by the fuser as soon as it is
  paired: \<open>Null_cloud\<close>. \<open>Waiting\<close>: the schedule ends before the queue accepts the frame.
\<close>

datatype acq_fault = Null_cloud | Waiting

definition radar_pass :: "lidar_config \<Rightarrow> string \<Rightarrow> cloud option \<Rightarrow> (bool \<times> nat) list \<Rightarrow> raw_cloud ring_queue
    \<Rightarrow> acq_fault + (bool \<times> raw_cloud list \<times> raw_cloud ring_queue)" where
  "radar_pass c lidar_id cloud waits q =
     (case cloud of
        None \<Rightarrow> Inl Null_cloud
      | Some pts \<Rightarrow>
          (case enq_retry enqueue dequeue q (radar_frame c lidar_id pts) waits of
             None \<Rightarrow> Inl Waiting
           | Some r \<Rightarrow> Inr r))"

text \<open>
  The loop, with one schedule per pass; it ends when the flag is found cleared, after the last
  schedule. Result: what the fuser took meanwhile, and the queue.
\<close>

fun radar_loop :: "lidar_config \<Rightarrow> string \<Rightarrow> cloud option \<Rightarrow> (bool \<times> nat) list list \<Rightarrow> raw_cloud ring_queue
    \<Rightarrow> acq_fault + (raw_cloud list \<times> raw_cloud ring_queue)" where
  "radar_loop c lidar_id cloud [] q = Inr ([], q)"
| "radar_loop c lidar_id cloud (w # ws) q =
     (case radar_pass c lidar_id cloud w q of
        Inl e \<Rightarrow> Inl e
      | Inr (ok, ds, q1) \<Rightarrow>
          (case radar_loop c lidar_id cloud ws q1 of
             Inl e \<Rightarrow> Inl e
           | Inr (ds', q2) \<Rightarrow> Inr (ds @ ds', q2)))"

definition acquireRadar1Loop :: "pcl \<Rightarrow> lidar_ls \<Rightarrow> (bool \<times> nat) list list \<Rightarrow> acquirer \<Rightarrow> raw_cloud ring_queue
    \<Rightarrow> acq_fault + (raw_cloud list \<times> raw_cloud ring_queue \<times> acquirer)" where
  "acquireRadar1Loop L dev ws s queueA =
     (case radar1_prepare L dev s of (lidar, cloud, s1) \<Rightarrow>
        map_sum id (\<lambda>(ds, q). (ds, q, s1)) (radar_loop (alc_lidarA (aq_lidarCfg s1)) ''A'' cloud ws queueA))"

definition acquireRadar2Loop :: "pcl \<Rightarrow> lidar_ls \<Rightarrow> (bool \<times> nat) list list \<Rightarrow> acquirer \<Rightarrow> raw_cloud ring_queue
    \<Rightarrow> acq_fault + (raw_cloud list \<times> raw_cloud ring_queue \<times> acquirer)" where
  "acquireRadar2Loop L dev ws s queueB =
     (case radar2_prepare L dev s of (lidar, cloud, s1) \<Rightarrow>
        map_sum id (\<lambda>(ds, q). (ds, q, s1)) (radar_loop (alc_lidarB (aq_lidarCfg s1)) ''B'' cloud ws queueB))"

section \<open>Threads and the running flag\<close>

text \<open>
  The contract of a component that owns threads: \<open>start\<close> may fail and may find the component
  running, \<open>stop\<close> joins. Assigning to a thread object that is still joinable would call
  \<open>std::terminate\<close>. \<open>life_run\<close> is a sequence of calls of the two operations.
\<close>

datatype life_call = Call_start | Call_stop

fun life_run :: "('s \<Rightarrow> 's option) \<Rightarrow> ('s \<Rightarrow> 's) \<Rightarrow> life_call list \<Rightarrow> 's \<Rightarrow> 's option" where
  "life_run start stop [] s = Some s"
| "life_run start stop (Call_start # cs) s = (case start s of None \<Rightarrow> None | Some s' \<Rightarrow> life_run start stop cs s')"
| "life_run start stop (Call_stop # cs) s = life_run start stop cs (stop s)"

lemma life_run_append:
  "life_run start stop (cs @ ds) s = (case life_run start stop cs s of None \<Rightarrow> None | Some s' \<Rightarrow> life_run start stop ds s')"
proof (induction cs arbitrary: s)
  case (Cons c cs)
  then show ?case by (cases c) (auto split: option.splits)
qed simp

locale thread_owner =
  fixes start :: "'s \<Rightarrow> 's option"
    and stop :: "'s \<Rightarrow> 's"
    and running :: "'s \<Rightarrow> bool"
    and joinable :: "'s \<Rightarrow> bool"
  assumes start_joinable: "\<lbrakk>start s = Some s'; joinable s'\<rbrakk> \<Longrightarrow> joinable s \<or> running s' \<and> \<not> running s"
    and start_keeps: "\<lbrakk>start s = Some s'; running s\<rbrakk> \<Longrightarrow> running s'"
    and stop_joins: "\<not> joinable (stop s)" "\<not> running (stop s)"
begin

lemma joinable_running:
  assumes "life_run start stop cs s = Some s'" "joinable s \<longrightarrow> running s"
  shows "joinable s' \<longrightarrow> running s'"
  using assms
proof (induction cs arbitrary: s)
  case (Cons c cs)
  show ?case
  proof (cases c)
    case Call_start
    then obtain s1 where s1: "start s = Some s1" "life_run start stop cs s1 = Some s'"
      using Cons.prems(1) by (auto split: option.splits)
    then show ?thesis
      using Cons.IH [OF s1(2)] Cons.prems(2) start_joinable [OF s1(1)] start_keeps [OF s1(1)] by blast
  next
    case Call_stop
    then show ?thesis using Cons.IH [of "stop s"] Cons.prems(1) stop_joins by simp
  qed
qed simp

lemma stop_last:
  assumes "life_run start stop cs s = Some s'" "cs \<noteq> []" "last cs = Call_stop"
  shows "\<not> joinable s' \<and> \<not> running s'"
proof -
  have "cs = butlast cs @ [Call_stop]" using assms(2,3) append_butlast_last_id [of cs] by simp
  then have "life_run start stop (butlast cs @ [Call_stop]) s = Some s'" using assms(1) by simp
  then show ?thesis using stop_joins by (auto simp: life_run_append split: option.splits)
qed

end

lemma acq_start_flags:
  assumes "acq_start Y s = Some s'"
  shows "aq_threads s' \<longrightarrow> aq_threads s \<or> aq_is_running s' \<and> \<not> aq_is_running s" "aq_is_running s \<longrightarrow> aq_is_running s'"
  using assms by (auto simp: acq_start_def Let_def split: prod.splits option.splits if_splits)

interpretation acq_life: thread_owner "acq_start Y" acq_stop aq_is_running aq_threads
  by unfold_locales (auto simp: acq_stop_def dest: acq_start_flags)

lemma fuser_start_flags:
  assumes "fuser_start Y E f = Some f'"
  shows "fz_thread f' \<longrightarrow> fz_thread f \<or> fz_is_running f' \<and> \<not> fz_is_running f" "fz_is_running f \<longrightarrow> fz_is_running f'"
  using assms by (auto simp: fuser_start_def Let_def split: prod.splits option.splits if_splits)

interpretation fuser_life: thread_owner "fuser_start Y E" fuser_stop fz_is_running fz_thread
  by unfold_locales (auto simp: fuser_stop_def dest: fuser_start_flags)

text \<open>
  Starting and stopping in any order never overwrites a live thread. After any sequence of
  calls of \<open>start\<close> and \<open>stop\<close> on a fresh acquirer or fuser, a joinable thread object means that the
  flag \<open>is_running_\<close> is set, so a further \<open>start\<close>, which creates threads only when the flag is
  clear, never assigns to a joinable one; and a sequence that ends with \<open>stop\<close> leaves neither. A
  fuser whose configuration cannot be loaded keeps its flag although it has no thread: every
  further \<open>start\<close> is then without effect until \<open>stop\<close> is called.
\<close>

theorem thread_lifecycle:
  assumes "\<not> aq_threads a" "life_run (acq_start Y) acq_stop cs a = Some a'"
    "\<not> fz_thread f" "life_run (fuser_start Y E) fuser_stop ds f = Some f'"
  shows "(aq_threads a' \<longrightarrow> aq_is_running a') \<and> (fz_thread f' \<longrightarrow> fz_is_running f')
     \<and> (last cs = Call_stop \<and> cs \<noteq> [] \<longrightarrow> \<not> aq_threads a' \<and> \<not> aq_is_running a')
     \<and> (last ds = Call_stop \<and> ds \<noteq> [] \<longrightarrow> \<not> fz_thread f' \<and> \<not> fz_is_running f')
     \<and> (\<not> fz_is_running f' \<and> fuser_start Y E f' = Some f2 \<and> \<not> fz_thread f2
          \<longrightarrow> life_run (fuser_start Y E) fuser_stop (replicate n Call_start) f2 = Some f2)"
proof (intro conjI)
  show "aq_threads a' \<longrightarrow> aq_is_running a'" using acq_life.joinable_running [OF assms(2)] assms(1) by blast
  show "fz_thread f' \<longrightarrow> fz_is_running f'" using fuser_life.joinable_running [OF assms(4)] assms(3) by blast
  show "last cs = Call_stop \<and> cs \<noteq> [] \<longrightarrow> \<not> aq_threads a' \<and> \<not> aq_is_running a'"
    using acq_life.stop_last [OF assms(2)] by blast
  show "last ds = Call_stop \<and> ds \<noteq> [] \<longrightarrow> \<not> fz_thread f' \<and> \<not> fz_is_running f'"
    using fuser_life.stop_last [OF assms(4)] by blast
  show "\<not> fz_is_running f' \<and> fuser_start Y E f' = Some f2 \<and> \<not> fz_thread f2
      \<longrightarrow> life_run (fuser_start Y E) fuser_stop (replicate n Call_start) f2 = Some f2"
  proof (intro impI)
    assume a: "\<not> fz_is_running f' \<and> fuser_start Y E f' = Some f2 \<and> \<not> fz_thread f2"
    then have "fz_is_running f2"
      by (auto simp: fuser_start_def Let_def split: prod.splits option.splits if_splits)
    then have "fuser_start Y E f2 = Some f2" by (simp add: fuser_start_def)
    then show "life_run (fuser_start Y E) fuser_stop (replicate n Call_start) f2 = Some f2"
      by (induction n) simp_all
  qed
qed

theorem thread_lifecycle_witness:
  "let f = sample_fuser undefined [] []; start = fuser_start (tree_yaml (\<lambda>_. None)) motion_eigen
   in \<exists>f2. start f = Some f2 \<and> fz_is_running f2 \<and> \<not> fz_thread f2
       \<and> life_run start fuser_stop (replicate 3 Call_start) f2 = Some f2"
proof -
  let ?f = "sample_fuser undefined [] [] :: motion fuser" and ?Y = "tree_yaml (\<lambda>_. None)"
  define a where "a = \<lparr>aq_is_running = False, aq_threads = False, aq_lidarCfg = blank_lidars,
     aq_monitor_cfg = blank_monitor, aq_bg_a = bg_new, aq_bg_b = bg_new\<rparr>"
  have f: "\<not> fz_thread ?f" "\<not> fz_is_running ?f" by (simp_all add: sample_fuser_def)
  have st: "fuser_start ?Y motion_eigen ?f = Some (?f\<lparr>fz_is_running := True\<rparr>)"
    by (simp add: fuser_start_def loadLidarConfigs_def tree_yaml_def sample_fuser_def)
  have h: "\<not> aq_threads a" "life_run (acq_start ?Y) acq_stop [] a = Some a"
    "life_run (fuser_start ?Y motion_eigen) fuser_stop [] ?f = Some ?f"
    by (simp_all add: a_def)
  show ?thesis
    using thread_lifecycle [OF h(1,2) f(1) h(3), of "?f\<lparr>fz_is_running := True\<rparr>" 3] st f by (simp add: Let_def)
qed

section \<open>What the lidar threads deliver\<close>

lemma prepare_cfg [simp]:
  "fst (snd (radar1_prepare L dev s)) = loadPcdFile L pcdA"
  "alc_lidarA (aq_lidarCfg (snd (snd (radar1_prepare L dev s)))) = alc_lidarA (aq_lidarCfg s)"
  "fst (snd (radar2_prepare L dev s)) = loadPcdFile L pcdB"
  "alc_lidarB (aq_lidarCfg (snd (snd (radar2_prepare L dev s)))) = alc_lidarB (aq_lidarCfg s)"
  by (simp_all add: radar1_prepare_def radar2_prepare_def Let_def split_beta)

text \<open>A fuser that takes a frame during the first sleep of each pass.\<close>

definition serving :: "(bool \<times> nat) list list \<Rightarrow> bool" where
  "serving ws \<longleftrightarrow> (\<forall>w\<in>set ws. \<exists>k env. w = (True, Suc k) # env)"

lemma radar_loop_serving:
  assumes "rq_wf q" "2 \<le> rq_cap q" "serving ws"
  shows "\<exists>ds q'. radar_loop c lid (Some pts) ws q = Inr (ds, q') \<and> rq_wf q'
     \<and> ds @ rq_list q' = rq_list q @ replicate (length ws) (radar_frame c lid pts)"
  using assms
proof (induction ws arbitrary: q)
  case (Cons w ws)
  obtain k env where w: "w = (True, Suc k) # env" using Cons.prems(3) by (auto simp: serving_def)
  have "\<exists>ds q'. enq_retry enqueue dequeue q (radar_frame c lid pts) w = Some (True, ds, q')"
    unfolding w using rq.enq_retry_progress [OF Cons.prems(1)] Cons.prems(2) by simp
  then obtain ds q1 where r: "enq_retry enqueue dequeue q (radar_frame c lid pts) w = Some (True, ds, q1)" by blast
  have q1: "rq_wf q1" "2 \<le> rq_cap q1" "ds @ rq_list q1 = rq_list q @ [radar_frame c lid pts]"
    using rq.enq_retry_fifo [OF Cons.prems(1) r] Cons.prems(2) by auto
  have "serving ws" using Cons.prems(3) by (simp add: serving_def)
  with Cons.IH [OF q1(1,2)] obtain ds' q2 where "radar_loop c lid (Some pts) ws q1 = Inr (ds', q2)" "rq_wf q2"
    "ds' @ rq_list q2 = rq_list q1 @ replicate (length ws) (radar_frame c lid pts)" by blast
  then show ?case using q1(3) by (simp add: radar_pass_def r)
qed simp


definition sample_acquirer :: acquirer where
  "sample_acquirer = \<lparr>aq_is_running = True, aq_threads = True, aq_lidarCfg = blank_lidars,
     aq_monitor_cfg = blank_monitor, aq_bg_a = bg_new, aq_bg_b = bg_new\<rparr>"


end
