(* ===== verification/Six_Dof.thy ===== *)
theory Six_Dof
  imports Point_Fuser "HOL-Library.Sublist"
begin

text \<open>
  \<open>include/six_dof_calculator.h\<close> and \<open>src/six_dof_calculator.cpp\<close>: the pose of the ship from
  each fused frame. The theory models the base frame and its renewal, the two registration
  stages with their fallbacks, the transformation of the result into dock coordinates, the
  Euler angles, the CSV record, and the worker pool: its bounded task queue and the bounded
  retry of the output push.

  The registration algorithms themselves (NDT and GICP) and the voxel filter belong to PCL: they
  are the record \<open>reg_lib\<close>. A \<open>Matrix4f\<close> is a value of the same unspecified type as the affine
  transforms of the theory \<open>Clouds\<close>. The clock and the formatting of numbers are arguments.
\<close>

section \<open>Data\<close>

text \<open>
  \<open>ship_length\<close> has no initialiser and is only assigned on the last path of
  \<open>calculateSixDof\<close>: \<open>None\<close> is the indeterminate value.
\<close>

record six_dof_result =
  sd_lidar_ip :: string
  sd_lidar_id :: string
  sd_timestamp :: u64
  sd_tx :: real
  sd_ty :: real
  sd_tz :: real
  sd_rx :: real
  sd_ry :: real
  sd_rz :: real
  sd_confidence :: real
  sd_ship_length :: "real option"

text \<open>
  \<open>rl_ndt\<close> and \<open>rl_gicp\<close> align a source with a target from an initial guess: converged, fitness
  score, final transformation.
\<close>

record 'm reg_lib =
  rl_voxel :: "real \<Rightarrow> real \<Rightarrow> real \<Rightarrow> cloud \<Rightarrow> cloud"
  rl_ndt :: "ndt_param \<Rightarrow> cloud \<Rightarrow> cloud \<Rightarrow> 'm \<Rightarrow> bool \<times> real \<times> 'm"
  rl_gicp :: "gicp_param \<Rightarrow> cloud \<Rightarrow> cloud \<Rightarrow> 'm \<Rightarrow> bool \<times> real \<times> 'm"
  rl_centroid :: "cloud \<Rightarrow> pointT"

text \<open>
  The members that the computations read or write. \<open>sx_base\<close> is \<open>None\<close> while the cloud pointer
  of the base frame is null; times are in nanoseconds of the steady clock; \<open>sx_workers\<close> counts
  the threads of the pool; \<open>sx_csv\<close> holds the rows written, \<open>None\<close> while the file is not open.
\<close>

record 'm six_dof =
  sx_is_running :: bool
  sx_pool_running :: bool
  sx_workers :: nat
  sx_tasks :: "fused_cloud list"
  sx_base :: "fused_cloud option"
  sx_last_base_update :: int
  sx_base_min_x_body :: real
  sx_base_max_x_body :: real
  sx_base_extremum_calc :: bool
  sx_lidarCfg :: all_lidar_configs
  sx_regCfg :: reg_param
  sx_monitor_cfg :: radar_global_config
  sx_T_A2dock :: 'm
  sx_T_B2dock :: 'm
  sx_csv :: "string list option"

definition MAX_RETRY_QUEUE :: nat where "MAX_RETRY_QUEUE = 5"
definition MAX_QUEUE_SIZE :: nat where "MAX_QUEUE_SIZE = 30"

section \<open>Euler angles\<close>

text \<open>Roll, pitch and yaw from the entries of a rotation matrix.\<close>

definition getEulerAngles :: "(nat \<Rightarrow> nat \<Rightarrow> real) \<Rightarrow> real \<times> real \<times> real" where
  "getEulerAngles R = (atan2 (R 2 1) (R 2 2), arcsin (- R 2 0), atan2 (R 0 1) (R 0 0))"

section \<open>Registration\<close>

definition preprocess :: "'m reg_lib \<Rightarrow> cloud \<Rightarrow> cloud" where
  "preprocess L c = (if c = [] then c else rl_voxel L (15 / 100) (15 / 100) (15 / 100) c)"

definition coarseRegistration :: "'m reg_lib \<Rightarrow> 'm eigen \<Rightarrow> cloud \<Rightarrow> cloud \<Rightarrow> reg_param \<Rightarrow> 'm" where
  "coarseRegistration L E src dst cfg =
     (if src = [] \<or> dst = [] then eg_identity E
      else let p = reg_ndt cfg;
               src_down = rl_voxel L (ndt_voxel_x p) (ndt_voxel_y p) (ndt_voxel_z p) src;
               dst_down = rl_voxel L (ndt_voxel_x p) (ndt_voxel_y p) (ndt_voxel_z p) dst;
               (converged, score, final) = rl_ndt L p src_down dst_down (eg_identity E)
           in if \<not> converged \<or> ndt_fit_thresh p < score
              then let c1 = rl_centroid L src_down; c2 = rl_centroid L dst_down
                   in eg_set_translation E \<lparr>px = px c2 - px c1, py = py c2 - py c1, pz = pz c2 - pz c1\<rparr>
                        (eg_identity E)
              else final)"

definition fineRegistrationGICP :: "'m reg_lib \<Rightarrow> cloud \<Rightarrow> cloud \<Rightarrow> 'm \<Rightarrow> reg_param \<Rightarrow> 'm" where
  "fineRegistrationGICP L src dst init_trans cfg =
     (if src = [] \<or> dst = [] then init_trans
      else let p = reg_gicp cfg;
               src_filtered = rl_voxel L (gicp_voxel_x p) (gicp_voxel_y p) (gicp_voxel_z p) src;
               dst_filtered = rl_voxel L (gicp_voxel_x p) (gicp_voxel_y p) (gicp_voxel_z p) dst;
               (converged, fitness, final) = rl_gicp L p src_filtered dst_filtered init_trans
           in if \<not> converged \<or> gicp_fit_thresh p < fitness then init_trans else final)"

section \<open>CSV fields\<close>

definition quote :: char where "quote = CHR 0x22"

function csv_loop :: "string \<Rightarrow> nat \<Rightarrow> string" where
  "csv_loop res pos =
     (case find_from quote res pos of
        None \<Rightarrow> res
      | Some p \<Rightarrow> csv_loop (take p res @ [quote] @ drop p res) (p + 2))"
  by auto
termination
  by (relation "measure (\<lambda>(res, pos). length res - pos)") (auto dest!: find_from_bounds)

declare csv_loop.simps [simp del]

definition csvWrap :: "string \<Rightarrow> string" where
  "csvWrap val = [quote] @ csv_loop val 0 @ [quote]"

text \<open>The header is written when the file is empty; \<open>existing\<close> is its content, \<open>None\<close> when it
  cannot be opened.\<close>

definition csv_header :: string where
  "csv_header = ''local_time,timestamp,lidar_ip,lidar_id,rx(rad),ry(rad),rz(rad),tx(cm),ty(cm),tz(cm),confidence,ship_length''"

definition initFusionCsv :: "string list option \<Rightarrow> 'm six_dof \<Rightarrow> 'm six_dof" where
  "initFusionCsv existing s =
     (case existing of
        None \<Rightarrow> s
      | Some rows \<Rightarrow> s\<lparr>sx_csv := Some (if rows = [] then [csv_header] else rows)\<rparr>)"

text \<open>One row; \<open>num\<close> is the stream's formatting of a number.\<close>

definition csv_row :: "(real \<Rightarrow> string) \<Rightarrow> string \<Rightarrow> six_dof_result \<Rightarrow> real \<Rightarrow> string" where
  "csv_row num local_time r ship_length =
     csvWrap local_time @ '','' @ csvWrap local_time @ '','' @ csvWrap (sd_lidar_ip r) @ '',''
     @ csvWrap (sd_lidar_id r) @ '','' @ num (sd_rx r) @ '','' @ num (sd_ry r) @ '','' @ num (sd_rz r)
     @ '','' @ num (sd_tx r) @ '','' @ num (sd_ty r) @ '','' @ num (sd_tz r) @ '','' @ num (sd_confidence r)
     @ '','' @ num ship_length"

section \<open>The computation of one frame\<close>

text \<open>\<open>std::chrono::minutes((long long)interval_min)\<close> in nanoseconds.\<close>

definition interval_dur :: "real \<Rightarrow> int" where
  "interval_dur interval_min = trunc interval_min * 60 * 1000000000"

definition need_update_base :: "int \<Rightarrow> 'm six_dof \<Rightarrow> bool" where
  "need_update_base now s =
     (case sx_base s of
        None \<Rightarrow> True
      | Some b \<Rightarrow> fu_points b = [] \<or>
          interval_dur (rg_base_update_interval_min (sx_monitor_cfg s)) \<le> now - sx_last_base_update s)"

definition update_base :: "int \<Rightarrow> fused_cloud \<Rightarrow> 'm six_dof \<Rightarrow> 'm six_dof" where
  "update_base now c s =
     (let s1 = s\<lparr>sx_base := Some c, sx_last_base_update := now\<rparr>
      in if \<not> sx_base_extremum_calc s \<and> fu_points c \<noteq> []
         then s1\<lparr>sx_base_min_x_body := foldl min (10 ^ 9) (map px (fu_points c)),
                 sx_base_max_x_body := foldl max (- (10 ^ 9)) (map px (fu_points c)),
                 sx_base_extremum_calc := True\<rparr>
         else s1)"

text \<open>\<open>T * T_local * T.inverse()\<close>.\<close>

definition similarity :: "'m eigen \<Rightarrow> 'm \<Rightarrow> 'm \<Rightarrow> 'm" where
  "similarity E T T_local = eg_mult E (eg_mult E T T_local) (eg_inverse E T)"

definition calculateSixDof :: "'m reg_lib \<Rightarrow> 'm eigen \<Rightarrow> (real \<Rightarrow> string) \<Rightarrow> string \<Rightarrow> int
    \<Rightarrow> fused_cloud \<Rightarrow> 'm six_dof \<Rightarrow> six_dof_result \<times> 'm six_dof" where
  "calculateSixDof L E num local_time now c s =
     (let r = \<lparr>sd_lidar_ip = [], sd_lidar_id = [], sd_timestamp = fu_timestamp c, sd_tx = 0, sd_ty = 0,
               sd_tz = 0, sd_rx = 0, sd_ry = 0, sd_rz = 0, sd_confidence = 0, sd_ship_length = None\<rparr>;
          (r1, s1) = (if need_update_base now s then (r\<lparr>sd_confidence := 1\<rparr>, update_base now c s) else (r, s));
          src = fu_points c;
          dst = (case sx_base s1 of None \<Rightarrow> [] | Some b \<Rightarrow> fu_points b)
      in if src = [] \<or> dst = [] then (r1, s1)
         else let coarse_T = coarseRegistration L E src dst (sx_regCfg s1);
                  T_local = fineRegistrationGICP L src dst coarse_T (sx_regCfg s1);
                  T_ship = (if fu_lidar_id c = ''B'' then Some (similarity E (sx_T_B2dock s1) T_local)
                            else if fu_lidar_id c = ''A'' then Some (similarity E (sx_T_A2dock s1) T_local)
                            else None)
              in case T_ship of
                   None \<Rightarrow> (r1, s1)
                 | Some T \<Rightarrow>
                     (let (roll, pitch, yaw) = getEulerAngles (eg_rotation E T);
                          t = eg_translation E T;
                          len = sx_base_max_x_body s1 - sx_base_min_x_body s1;
                          r2 = r1\<lparr>sd_lidar_ip := fu_lidar_ip c, sd_lidar_id := fu_lidar_id c,
                                  sd_rx := roll, sd_ry := pitch, sd_rz := yaw,
                                  sd_tx := px t * 100, sd_ty := py t * 100, sd_tz := pz t * 100,
                                  sd_confidence := 95 / 100, sd_ship_length := Some len\<rparr>;
                          s2 = (case sx_csv s1 of
                                  None \<Rightarrow> s1
                                | Some rows \<Rightarrow>
                                    if alc_debug_save (sx_lidarCfg s1) \<noteq> 0
                                    then s1\<lparr>sx_csv := Some (rows @ [csv_row num local_time r2 len])\<rparr> else s1)
                      in (r2, s2)))"

section \<open>Construction, start, stop and the pool\<close>

text \<open>The constructor, on the members it finds; \<open>None\<close> is undefined behaviour while loading.\<close>

definition six_dof_new :: "'n yaml \<Rightarrow> 'm eigen \<Rightarrow> int \<Rightarrow> string list option \<Rightarrow> 'm six_dof \<Rightarrow> 'm six_dof option" where
  "six_dof_new Y E now csv_file s0 =
     (let s = s0\<lparr>sx_pool_running := True\<rparr>;
          (ok1, lc) = loadLidarConfigs Y ''../dev_config.yaml'' (sx_lidarCfg s);
          s1 = s\<lparr>sx_lidarCfg := lc\<rparr>
      in if \<not> ok1 then Some s1
         else let (ok2, rc) = loadRegParam Y ''../reg_config.yaml'' (sx_regCfg s1);
                  s2 = s1\<lparr>sx_regCfg := rc\<rparr>
              in if \<not> ok2 then Some s2
                 else case loadMonitorConfig Y ''../monitor_config.yaml'' (sx_monitor_cfg s2) of
                   None \<Rightarrow> None
                 | Some (ok3, mc) \<Rightarrow>
                     (let s3 = s2\<lparr>sx_monitor_cfg := mc\<rparr>
                      in if \<not> ok3 then Some s3
                         else let s4 = (if alc_debug_save lc \<noteq> 0 then initFusionCsv csv_file s3 else s3)
                              in Some (s4\<lparr>sx_T_A2dock := getLidarATrans E (rg_lidarA mc),
                                          sx_T_B2dock := getLidarBTrans E (rg_lidarB mc),
                                          sx_last_base_update := now, sx_workers := 6\<rparr>)))"

definition six_dof_start :: "'m six_dof \<Rightarrow> 'm six_dof" where
  "six_dof_start s = (if sx_is_running s then s else s\<lparr>sx_is_running := True\<rparr>)"

text \<open>\<open>stop\<close> joins the workers, which leave only when the task queue is empty.\<close>

definition six_dof_stop :: "'m six_dof \<Rightarrow> 'm six_dof" where
  "six_dof_stop s = s\<lparr>sx_is_running := False, sx_pool_running := False\<rparr>"

text \<open>The critical section of \<open>calcLoop\<close>: a full queue loses its oldest task.\<close>

definition dispatch :: "fused_cloud \<Rightarrow> fused_cloud list \<Rightarrow> fused_cloud list" where
  "dispatch c tasks = (if MAX_QUEUE_SIZE \<le> length tasks then tl tasks else tasks) @ [c]"

definition calc_iteration :: "fused_cloud ring_queue \<times> 'm six_dof \<Rightarrow> fused_cloud ring_queue \<times> 'm six_dof" where
  "calc_iteration qs =
     (case dequeue (fst qs) of
        (None, q) \<Rightarrow> (q, snd qs)
      | (Some c, q) \<Rightarrow> (q, (snd qs)\<lparr>sx_tasks := dispatch c (sx_tasks (snd qs))\<rparr>))"

text \<open>What a woken worker does: exit, take the front task, or keep waiting.\<close>

datatype worker_step = Worker_waits | Worker_exits | Worker_takes fused_cloud

definition worker_take :: "'m six_dof \<Rightarrow> worker_step \<times> 'm six_dof" where
  "worker_take s =
     (case sx_tasks s of
        [] \<Rightarrow> (if sx_pool_running s then Worker_waits else Worker_exits, s)
      | c # rest \<Rightarrow> (Worker_takes c, s\<lparr>sx_tasks := rest\<rparr>))"

text \<open>
  The push of a result: \<open>while (!enqueue(res) && retry < 5) { sleep; retry++; }\<close>, followed by an
  error report when \<open>retry >= 5\<close>. \<open>taken i\<close> is the number of results the consumer takes during
  the \<open>i\<close>-th sleep. Result: whether the last push succeeded, whether the error is logged, what the
  consumer took, the queue.
\<close>

function push_result :: "nat \<Rightarrow> (nat \<Rightarrow> nat) \<Rightarrow> 'a ring_queue \<Rightarrow> 'a \<Rightarrow> bool \<times> bool \<times> 'a list \<times> 'a ring_queue" where
  "push_result retry taken q x =
     (case enqueue q x of (ok, q1) \<Rightarrow>
        if ok \<or> MAX_RETRY_QUEUE \<le> retry then (ok, MAX_RETRY_QUEUE \<le> retry, [], q1)
        else case deq_n dequeue (taken retry) q1 of (ds, q2) \<Rightarrow>
               (case push_result (retry + 1) taken q2 x of (b, e, ds', q3) \<Rightarrow> (b, e, ds @ ds', q3)))"
  by auto
termination
  by (relation "measure (\<lambda>(retry, _, _, _). MAX_RETRY_QUEUE - retry)") auto

declare push_result.simps [simp del]

section \<open>CSV fields can be read back\<close>

definition csv_escape :: "string \<Rightarrow> string" where
  "csv_escape v = concat (map (\<lambda>c. if c = quote then [quote, quote] else [c]) v)"

lemma csv_escape_simps [simp]: "csv_escape [] = []"
  "csv_escape (c # v) = (if c = quote then [quote, quote] else [c]) @ csv_escape v"
  "csv_escape (u @ v) = csv_escape u @ csv_escape v"
  by (simp_all add: csv_escape_def)

lemma csv_escape_plain: "quote \<notin> set v \<Longrightarrow> csv_escape v = v"
  by (induction v) auto

lemma csv_loop_escape: "csv_loop (pre @ v) (length pre) = pre @ csv_escape v"
proof (induction "length v" arbitrary: pre v rule: less_induct)
  case less
  show ?case
  proof (cases "quote \<in> set v")
    case False
    then have tw: "takeWhile (\<lambda>d. d \<noteq> quote) v = v" by (auto simp: takeWhile_eq_all_conv)
    have "find_from quote (pre @ v) (length pre) = None" by (simp add: find_from_def tw Let_def)
    then show ?thesis using False by (simp add: csv_loop.simps csv_escape_plain)
  next
    case True
    then obtain u w where v: "v = u @ quote # w" "quote \<notin> set u"
      by (metis split_list_first)
    then have tw: "takeWhile (\<lambda>d. d \<noteq> quote) v = u"
      by (auto simp: takeWhile_eq_all_conv takeWhile_append)
    have f: "find_from quote (pre @ v) (length pre) = Some (length pre + length u)"
    proof -
      have "length v = length u + Suc (length w)" using v(1) by simp
      then show ?thesis by (simp add: find_from_def tw Let_def)
    qed
    have "csv_loop (pre @ v) (length pre)
        = csv_loop ((pre @ u @ [quote, quote]) @ w) (length (pre @ u @ [quote, quote]))"
      unfolding csv_loop.simps [of "pre @ v"] f option.case by (simp add: v(1))
    also have "\<dots> = (pre @ u @ [quote, quote]) @ csv_escape w"
      by (rule less) (simp add: v(1))
    finally show ?thesis using v by (simp add: csv_escape_plain)
  qed
qed

lemma csvWrap_escape: "csvWrap v = quote # csv_escape v @ [quote]"
  using csv_loop_escape [of "[]" v] by (simp add: csvWrap_def)

text \<open>A reader of one quoted field: the text and what follows the closing quote.\<close>

fun csv_field :: "string \<Rightarrow> (string \<times> string) option" where
  "csv_field [] = None"
| "csv_field [c] = (if c = quote then Some ([], []) else None)"
| "csv_field (c # d # rest) =
     (if c = quote then (if d = quote then map_option (map_prod (Cons quote) id) (csv_field rest) else Some ([], d # rest))
      else map_option (map_prod (Cons c) id) (csv_field (d # rest)))"

fun csv_read :: "string \<Rightarrow> (string \<times> string) option" where
  "csv_read (c # s) = (if c = quote then csv_field s else None)"
| "csv_read [] = None"

lemma csv_field_escape:
  assumes "rest = [] \<or> hd rest \<noteq> quote"
  shows "csv_field (csv_escape v @ quote # rest) = Some (v, rest)"
proof (induction v)
  case Nil
  then show ?case using assms by (cases rest) auto
next
  case (Cons c v)
  obtain d t where "csv_escape v @ quote # rest = d # t" by (cases "csv_escape v") auto
  then show ?case using Cons by auto
qed

text \<open>
  \<open>csvWrap\<close> is invertible. A reader that undoes quoting gets back the exact text of the
  field and the rest of the row, whatever quotes or commas the field contains, as long as the
  next character is not a quote (in a row it is a comma). The escaping loop terminates.
\<close>

theorem csvWrap_roundtrip:
  assumes "rest = [] \<or> hd rest \<noteq> quote"
  shows "csv_read (csvWrap v @ rest) = Some (v, rest)"
  using csv_field_escape [OF assms, of v] by (simp add: csvWrap_escape)

theorem csvWrap_roundtrip_witness:
  "csv_read (csvWrap [CHR ''a'', quote, CHR '',''] @ '',x'') = Some ([CHR ''a'', quote, CHR '',''], '',x'')"
  by (rule csvWrap_roundtrip) (simp add: quote_def)

section \<open>The worker pool\<close>

datatype pool_op = Pool_dispatch fused_cloud | Pool_take

text \<open>A run of the pool: the frames workers took, in order, and the state.\<close>

fun pool_run :: "'m six_dof \<Rightarrow> pool_op list \<Rightarrow> fused_cloud list \<times> 'm six_dof" where
  "pool_run s [] = ([], s)"
| "pool_run s (Pool_dispatch c # ops) = pool_run (s\<lparr>sx_tasks := dispatch c (sx_tasks s)\<rparr>) ops"
| "pool_run s (Pool_take # ops) =
     (case worker_take s of
        (Worker_takes c, s') \<Rightarrow> (case pool_run s' ops of (cs, s'') \<Rightarrow> (c # cs, s''))
      | (_, s') \<Rightarrow> pool_run s' ops)"

fun dispatched :: "pool_op list \<Rightarrow> fused_cloud list" where
  "dispatched [] = []"
| "dispatched (Pool_dispatch c # ops) = c # dispatched ops"
| "dispatched (Pool_take # ops) = dispatched ops"

lemma dispatch_subseq: "subseq (dispatch c ts) (ts @ [c])" "length ts \<le> 30 \<Longrightarrow> length (dispatch c ts) \<le> 30"
  "length ts < 30 \<Longrightarrow> dispatch c ts = ts @ [c]" "last (dispatch c ts) = c"
proof -
  have "subseq (tl ts) ts" by (cases ts) auto
  then show "subseq (dispatch c ts) (ts @ [c])" by (auto simp: dispatch_def intro: list_emb_append_mono)
qed (auto simp: dispatch_def MAX_QUEUE_SIZE_def)

lemma pool_run_subseq:
  assumes "pool_run s ops = (cs, s')" "length (sx_tasks s) \<le> 30"
  shows "subseq (cs @ sx_tasks s') (sx_tasks s @ dispatched ops) \<and> length (sx_tasks s') \<le> 30"
  using assms
proof (induction s ops arbitrary: cs rule: pool_run.induct)
  case (2 s c ops)
  let ?s1 = "s\<lparr>sx_tasks := dispatch c (sx_tasks s)\<rparr>"
  have "subseq (cs @ sx_tasks s') (dispatch c (sx_tasks s) @ dispatched ops)" "length (sx_tasks s') \<le> 30"
    using "2.IH" [of cs] "2.prems" dispatch_subseq(2) by auto
  moreover have "subseq (dispatch c (sx_tasks s) @ dispatched ops) ((sx_tasks s @ [c]) @ dispatched ops)"
    by (intro list_emb_append_mono dispatch_subseq(1)) simp
  ultimately show ?case using subseq_order.order_trans by fastforce
next
  case (3 s ops)
  show ?case
  proof (cases "sx_tasks s")
    case Nil
    then show ?thesis using 3 by (cases "sx_pool_running s") (auto simp: worker_take_def)
  next
    case (Cons c rest)
    then show ?thesis using 3 by (auto simp: worker_take_def split: prod.splits)
  qed
qed auto

text \<open>
  The task queue of the pool. Whatever the interleaving of dispatches and workers, never
  more than thirty frames wait; no frame is handed out twice or out of order (the frames taken
  followed by those waiting are a subsequence of the frames dispatched); the newest frame is
  never the one that is dropped, and nothing is dropped while fewer than thirty wait.
\<close>

theorem pool_bounded_fifo:
  assumes "pool_run s ops = (cs, s')" "sx_tasks s = []"
  shows "length (sx_tasks s') \<le> 30 \<and> subseq (cs @ sx_tasks s') (dispatched ops)
     \<and> last (dispatch c ts) = c \<and> (length ts < 30 \<longrightarrow> dispatch c ts = ts @ [c])"
  using pool_run_subseq [OF assms(1)] assms(2) dispatch_subseq(3,4) by simp

section \<open>Pushing a result\<close>

lemma push_result_fifo:
  assumes "rq_wf q" "push_result retry taken q x = (ok, e, ds, q')"
  shows "rq_wf q' \<and> ds @ rq_list q' = rq_list q @ (if ok then [x] else []) \<and> (\<not> ok \<longrightarrow> e)"
  using assms
proof (induction retry taken q x arbitrary: ds rule: push_result.induct)
  case (1 retry taken q x)
  obtain ok1 q1 where q1: "enqueue q x = (ok1, q1)" by force
  have wf: "rq_wf q1" using rq.enq_invar [OF "1.prems"(1), of x] q1 by simp
  have l: "rq_list q1 = (if ok1 then rq_list q @ [x] else rq_list q)"
    using rq.enq_contents [OF "1.prems"(1), of x] rq.enq_accepts [OF "1.prems"(1), of x] q1 by simp
  show ?case
  proof (cases "ok1 \<or> MAX_RETRY_QUEUE \<le> retry")
    case True
    then show ?thesis using "1.prems"(2) q1 wf l by (subst (asm) push_result.simps) auto
  next
    case False
    obtain ds1 q2 where d: "deq_n dequeue (taken retry) q1 = (ds1, q2)" by force
    have q2: "rq_wf q2" "ds1 @ rq_list q2 = rq_list q1"
      using rq.deq_n_contents [OF wf, of "taken retry"] d by auto
    obtain ds2 where r: "push_result (retry + 1) taken q2 x = (ok, e, ds2, q')" "ds = ds1 @ ds2"
      using "1.prems"(2) False q1 d by (subst (asm) push_result.simps) (auto split: prod.splits)
    show ?thesis
      using "1.IH" [OF q1 [symmetric] False d [symmetric] q2(1) r(1)] False q2(2) l r(2) by simp
  qed
qed

text \<open>
  The retry loop of the workers. It returns after at most six attempts. If it gives up, the
  queue content is unchanged and the error is logged; otherwise the result is in the stream
  exactly once. But the log is not reliable: a push that succeeds on the sixth attempt is
  reported as lost although the result was queued.
\<close>

theorem push_result_spec:
  assumes "rq_wf q" "push_result 0 taken q x = (ok, e, ds, q')"
  shows "rq_wf q' \<and> ds @ rq_list q' = rq_list q @ (if ok then [x] else []) \<and> (\<not> ok \<longrightarrow> e)
     \<and> (\<exists>ds' q''. push_result 0 (\<lambda>i. if i = 4 then 1 else 0)
            \<lparr>rq_capacity = 2, rq_buffer = [7, 0::nat], rq_head = 0, rq_tail = 1\<rparr> 8 = (True, True, ds', q''))"
proof -
  have "\<exists>ds' q''. push_result 0 (\<lambda>i. if i = 4 then 1 else 0)
            \<lparr>rq_capacity = 2, rq_buffer = [7, 0::nat], rq_head = 0, rq_tail = 1\<rparr> 8 = (True, True, ds', q'')"
    by (simp add: push_result.simps MAX_RETRY_QUEUE_def enqueue_def dequeue_def next_index_def Let_def
        eval_nat_numeral)
  then show ?thesis using push_result_fifo [OF assms] by blast
qed

theorem push_result_spec_witness:
  "\<exists>q'. push_result 0 (\<lambda>_. 0) (ring4 (0::nat)) 5 = (True, False, [], q') \<and> rq_list q' = [5]"
proof -
  have "\<exists>q'. push_result 0 (\<lambda>_. 0) (ring4 (0::nat)) 5 = (True, False, [], q')"
    by (simp add: push_result.simps MAX_RETRY_QUEUE_def enqueue_def next_index_def Let_def ring4_def)
  then obtain q' where q': "push_result 0 (\<lambda>_. 0) (ring4 (0::nat)) 5 = (True, False, [], q')" by blast
  then show ?thesis using push_result_spec [OF ring4_wf(1) q'] ring4_wf(2) [of "0::nat"] by auto
qed

section \<open>Registration and the transformation to the dock\<close>

text \<open>
  The fallback of the coarse registration. When NDT does not converge, or converges with a
  score above the threshold, the result is the pure translation that carries the centroid of
  the down-sampled source to that of the target; and when the fine registration fails too, this
  is the motion the pose is computed from.
\<close>

theorem registration_fallback:
  assumes "eigen_law E" "src \<noteq> []" "dst \<noteq> []" "p = reg_ndt cfg"
    "sd = rl_voxel L (ndt_voxel_x p) (ndt_voxel_y p) (ndt_voxel_z p) src"
    "dd = rl_voxel L (ndt_voxel_x p) (ndt_voxel_y p) (ndt_voxel_z p) dst"
    "rl_ndt L p sd dd (eg_identity E) = (conv, score, final)"
    "\<not> conv \<or> ndt_fit_thresh p < score"
  shows "eg_apply E (coarseRegistration L E src dst cfg) (rl_centroid L sd) = rl_centroid L dd
    \<and> (\<forall>q. pt_sub (eg_apply E (coarseRegistration L E src dst cfg) q) q
          = pt_sub (rl_centroid L dd) (rl_centroid L sd))
    \<and> (\<forall>T. (\<forall>g s d. \<not> fst (rl_gicp L g s d T)) \<longrightarrow> fineRegistrationGICP L src dst T cfg = T)"
proof -
  let ?c1 = "rl_centroid L sd" and ?c2 = "rl_centroid L dd"
  have T: "coarseRegistration L E src dst cfg
      = eg_set_translation E \<lparr>px = px ?c2 - px ?c1, py = py ?c2 - py ?c1, pz = pz ?c2 - pz ?c1\<rparr> (eg_identity E)"
    using assms(2-8) by (simp add: coarseRegistration_def Let_def)
  have "eg_apply E (coarseRegistration L E src dst cfg) q = pt_add q (pt_sub ?c2 ?c1)" for q
    unfolding T eigen_lawD(2) [OF assms(1)] eigen_lawD(1) [OF assms(1)]
    by (simp add: origin_def pt_add_def pt_sub_def)
  moreover have "fineRegistrationGICP L src dst T cfg = T" if "\<forall>g s d. \<not> fst (rl_gicp L g s d T)" for T
    using that assms(2,3) by (auto simp: fineRegistrationGICP_def Let_def split: prod.splits) (metis fst_conv)+
  ultimately show ?thesis by (auto intro: pointT_eqI)
qed

lemma similarity_action:
  assumes "eigen_law E" "eg_rigid E T"
  shows "eg_apply E (similarity E T M) (eg_apply E T p) = eg_apply E T (eg_apply E M p)"
  using eigen_lawD(4,6) [OF assms(1)] assms(2) by (simp add: similarity_def)

text \<open>
  C6: the position in a result. For a frame of lidar A, registered with motion \<open>M\<close> in the
  coordinates of A, the reported translation is, in centimetres, where the dock's origin goes
  under the same motion seen from the dock: the dock motion carries every point seen by A at
  \<open>q\<close>, in dock coordinates, to the dock coordinates of \<open>M q\<close>.
\<close>

theorem six_dof_dock_motion:
  assumes "eigen_law E" "eg_rigid E (sx_T_A2dock s)" "fu_points c \<noteq> []" "fu_lidar_id c = ''A''"
    "sx_base s = Some b" "fu_points b \<noteq> []" "\<not> need_update_base now s"
    "M = fineRegistrationGICP L (fu_points c) (fu_points b)
           (coarseRegistration L E (fu_points c) (fu_points b) (sx_regCfg s)) (sx_regCfg s)"
    "calculateSixDof L E num lt now c s = (r, s')"
  shows "\<exists>D. (\<forall>q. eg_apply E D (eg_apply E (sx_T_A2dock s) q) = eg_apply E (sx_T_A2dock s) (eg_apply E M q))
     \<and> \<lparr>px = sd_tx r, py = sd_ty r, pz = sd_tz r\<rparr> = pt_scale 100 (eg_apply E D origin)
     \<and> sd_confidence r = 95 / 100 \<and> sd_lidar_id r = ''A'' \<and> sx_base s' = sx_base s"
proof (intro exI conjI allI)
  let ?D = "similarity E (sx_T_A2dock s) M"
  show "eg_apply E ?D (eg_apply E (sx_T_A2dock s) q) = eg_apply E (sx_T_A2dock s) (eg_apply E M q)" for q
    by (rule similarity_action [OF assms(1,2)])
  have run: "r = fst (calculateSixDof L E num lt now c s)" "s' = snd (calculateSixDof L E num lt now c s)"
    using assms(9) by simp_all
  show "\<lparr>px = sd_tx r, py = sd_ty r, pz = sd_tz r\<rparr> = pt_scale 100 (eg_apply E ?D origin)"
    "sd_confidence r = 95 / 100" "sd_lidar_id r = ''A''" "sx_base s' = sx_base s"
    unfolding run using assms(3-8)
    by (simp_all add: calculateSixDof_def Let_def split_beta eigen_lawD(7) [OF assms(1)] pt_scale_def
        mult.commute split: option.splits)
qed

text \<open>The identity registration: both stages converge on the guess.\<close>

definition still_lib :: "'m reg_lib" where
  "still_lib = \<lparr>rl_voxel = (\<lambda>_ _ _ c. c), rl_ndt = (\<lambda>_ _ _ T. (True, 0, T)),
     rl_gicp = (\<lambda>_ _ _ T. (True, 0, T)), rl_centroid = hd\<rparr>"

definition lost_lib :: "'m reg_lib" where
  "lost_lib = still_lib\<lparr>rl_ndt := (\<lambda>_ _ _ T. (False, 0, T)), rl_gicp := (\<lambda>_ _ _ T. (False, 0, T))\<rparr>"

definition sample_dof :: "fused_cloud option \<Rightarrow> motion six_dof" where
  "sample_dof b = \<lparr>sx_is_running = True, sx_pool_running = True, sx_workers = 6, sx_tasks = [], sx_base = b,
     sx_last_base_update = 0, sx_base_min_x_body = 0, sx_base_max_x_body = 0, sx_base_extremum_calc = False,
     sx_lidarCfg = blank_lidars, sx_regCfg = reg_default, sx_monitor_cfg = blank_monitor,
     sx_T_A2dock = eg_identity motion_eigen, sx_T_B2dock = eg_identity motion_eigen, sx_csv = None\<rparr>"

theorem pool_bounded_fifo_witness:
  "let (cs, s') = pool_run (sample_dof None) [Pool_dispatch (single (frame_at 1)), Pool_dispatch (single (frame_at 2)), Pool_take]
   in cs = [single (frame_at 1)] \<and> length (sx_tasks s') \<le> 30"
proof -
  let ?ops = "[Pool_dispatch (single (frame_at 1)), Pool_dispatch (single (frame_at 2)), Pool_take]"
  obtain cs s' where r: "pool_run (sample_dof None) ?ops = (cs, s')" by force
  have "cs = [single (frame_at 1)]"
    using r by (simp add: dispatch_def MAX_QUEUE_SIZE_def worker_take_def sample_dof_def)
  then show ?thesis using pool_bounded_fifo [OF r] r by (simp add: sample_dof_def)
qed

theorem registration_fallback_witness:
  "eg_apply motion_eigen (coarseRegistration lost_lib motion_eigen [unit_vec 0] [unit_vec 1] reg_default) (unit_vec 0)
     = unit_vec 1"
proof -
  have h: "[unit_vec 0] \<noteq> []" "[unit_vec 1] \<noteq> []" "reg_ndt reg_default = reg_ndt reg_default"
    "[unit_vec 0] = rl_voxel lost_lib (ndt_voxel_x (reg_ndt reg_default)) (ndt_voxel_y (reg_ndt reg_default))
       (ndt_voxel_z (reg_ndt reg_default)) [unit_vec 0]"
    "[unit_vec 1] = rl_voxel lost_lib (ndt_voxel_x (reg_ndt reg_default)) (ndt_voxel_y (reg_ndt reg_default))
       (ndt_voxel_z (reg_ndt reg_default)) [unit_vec 1]"
    "rl_ndt lost_lib (reg_ndt reg_default) [unit_vec 0] [unit_vec 1] (eg_identity motion_eigen)
       = (False, 0, eg_identity motion_eigen)" "\<not> False \<or> ndt_fit_thresh (reg_ndt reg_default) < 0"
    by (simp_all add: lost_lib_def still_lib_def)
  show ?thesis
    using registration_fallback [OF motion_eigen_law h] by (simp add: lost_lib_def still_lib_def)
qed

theorem six_dof_dock_motion_witness:
  "\<exists>r s'. calculateSixDof still_lib motion_eigen (\<lambda>_. []) [] 5 (single (frame_at 1)) (sample_dof (Some (single (frame_at 1))))
     = (r, s') \<and> sd_confidence r = 95 / 100 \<and> sd_lidar_id r = ''A''"
proof -
  let ?s = "sample_dof (Some (single (frame_at 1)))" and ?c = "single (frame_at 1)"
  obtain r s' where r: "calculateSixDof still_lib motion_eigen (\<lambda>_. []) [] 5 ?c ?s = (r, s')" by force
  have h: "eg_rigid motion_eigen (sx_T_A2dock ?s)" "fu_points ?c \<noteq> []" "fu_lidar_id ?c = ''A''"
    "sx_base ?s = Some ?c" "\<not> need_update_base 5 ?s"
    using eigen_lawD(8) [OF motion_eigen_law]
    by (simp_all add: sample_dof_def single_def frame_at_def need_update_base_def interval_dur_def trunc_def
        blank_monitor_def Let_def)
  show ?thesis
    using six_dof_dock_motion [OF motion_eigen_law h(1-4) h(2) h(5) refl r] r by blast
qed

section \<open>The base frame\<close>

lemma calculateSixDof_base:
  "sx_base (snd (calculateSixDof L E num lt now c s)) = (if need_update_base now s then Some c else sx_base s)"
  "sx_last_base_update (snd (calculateSixDof L E num lt now c s))
     = (if need_update_base now s then now else sx_last_base_update s)"
  "sx_monitor_cfg (snd (calculateSixDof L E num lt now c s)) = sx_monitor_cfg s"
  by (simp_all add: calculateSixDof_def Let_def split_beta update_base_def split: option.splits)

lemma calculateSixDof_extremes:
  "(let s' = snd (calculateSixDof L E num lt now c s) in
     (sx_base_min_x_body s', sx_base_max_x_body s', sx_base_extremum_calc s')
   = (if need_update_base now s \<and> \<not> sx_base_extremum_calc s \<and> fu_points c \<noteq> []
      then (foldl min (10 ^ 9) (map px (fu_points c)), foldl max (- (10 ^ 9)) (map px (fu_points c)), True)
      else (sx_base_min_x_body s, sx_base_max_x_body s, sx_base_extremum_calc s)))"
  by (simp add: calculateSixDof_def Let_def split_beta update_base_def split: option.splits)

text \<open>
  Renewal of the base frame. With a usable base frame, a new frame replaces it exactly when
  the whole number of minutes in \<open>base_update_interval_min\<close> has passed since the last renewal.
  The configuration comment calls the number seconds: with its default of 300 the base frame is
  kept for five hours, and an interval below one minute renews it with every single frame, so
  that every pose is measured against itself.
\<close>

theorem base_renewal:
  assumes "sx_base s = Some b" "fu_points b \<noteq> []" "snd (calculateSixDof L E num lt now c s) = s'"
  shows "(sx_base s', sx_last_base_update s') =
      (if trunc (rg_base_update_interval_min (sx_monitor_cfg s)) * 60000000000 \<le> now - sx_last_base_update s
       then (Some c, now) else (Some b, sx_last_base_update s))
    \<and> (rg_base_update_interval_min (sx_monitor_cfg s) = 300 \<and> now - sx_last_base_update s < 300 * 60 * 10 ^ 9
        \<longrightarrow> sx_base s' = Some b)
    \<and> (0 \<le> rg_base_update_interval_min (sx_monitor_cfg s) \<and> rg_base_update_interval_min (sx_monitor_cfg s) < 1
        \<and> sx_last_base_update s \<le> now \<longrightarrow> sx_base s' = Some c)"
proof -
  have need: "need_update_base now s \<longleftrightarrow>
      trunc (rg_base_update_interval_min (sx_monitor_cfg s)) * 60000000000 \<le> now - sx_last_base_update s"
    using assms(1,2) by (simp add: need_update_base_def interval_dur_def mult.commute)
  have "trunc 300 = 300" by (simp add: trunc_def)
  moreover have "trunc i = 0" if "0 \<le> i" "i < 1" for i :: real
    using that by (simp add: trunc_def floor_eq_iff)
  ultimately show ?thesis
    using calculateSixDof_base [of L E num lt now c s] assms need by auto
qed

theorem base_renewal_witness:
  "sx_base (snd (calculateSixDof still_lib motion_eigen (\<lambda>_. []) [] (299 * 60 * 10 ^ 9) (single (frame_at 2))
      (sample_dof (Some (single (frame_at 1)))))) = Some (single (frame_at 1))"
proof -
  let ?s = "sample_dof (Some (single (frame_at 1)))"
  have h: "sx_base ?s = Some (single (frame_at 1))" "fu_points (single (frame_at 1)) \<noteq> []"
    by (simp_all add: sample_dof_def single_def frame_at_def)
  show ?thesis
    using base_renewal [OF h refl, of still_lib motion_eigen "\<lambda>_. []" "[]" "299 * 60 * 10 ^ 9" "single (frame_at 2)"]
    by (simp add: sample_dof_def blank_monitor_def Let_def)
qed

text \<open>Frames computed one after another, with the clock at each.\<close>

fun dof_run :: "'m reg_lib \<Rightarrow> 'm eigen \<Rightarrow> (real \<Rightarrow> string) \<Rightarrow> string \<Rightarrow> (int \<times> fused_cloud) list \<Rightarrow> 'm six_dof
    \<Rightarrow> six_dof_result list \<times> 'm six_dof" where
  "dof_run L E num lt [] s = ([], s)"
| "dof_run L E num lt ((now, c) # cs) s =
     (case calculateSixDof L E num lt now c s of (r, s1) \<Rightarrow>
        (case dof_run L E num lt cs s1 of (rs, s2) \<Rightarrow> (r # rs, s2)))"

lemma calculateSixDof_length:
  assumes "sx_base_extremum_calc s" "calculateSixDof L E num lt now c s = (r, s1)"
  shows "sd_ship_length r \<in> {None, Some (sx_base_max_x_body s - sx_base_min_x_body s)}
     \<and> sx_base_extremum_calc s1 \<and> sx_base_max_x_body s1 = sx_base_max_x_body s
     \<and> sx_base_min_x_body s1 = sx_base_min_x_body s"
proof -
  have "s1 = snd (calculateSixDof L E num lt now c s)" "r = fst (calculateSixDof L E num lt now c s)"
    using assms(2) by simp_all
  then show ?thesis
    using assms(1) calculateSixDof_extremes [of L E num lt now c s]
    by (simp add: Let_def) (simp add: calculateSixDof_def Let_def split_beta update_base_def split: option.splits)
qed

text \<open>
  The reported ship length never changes again. Once the extent of a base frame has been
  measured, every later result that carries a length carries that one, also after the base
  frame has been renewed with another ship's points.
\<close>

theorem ship_length_frozen:
  assumes "sx_base_extremum_calc s" "dof_run L E num lt cs s = (rs, s')"
  shows "sd_ship_length ` set rs \<subseteq> {None, Some (sx_base_max_x_body s - sx_base_min_x_body s)}"
  using assms
proof (induction cs arbitrary: s rs)
  case (Cons nc cs)
  obtain now c where nc: "nc = (now, c)" by force
  obtain r s1 where r: "calculateSixDof L E num lt now c s = (r, s1)" by force
  obtain rs1 where rs1: "dof_run L E num lt cs s1 = (rs1, s')" "rs = r # rs1"
    using Cons.prems(2) nc r by (auto split: prod.splits)
  note step = calculateSixDof_length [OF Cons.prems(1) r]
  show ?case using Cons.IH [OF _ rs1(1)] step rs1(2) by auto
qed simp

theorem ship_length_frozen_witness:
  "let s = (sample_dof None)\<lparr>sx_base_extremum_calc := True, sx_base_max_x_body := 120\<rparr>
   in sd_ship_length ` set (fst (dof_run still_lib motion_eigen (\<lambda>_. []) [] [(0, single (frame_at 1)), (7, single (frame_at 2))] s))
      \<subseteq> {None, Some 120}"
proof -
  let ?s = "(sample_dof None)\<lparr>sx_base_extremum_calc := True, sx_base_max_x_body := 120\<rparr>"
  have "sx_base_extremum_calc ?s" by simp
  from ship_length_frozen [OF this prod.collapse [symmetric], of still_lib motion_eigen "\<lambda>_. []" "[]"
      "[(0, single (frame_at 1)), (7, single (frame_at 2))]"]
  show ?thesis by (simp add: Let_def sample_dof_def)
qed

section \<open>Euler angles\<close>

text \<open>The entries of the rotation \<open>Rz(z) Ry(y) Rx(x)\<close>.\<close>

definition rot_zyx :: "real \<Rightarrow> real \<Rightarrow> real \<Rightarrow> nat \<Rightarrow> nat \<Rightarrow> real" where
  "rot_zyx x y z i j = coord i (rot_axis z UnitZ (rot_axis y UnitY (rot_axis x UnitX (unit_vec j))))"

lemma rot_zyx_entries:
  "rot_zyx x y z 2 0 = - sin y" "rot_zyx x y z 2 1 = cos y * sin x" "rot_zyx x y z 2 2 = cos y * cos x"
  "rot_zyx x y z 0 0 = cos z * cos y" "rot_zyx x y z 0 1 = cos z * (sin y * sin x) - sin z * cos x"
  by (simp_all add: rot_zyx_def coord_def unit_vec_def)

lemmas rot_zyx_simps = rot_zyx_entries rot_zyx_entries(2,5) [unfolded One_nat_def]

lemma atan2_polar:
  assumes "0 < r" "- (pi / 2) < t" "t < pi / 2"
  shows "atan2 (r * sin t) (r * cos t) = t"
proof -
  have "0 < cos t" using assms(2,3) by (simp add: cos_gt_zero_pi)
  then have "0 < r * cos t" "(r * sin t) / (r * cos t) = tan t" using assms(1) by (simp_all add: tan_def)
  then show ?thesis using arctan_tan [OF assms(2,3)] by (simp add: atan2_def)
qed

text \<open>
  C35: the angles of a rotation \<open>Rz(z) Ry(y) Rx(x)\<close> with angles below 90 degrees.
  \<open>getEulerAngles\<close> recovers roll and pitch exactly. The yaw is not recovered: it is taken from the
  entry in the first row and second column instead of the second row and first column, and for
  a ship that only turns, the reported yaw has the wrong sign.
\<close>

theorem getEulerAngles_spec:
  assumes "\<bar>x\<bar> < pi / 2" "\<bar>y\<bar> < pi / 2" "\<bar>z\<bar> < pi / 2"
  shows "fst (getEulerAngles (rot_zyx x y z)) = x
     \<and> fst (snd (getEulerAngles (rot_zyx x y z))) = y
     \<and> getEulerAngles (rot_zyx 0 0 z) = (0, 0, - z)"
proof (intro conjI)
  have c: "0 < cos y" using assms(2) by (intro cos_gt_zero_pi) auto
  show "fst (getEulerAngles (rot_zyx x y z)) = x"
    using atan2_polar [OF c, of x] assms(1) by (simp add: getEulerAngles_def rot_zyx_simps)
  show "fst (snd (getEulerAngles (rot_zyx x y z))) = y"
    using arcsin_sin [of y] assms(2) by (simp add: getEulerAngles_def rot_zyx_simps)
  have "- (pi / 2) < - z" "- z < pi / 2" using assms(3) by auto
  from atan2_polar [OF zero_less_one this] show "getEulerAngles (rot_zyx 0 0 z) = (0, 0, - z)"
    by (simp add: getEulerAngles_def rot_zyx_simps atan2_def)
qed

theorem getEulerAngles_spec_witness: "getEulerAngles (rot_zyx 0 0 (1 / 2)) = (0, 0, - (1 / 2))"
proof -
  have "\<bar>0::real\<bar> < pi / 2" "\<bar>1 / 2::real\<bar> < pi / 2" using pi_ge_two by simp_all
  then show ?thesis using getEulerAngles_spec [of 0 0 "1 / 2"] by blast
qed

end
