(* ===== verification/Mqtt_Client.thy ===== *)
theory Mqtt_Client
  imports Cbyd_Prelude
begin

text \<open>
  \<open>include/industrial_mqtt_client.h\<close> and \<open>src/industrial_mqtt_client.cpp\<close>: the MQTT client as a
  state machine. Its work thread has a program counter at every call into libhv (the MQTT
  library), where other threads can run; a call of \<open>start\<close> or \<open>stop\<close>, each step of the work
  thread and each event of the library is one action. What libhv answers (a handle or none, the
  result of a connect, the events) is part of the action. Handles are numbered; the list of freed
  handles and the fault field record misuse of the library, which no step reads.
\<close>

section \<open>State\<close>

record mqtt_config =
  mc_host :: string
  mc_port :: int
  mc_username :: string
  mc_password :: string
  mc_client_id :: string
  mc_default_topic :: string
  mc_keepalive :: int
  mc_qos :: int
  mc_enable_ssl :: bool
  mc_reconnect_interval :: int
  mc_max_reconnect_attempts :: int

definition mqtt_config_default :: mqtt_config where
  "mqtt_config_default = \<lparr>mc_host = ''127.0.0.1'', mc_port = 1883, mc_username = ''guest'',
     mc_password = ''guest'', mc_client_id = [], mc_default_topic = ''/industrial/data'',
     mc_keepalive = 30, mc_qos = 1, mc_enable_ssl = False, mc_reconnect_interval = 5,
     mc_max_reconnect_attempts = - 1\<rparr>"

text \<open>
  Where the work thread is: not existing (or joined), at the loop head, before the calls of
  \<open>mqtt_client_connect\<close> and \<open>mqtt_client_run\<close> (which read the member \<open>mqtt_cli_\<close>), inside
  \<open>mqtt_client_run\<close> with a handle, after it, finished but not joined.
\<close>

datatype work_pc = W_none | W_top | W_connect | W_call_run | W_in_run nat | W_after | W_done

datatype mqtt_fault =
    Null_client     \<comment> \<open>a null handle passed to libhv\<close>
  | Freed_client    \<comment> \<open>libhv works on a handle that has been freed\<close>

text \<open>\<open>mt_joining\<close>: a \<open>start\<close> holds \<open>mqtt_mutex_\<close> and waits for the old thread.\<close>

record mqtt =
  mt_config :: mqtt_config
  mt_cli :: "nat option"
  mt_connected :: bool
  mt_running :: bool
  mt_thread_exit :: bool
  mt_attempts :: int
  mt_worker :: work_pc
  mt_joining :: bool
  mt_next :: nat
  mt_freed :: "nat list"
  mt_conn_callback :: bool   \<comment> \<open>\<open>conn_callback_\<close> is set\<close>
  mt_callbacks :: "bool list"
  mt_fault :: "mqtt_fault option"

definition mqtt_new :: mqtt where
  "mqtt_new = \<lparr>mt_config = mqtt_config_default, mt_cli = None, mt_connected = False, mt_running = False,
     mt_thread_exit = False, mt_attempts = 0, mt_worker = W_none, mt_joining = False, mt_next = 0,
     mt_freed = [], mt_conn_callback = False, mt_callbacks = [], mt_fault = None\<rparr>"

section \<open>Operations\<close>

text \<open>\<open>generated\<close> is the result of \<open>generateClientId\<close> (process id and a random number).\<close>

definition mqtt_init :: "string \<Rightarrow> mqtt_config \<Rightarrow> mqtt \<Rightarrow> bool \<times> mqtt" where
  "mqtt_init generated config m =
     (if mt_running m then (False, m)
      else (True, m\<lparr>mt_config := (if mc_client_id config = [] then config\<lparr>mc_client_id := generated\<rparr> else config)\<rparr>))"

definition generateClientId :: "string \<Rightarrow> string \<Rightarrow> string" where
  "generateClientId pid rnd = ''mqtt_rabbit_'' @ pid @ ''_'' @ rnd"

definition free_cli :: "mqtt \<Rightarrow> mqtt" where
  "free_cli m = (case mt_cli m of None \<Rightarrow> m | Some h \<Rightarrow> m\<lparr>mt_freed := mt_freed m @ [h], mt_cli := None\<rparr>)"

definition conn_callback :: "bool \<Rightarrow> mqtt \<Rightarrow> mqtt" where
  "conn_callback b m = (if mt_conn_callback m then m\<lparr>mt_callbacks := mt_callbacks m @ [b]\<rparr> else m)"

definition setConnectionStatusCallback :: "bool \<Rightarrow> mqtt \<Rightarrow> mqtt" where
  "setConnectionStatusCallback callback m = m\<lparr>mt_conn_callback := callback\<rparr>"

definition mqtt_start :: "mqtt \<Rightarrow> mqtt" where
  "mqtt_start m =
     (if mt_running m then m
      else let m1 = m\<lparr>mt_thread_exit := False, mt_running := True, mt_attempts := 0\<rparr>
           in if mt_worker m1 = W_none \<or> mt_worker m1 = W_done then m1\<lparr>mt_worker := W_top\<rparr>
              else m1\<lparr>mt_joining := True\<rparr>)"

definition mqtt_stop :: "mqtt \<Rightarrow> mqtt" where
  "mqtt_stop m =
     (if \<not> mt_running m then m
      else let m1 = m\<lparr>mt_thread_exit := True, mt_running := False\<rparr>;
               m2 = free_cli m1
           in conn_callback False (m2\<lparr>mt_connected := False\<rparr>))"

text \<open>The destructor: \<open>None\<close> while its \<open>join\<close> still waits for the work thread.\<close>

definition mqtt_delete :: "mqtt \<Rightarrow> mqtt option" where
  "mqtt_delete m =
     (let m1 = mqtt_stop m
      in if mt_worker m1 = W_none \<or> mt_worker m1 = W_done then Some (m1\<lparr>mt_worker := W_none\<rparr>) else None)"

definition mqtt_reconnect :: "mqtt \<Rightarrow> mqtt" where
  "mqtt_reconnect m =
     (if 0 < mc_max_reconnect_attempts (mt_config m) \<and> mc_max_reconnect_attempts (mt_config m) \<le> mt_attempts m
      then mqtt_stop m
      else m\<lparr>mt_attempts := mt_attempts m + 1\<rparr>)"

datatype mqtt_event = MQTT_TYPE_CONNACK | MQTT_TYPE_DISCONNECT | MQTT_TYPE_PUBACK | MQTT_TYPE_OTHER

definition onMqttEvent :: "mqtt_event \<Rightarrow> mqtt \<Rightarrow> mqtt" where
  "onMqttEvent type m =
     (case type of
        MQTT_TYPE_CONNACK \<Rightarrow> conn_callback True (m\<lparr>mt_connected := True, mt_attempts := 0\<rparr>)
      | MQTT_TYPE_DISCONNECT \<Rightarrow> conn_callback False (m\<lparr>mt_connected := False\<rparr>)
      | MQTT_TYPE_PUBACK \<Rightarrow> m
      | MQTT_TYPE_OTHER \<Rightarrow> m)"

text \<open>The result of libhv's \<open>mqtt_client_publish\<close> is the argument \<open>lib\<close>; a message is topic, payload, qos.\<close>

type_synonym mqtt_message = "string \<times> string \<times> int"

definition publishInternal :: "(mqtt_message \<Rightarrow> int) \<Rightarrow> string \<Rightarrow> string \<Rightarrow> mqtt \<Rightarrow> int \<times> mqtt_message option" where
  "publishInternal lib payload topic m =
     (case mt_cli m of
        None \<Rightarrow> (- 2, None)
      | Some h \<Rightarrow>
          let msg = (topic, payload, mc_qos (mt_config m));
              mid = lib msg
          in if mid \<le> 0 then (mid, Some msg) else (0, Some msg))"

definition publish :: "(mqtt_message \<Rightarrow> int) \<Rightarrow> string \<Rightarrow> string \<Rightarrow> mqtt \<Rightarrow> int \<times> mqtt_message option" where
  "publish lib payload topic m =
     (if \<not> mt_connected m then (- 1, None)
      else publishInternal lib payload (if topic = [] then mc_default_topic (mt_config m) else topic) m)"

definition isConnected :: "mqtt \<Rightarrow> bool" where
  "isConnected m = mt_connected m"

section \<open>Steps\<close>

text \<open>Inside \<open>mqtt_client_run\<close> every event and the return work on the handle.\<close>

definition use_handle :: "nat \<Rightarrow> mqtt \<Rightarrow> mqtt" where
  "use_handle h m = (if h \<in> set (mt_freed m) then m\<lparr>mt_fault := Some Freed_client\<rparr> else m)"

datatype mqtt_action =
    A_init string mqtt_config
  | A_start | A_joined | A_stop
  | A_new bool                \<comment> \<open>\<open>mqtt_client_new\<close> gives a handle?\<close>
  | A_connect bool            \<comment> \<open>\<open>mqtt_client_connect\<close> succeeds?\<close>
  | A_call_run
  | A_event mqtt_event
  | A_run_returns
  | A_after

text \<open>\<open>None\<close>: the action is not enabled (it waits for the mutex, or its thread is elsewhere).\<close>

fun mqtt_step :: "mqtt \<Rightarrow> mqtt_action \<Rightarrow> mqtt option" where
  "mqtt_step m (A_init g cfg) = Some (snd (mqtt_init g cfg m))"
| "mqtt_step m A_start = (if mt_joining m then None else Some (mqtt_start m))"
| "mqtt_step m A_joined =
     (if mt_joining m \<and> mt_worker m = W_done then Some (m\<lparr>mt_joining := False, mt_worker := W_top\<rparr>) else None)"
| "mqtt_step m A_stop = (if mt_joining m then None else Some (mqtt_stop m))"
| "mqtt_step m (A_new ok) =
     (if mt_worker m \<noteq> W_top then None
      else if mt_thread_exit m then Some (m\<lparr>mt_worker := W_done\<rparr>)
      else if mt_joining m then None
      else if ok then Some (m\<lparr>mt_cli := Some (mt_next m), mt_next := mt_next m + 1, mt_worker := W_connect\<rparr>)
      else Some (m\<lparr>mt_cli := None\<rparr>))"
| "mqtt_step m (A_connect ok) =
     (if mt_worker m \<noteq> W_connect then None
      else if mt_cli m = None then Some (m\<lparr>mt_fault := Some Null_client, mt_worker := W_done\<rparr>)
      else if ok then Some (m\<lparr>mt_worker := W_call_run\<rparr>)
      else if mt_joining m then None
      else Some ((free_cli m)\<lparr>mt_worker := W_top\<rparr>))"
| "mqtt_step m A_call_run =
     (if mt_worker m \<noteq> W_call_run then None
      else case mt_cli m of
          None \<Rightarrow> Some (m\<lparr>mt_fault := Some Null_client, mt_worker := W_done\<rparr>)
        | Some h \<Rightarrow> Some (m\<lparr>mt_worker := W_in_run h\<rparr>))"
| "mqtt_step m (A_event ev) =
     (case mt_worker m of W_in_run h \<Rightarrow> Some (onMqttEvent ev (use_handle h m)) | _ \<Rightarrow> None)"
| "mqtt_step m A_run_returns =
     (case mt_worker m of W_in_run h \<Rightarrow> Some ((use_handle h m)\<lparr>mt_worker := W_after\<rparr>) | _ \<Rightarrow> None)"
| "mqtt_step m A_after =
     (if mt_worker m \<noteq> W_after \<or> mt_joining m then None
      else let m1 = (free_cli m)\<lparr>mt_connected := False\<rparr>
           in if mt_thread_exit m1 then Some (m1\<lparr>mt_worker := W_done\<rparr>)
              else Some ((mqtt_reconnect m1)\<lparr>mt_worker := W_top\<rparr>))"

fun mqtt_run :: "mqtt \<Rightarrow> mqtt_action list \<Rightarrow> mqtt option" where
  "mqtt_run m [] = Some m"
| "mqtt_run m (a # as) = (case mqtt_step m a of None \<Rightarrow> None | Some m' \<Rightarrow> mqtt_run m' as)"

inductive mqtt_reachable :: "mqtt \<Rightarrow> bool" where
  reach_new: "mqtt_reachable mqtt_new"
| reach_step: "mqtt_reachable m \<Longrightarrow> mqtt_step m a = Some m' \<Longrightarrow> mqtt_reachable m'"

section \<open>Messages\<close>

text \<open>\<open>std::round\<close>: to the nearest integer, halves away from zero.\<close>

definition round_away :: "real \<Rightarrow> int" where
  "round_away r = (if 0 \<le> r then \<lfloor>r + 1 / 2\<rfloor> else \<lceil>r - 1 / 2\<rceil>)"

definition keep2 :: "real \<Rightarrow> real" where
  "keep2 val = of_int (round_away (val * 100)) / 100"

datatype json = JStr string | JInt int | JArr "json list" | JObj "(string \<times> json) list"

text \<open>
  \<open>TwoDecimalWriter::Double\<close> writes a JSON string with the number in fixed notation; \<open>fixed2\<close> is
  the stream's \<open>std::fixed << std::setprecision(2)\<close>.
\<close>

definition write_double :: "(real \<Rightarrow> string) \<Rightarrow> real \<Rightarrow> json" where
  "write_double fixed2 d = JStr (fixed2 d)"

definition buildJson :: "(real \<Rightarrow> string) \<Rightarrow> string \<Rightarrow> string \<Rightarrow> string \<Rightarrow> real \<times> real \<times> real \<Rightarrow> real \<times> real \<times> real
    \<Rightarrow> real \<times> real \<times> real \<Rightarrow> real \<times> real \<times> real \<Rightarrow> json" where
  "buildJson fixed2 berthId deviceIp timestamp shipPos shipRot bow stern =
     (let num = (\<lambda>v. write_double fixed2 (keep2 v));
          (shipSway, shipSurge, shipHeave) = shipPos;
          (shipRoll, shipPitch, shipYaw) = shipRot;
          arr = (\<lambda>(x, y, z). JArr [num x, num y, num z])
      in JObj [(''berthId'', JStr berthId), (''deviceIp'', JStr deviceIp), (''timestamp'', JStr timestamp),
               (''shipSway'', num shipSway), (''shipSurge'', num shipSurge), (''shipHeave'', num shipHeave),
               (''shipRoll'', num shipRoll), (''shipPitch'', num shipPitch), (''shipYaw'', num shipYaw),
               (''bowAcceleration'', arr bow), (''sternAcceleration'', arr stern)])"

definition buildDeviceStatusJson :: "string \<Rightarrow> string \<Rightarrow> int \<Rightarrow> json" where
  "buildDeviceStatusJson deviceIp timestamp deviceStatus =
     JObj [(''deviceIp'', JStr deviceIp), (''deviceStatus'', JInt deviceStatus), (''timestamp'', JStr timestamp)]"

section \<open>Handles\<close>

text \<open>
  The invariant: the handles created so far are the freed ones and the current one, none of them
  freed twice; and there is no current handle at the loop head or without a thread.
\<close>

definition handles_inv :: "mqtt \<Rightarrow> bool" where
  "handles_inv m \<longleftrightarrow> distinct (mt_freed m)
     \<and> {0..<mt_next m} = set (mt_freed m) \<union> set_option (mt_cli m)
     \<and> set (mt_freed m) \<inter> set_option (mt_cli m) = {}
     \<and> (mt_worker m \<in> {W_none, W_top, W_done} \<longrightarrow> mt_cli m = None)"

lemma handles_free: "handles_inv m \<Longrightarrow> handles_inv (free_cli m) \<and> mt_cli (free_cli m) = None"
  by (cases "mt_cli m") (auto simp: handles_inv_def free_cli_def)

lemma free_cli_fields [simp]:
  "mt_worker (free_cli m) = mt_worker m" "mt_config (free_cli m) = mt_config m"
  "mt_running (free_cli m) = mt_running m" "mt_thread_exit (free_cli m) = mt_thread_exit m"
  "mt_attempts (free_cli m) = mt_attempts m" "mt_joining (free_cli m) = mt_joining m"
  "mt_next (free_cli m) = mt_next m"
  by (simp_all add: free_cli_def split: option.splits)

lemma handles_irrelevant [simp]:
  "handles_inv (m\<lparr>mt_connected := b\<rparr>) = handles_inv m" "handles_inv (m\<lparr>mt_running := b\<rparr>) = handles_inv m"
  "handles_inv (m\<lparr>mt_thread_exit := b\<rparr>) = handles_inv m" "handles_inv (m\<lparr>mt_attempts := i\<rparr>) = handles_inv m"
  "handles_inv (m\<lparr>mt_joining := b\<rparr>) = handles_inv m" "handles_inv (m\<lparr>mt_fault := f\<rparr>) = handles_inv m"
  "handles_inv (m\<lparr>mt_config := c\<rparr>) = handles_inv m" "handles_inv (conn_callback b m) = handles_inv m"
  by (simp_all add: handles_inv_def conn_callback_def)

lemma conn_callback_fields [simp]: "mt_cli (conn_callback b m) = mt_cli m"
  "mt_worker (conn_callback b m) = mt_worker m" "mt_attempts (conn_callback b m) = mt_attempts m"
  by (simp_all add: conn_callback_def)

lemma handles_worker:
  "handles_inv m \<Longrightarrow> mt_cli m = None \<or> w \<notin> {W_none, W_top, W_done} \<Longrightarrow> handles_inv (m\<lparr>mt_worker := w\<rparr>)"
  by (auto simp: handles_inv_def)

lemma handles_stop: "handles_inv m \<Longrightarrow> handles_inv (mqtt_stop m) \<and> (mt_cli m = None \<longrightarrow> mt_cli (mqtt_stop m) = None)"
  using handles_free [of "m\<lparr>mt_thread_exit := True, mt_running := False\<rparr>"]
  by (auto simp: mqtt_stop_def Let_def)

lemma handles_reconnect: "handles_inv m \<Longrightarrow> mt_cli m = None \<Longrightarrow> handles_inv (mqtt_reconnect m) \<and> mt_cli (mqtt_reconnect m) = None"
  using handles_stop [of m] by (simp add: mqtt_reconnect_def)

lemma handles_event: "handles_inv m \<Longrightarrow> handles_inv (onMqttEvent ev m)" "mt_worker (onMqttEvent ev m) = mt_worker m"
  by (cases ev; simp add: onMqttEvent_def)+

lemma handles_use: "handles_inv (use_handle h m) = handles_inv m" "mt_worker (use_handle h m) = mt_worker m"
  by (simp_all add: use_handle_def)

lemma handles_new:
  "handles_inv m \<Longrightarrow> mt_worker m = W_top \<Longrightarrow>
     handles_inv (m\<lparr>mt_cli := Some (mt_next m), mt_next := mt_next m + 1, mt_worker := W_connect\<rparr>)"
  by (auto simp: handles_inv_def atLeast0_lessThan_Suc)

lemma handles_start: "handles_inv m \<Longrightarrow> handles_inv (mqtt_start m)"
  by (auto simp: mqtt_start_def Let_def intro!: handles_worker) (auto simp: handles_inv_def)

lemma handles_step:
  assumes "handles_inv m" "mqtt_step m a = Some m'"
  shows "handles_inv m'"
proof (cases a)
  case (A_new ok)
  have "mt_worker m = W_top" using assms(2) A_new by (auto split: if_splits)
  moreover from this have c: "mt_cli m = None" using assms(1) by (simp add: handles_inv_def)
  moreover from c have "handles_inv (m\<lparr>mt_cli := None\<rparr>)" using assms(1) by (simp add: handles_inv_def)
  ultimately show ?thesis
    using assms A_new handles_new [of m] handles_worker [of m W_done] by (auto split: if_splits)
next
  case (A_connect ok)
  then show ?thesis
    using assms handles_free [of m] handles_worker [of "free_cli m" W_top] handles_worker [of m W_call_run]
      handles_worker [of "m\<lparr>mt_fault := Some Null_client\<rparr>" W_done]
    by (auto split: if_splits)
next
  case A_call_run
  then show ?thesis
    using assms handles_worker [of "m\<lparr>mt_fault := Some Null_client\<rparr>" W_done] handles_worker [of m "W_in_run h" for h]
    by (auto split: if_splits option.splits)
next
  case A_run_returns
  then show ?thesis
    using assms by (auto split: work_pc.splits intro!: handles_worker simp: handles_use)
next
  case A_after
  have "handles_inv ((free_cli m)\<lparr>mt_connected := False\<rparr>)" "mt_cli ((free_cli m)\<lparr>mt_connected := False\<rparr>) = None"
    using handles_free [OF assms(1)] by simp_all
  then show ?thesis
    using assms(2) A_after handles_reconnect [of "(free_cli m)\<lparr>mt_connected := False\<rparr>"]
    by (auto simp: Let_def split: if_splits intro!: handles_worker)
next
  case A_joined
  then show ?thesis
    using assms handles_worker [of "m\<lparr>mt_joining := False\<rparr>" W_top] by (auto simp: handles_inv_def split: if_splits)
next
  case (A_event ev)
  then show ?thesis
    using assms by (auto split: work_pc.splits simp: handles_use intro!: handles_event)
qed (use assms handles_start [of m] handles_stop [of m] in
    \<open>auto simp: mqtt_init_def split: if_splits\<close>)

lemma reachable_handles: "mqtt_reachable m \<Longrightarrow> handles_inv m"
proof (induction rule: mqtt_reachable.induct)
  case reach_new
  then show ?case by (simp add: handles_inv_def mqtt_new_def)
qed (rule handles_step)

text \<open>
  C21: handles are neither leaked nor freed twice. In every reachable state of the client,
  whatever the interleaving of \<open>start\<close>, \<open>stop\<close>, the work thread and the library, the handles
  created so far are exactly the freed ones and the current one, no handle has been freed twice,
  and the current one has not been freed.
\<close>

theorem mqtt_handles:
  assumes "mqtt_reachable m"
  shows "distinct (mt_freed m) \<and> {0..<mt_next m} = set (mt_freed m) \<union> set_option (mt_cli m)
     \<and> set (mt_freed m) \<inter> set_option (mt_cli m) = {}"
  using reachable_handles [OF assms] by (simp add: handles_inv_def)

lemma mqtt_run_reachable: "mqtt_reachable m \<Longrightarrow> mqtt_run m as = Some m' \<Longrightarrow> mqtt_reachable m'"
  by (induction as arbitrary: m) (auto split: option.splits intro: reach_step)

theorem mqtt_handles_witness:
  "\<exists>m. mqtt_run mqtt_new [A_start, A_new True, A_connect False, A_new True, A_connect True, A_call_run] = Some m
     \<and> mt_freed m = [0] \<and> mt_cli m = Some 1 \<and> distinct (mt_freed m)"
proof -
  let ?as = "[A_start, A_new True, A_connect False, A_new True, A_connect True, A_call_run]"
  obtain m where m: "mqtt_run mqtt_new ?as = Some m" "mt_freed m = [0] \<and> mt_cli m = Some 1"
    by (simp add: mqtt_new_def mqtt_start_def Let_def free_cli_def)
  have "mqtt_reachable m" by (rule mqtt_run_reachable [OF reach_new m(1)])
  from mqtt_handles [OF this] m show ?thesis by blast
qed


text \<open>
  A restart can deadlock. If \<open>start\<close> is called again after \<open>stop\<close> while the old thread is
  still inside the library, \<open>start\<close> waits for that thread with the mutex held, and the thread
  waits for the mutex: a reachable state in which nothing but \<open>init\<close> can ever happen again.
\<close>

theorem mqtt_restart_deadlock:
  "\<exists>m. mqtt_run mqtt_new [A_start, A_new True, A_connect True, A_call_run, A_stop, A_start, A_run_returns] = Some m
     \<and> mqtt_reachable m \<and> {a. mqtt_step m a \<noteq> None} \<subseteq> range (\<lambda>(g, cfg). A_init g cfg)"
proof -
  let ?as = "[A_start, A_new True, A_connect True, A_call_run, A_stop, A_start, A_run_returns]"
  obtain m where m: "mqtt_run mqtt_new ?as = Some m" "mt_worker m = W_after" "mt_joining m"
    by (simp add: mqtt_new_def mqtt_start_def mqtt_stop_def Let_def free_cli_def conn_callback_def use_handle_def)
  have "a \<in> range (\<lambda>(g, cfg). A_init g cfg)" if "mqtt_step m a \<noteq> None" for a
    using that m(2,3) by (cases a) auto
  moreover have "mqtt_reachable m" by (rule mqtt_run_reachable [OF reach_new m(1)])
  ultimately show ?thesis using m(1) by blast
qed

text \<open>What stays of the client while connects fail.\<close>

definition at_top :: "mqtt \<Rightarrow> bool" where
  "at_top m \<longleftrightarrow> mt_worker m = W_top \<and> \<not> mt_thread_exit m \<and> \<not> mt_joining m"

lemma refused_connects:
  assumes "at_top m"
  shows "\<exists>m'. mqtt_run m (concat (replicate n [A_new True, A_connect False])) = Some m' \<and> at_top m'
     \<and> mt_fault m' = mt_fault m \<and> mt_running m' = mt_running m
     \<and> mt_attempts m' = mt_attempts m \<and> mt_config m' = mt_config m"
  using assms
proof (induction n arbitrary: m)
  case (Suc n)
  let ?m = "m\<lparr>mt_next := mt_next m + 1, mt_freed := mt_freed m @ [mt_next m], mt_cli := None, mt_worker := W_top\<rparr>"
  have "at_top ?m" using Suc.prems by (simp add: at_top_def)
  moreover have "mqtt_run m (concat (replicate (Suc n) [A_new True, A_connect False]))
      = mqtt_run ?m (concat (replicate n [A_new True, A_connect False]))"
    using Suc.prems by (simp add: at_top_def free_cli_def)
  ultimately show ?case using Suc.IH [of ?m] by simp
qed simp

text \<open>
  Failed connects never count. However often the broker refuses the connection, the number
  of attempts stays where it was and the thread is back at the loop head, so
  \<open>max_reconnect_attempts\<close> never ends the attempts; only lost connections are counted.
\<close>

theorem mqtt_connect_retries:
  assumes "mt_worker m = W_top" "\<not> mt_thread_exit m" "\<not> mt_joining m"
  shows "\<exists>m'. mqtt_run m (concat (replicate n [A_new True, A_connect False])) = Some m'
     \<and> mt_worker m' = W_top \<and> mt_attempts m' = mt_attempts m \<and> mt_running m' = mt_running m
     \<and> mt_config m' = mt_config m"
  using refused_connects [of m n] assms by (auto simp: at_top_def)

theorem mqtt_connect_retries_witness:
  "\<exists>m'. mqtt_run (mqtt_start (mqtt_new\<lparr>mt_config := mqtt_config_default\<lparr>mc_max_reconnect_attempts := 1\<rparr>\<rparr>))
     (concat (replicate 1000 [A_new True, A_connect False])) = Some m' \<and> mt_worker m' = W_top \<and> mt_attempts m' = 0"
proof -
  let ?m = "mqtt_start (mqtt_new\<lparr>mt_config := mqtt_config_default\<lparr>mc_max_reconnect_attempts := 1\<rparr>\<rparr>)"
  have h: "mt_worker ?m = W_top" "\<not> mt_thread_exit ?m" "\<not> mt_joining ?m" "mt_attempts ?m = 0"
    by (simp_all add: mqtt_start_def mqtt_new_def Let_def)
  from mqtt_connect_retries [OF h(1-3), of 1000] h(4) show ?thesis by auto
qed

lemma mqtt_run_append:
  "mqtt_run m (as @ bs) = (case mqtt_run m as of None \<Rightarrow> None | Some m' \<Rightarrow> mqtt_run m' bs)"
  by (induction as arbitrary: m) (simp_all split: option.split)

lemma accepted_connect:
  assumes "at_top m" "mt_next m \<notin> set (mt_freed m)"
  shows "\<exists>m'. mqtt_run m [A_new True, A_connect True, A_call_run, A_event MQTT_TYPE_CONNACK] = Some m'
     \<and> isConnected m' \<and> mt_cli m' = Some (mt_next m) \<and> mt_worker m' = W_in_run (mt_next m) \<and> mt_attempts m' = 0
     \<and> mt_fault m' = mt_fault m \<and> mt_running m' = mt_running m"
  using assms by (simp add: at_top_def use_handle_def onMqttEvent_def conn_callback_def isConnected_def)

text \<open>
  C39: a lost connection is set up again. When \<open>mqtt_client_run\<close> has returned in a running client
  whose limit of reconnections is not reached (the configuration of the program sets none), the work thread
  gets a new handle as often as the broker refuses the connection, and the first accepted connection makes the client connected again on a live handle,
  with the count of attempts back at zero and without a further misuse of the library: \<open>publish\<close> reaches the broker. When the
  limit is reached, the client stops itself instead: the next step ends the thread.
\<close>

theorem mqtt_reconnects:
  assumes "mqtt_reachable m" "mt_worker m = W_after" "\<not> mt_thread_exit m" "\<not> mt_joining m" "mt_running m"
    "limit = mc_max_reconnect_attempts (mt_config m)"
  shows "(limit \<le> 0 \<or> mt_attempts m < limit \<longrightarrow>
      (\<exists>m' h. mqtt_run m (A_after # concat (replicate n [A_new True, A_connect False])
            @ [A_new True, A_connect True, A_call_run, A_event MQTT_TYPE_CONNACK]) = Some m'
         \<and> isConnected m' \<and> mt_cli m' = Some h \<and> h \<notin> set (mt_freed m') \<and> mt_worker m' = W_in_run h
         \<and> mt_attempts m' = 0 \<and> mt_fault m' = mt_fault m \<and> mt_running m'
         \<and> (\<forall>lib payload topic. topic \<noteq> [] \<longrightarrow>
              snd (publish lib payload topic m') = Some (topic, payload, mc_qos (mt_config m')))))
   \<and> (0 < limit \<and> limit \<le> mt_attempts m \<longrightarrow>
      (\<exists>m'. mqtt_run m [A_after, A_new b] = Some m' \<and> mt_worker m' = W_done \<and> \<not> mt_running m' \<and> \<not> isConnected m'))"
proof (intro conjI impI)
  assume lim: "limit \<le> 0 \<or> mt_attempts m < limit"
  define m1 where "m1 = ((free_cli m)\<lparr>mt_connected := False, mt_attempts := mt_attempts m + 1, mt_worker := W_top\<rparr>)"
  have step: "mqtt_step m A_after = Some m1"
    using assms(2-4) lim assms(6) by (auto simp: m1_def Let_def mqtt_reconnect_def)
  have top: "at_top m1" using assms(3,4) by (simp add: at_top_def m1_def)
  obtain m2 where m2: "mqtt_run m1 (concat (replicate n [A_new True, A_connect False])) = Some m2" "at_top m2"
    "mt_fault m2 = mt_fault m1" "mt_running m2 = mt_running m1" using refused_connects [OF top] by blast
  have reach: "mqtt_reachable m2"
    using mqtt_run_reachable [OF reach_step [OF assms(1) step] m2(1)] .
  then have "mt_next m2 \<notin> set (mt_freed m2)" using reachable_handles [OF reach] by (auto simp: handles_inv_def)
  from accepted_connect [OF m2(2) this] obtain m3 where m3:
    "mqtt_run m2 [A_new True, A_connect True, A_call_run, A_event MQTT_TYPE_CONNACK] = Some m3" "isConnected m3"
    "mt_cli m3 = Some (mt_next m2)" "mt_worker m3 = W_in_run (mt_next m2)" "mt_attempts m3 = 0"
    "mt_fault m3 = mt_fault m2" "mt_running m3 = mt_running m2" by blast
  have "handles_inv m3" using reachable_handles [OF mqtt_run_reachable [OF reach m3(1)]] .
  then have "mt_next m2 \<notin> set (mt_freed m3)" using m3(3) by (simp add: handles_inv_def)
  moreover have "mqtt_run m (A_after # concat (replicate n [A_new True, A_connect False])
      @ [A_new True, A_connect True, A_call_run, A_event MQTT_TYPE_CONNACK]) = Some m3"
    using m3(1) by (simp add: step mqtt_run_append m2(1) del: mqtt_step.simps)
  moreover have "mt_fault m1 = mt_fault m" "mt_running m1" using assms(5) by (simp_all add: m1_def free_cli_def split: option.split)
  moreover have "topic \<noteq> [] \<Longrightarrow> snd (publish lib payload topic m3) = Some (topic, payload, mc_qos (mt_config m3))" for lib payload topic
    using m3(2,3) by (simp add: publish_def publishInternal_def isConnected_def Let_def)
  ultimately show "\<exists>m' h. mqtt_run m (A_after # concat (replicate n [A_new True, A_connect False])
            @ [A_new True, A_connect True, A_call_run, A_event MQTT_TYPE_CONNACK]) = Some m'
         \<and> isConnected m' \<and> mt_cli m' = Some h \<and> h \<notin> set (mt_freed m') \<and> mt_worker m' = W_in_run h
         \<and> mt_attempts m' = 0 \<and> mt_fault m' = mt_fault m \<and> mt_running m'
         \<and> (\<forall>lib payload topic. topic \<noteq> [] \<longrightarrow>
              snd (publish lib payload topic m') = Some (topic, payload, mc_qos (mt_config m')))"
    using m2(3,4) m3(2-7) by metis
next
  assume "0 < limit \<and> limit \<le> mt_attempts m"
  then show "\<exists>m'. mqtt_run m [A_after, A_new b] = Some m' \<and> mt_worker m' = W_done \<and> \<not> mt_running m' \<and> \<not> isConnected m'"
    using assms(2-6) by (simp add: mqtt_reconnect_def mqtt_stop_def Let_def conn_callback_def isConnected_def free_cli_def split: option.split)
qed

theorem mqtt_reconnects_witness:
  "\<exists>m m'. mqtt_run mqtt_new [A_start, A_new True, A_connect True, A_call_run, A_event MQTT_TYPE_CONNACK, A_run_returns] = Some m
     \<and> mqtt_run m (A_after # concat (replicate 1000 [A_new True, A_connect False])
            @ [A_new True, A_connect True, A_call_run, A_event MQTT_TYPE_CONNACK]) = Some m' \<and> isConnected m' \<and> mt_fault m' = None"
proof -
  let ?as = "[A_start, A_new True, A_connect True, A_call_run, A_event MQTT_TYPE_CONNACK, A_run_returns]"
  obtain m where m: "mqtt_run mqtt_new ?as = Some m" "mt_worker m = W_after" "\<not> mt_thread_exit m" "\<not> mt_joining m" "mt_running m"
    "mc_max_reconnect_attempts (mt_config m) = - 1" "mt_fault m = None"
    by (simp add: mqtt_new_def mqtt_start_def Let_def use_handle_def onMqttEvent_def conn_callback_def mqtt_config_default_def)
  have "mqtt_reachable m" by (rule mqtt_run_reachable [OF reach_new m(1)])
  from mqtt_reconnects [OF this m(2-5) refl, of 1000] m(1,6,7) show ?thesis by (simp del: mqtt_run.simps replicate_numeral) metis
qed

text \<open>
  \<open>publish\<close>. It reaches the library exactly when the client is connected and has a handle,
  with the given topic, or the default one when that is empty, and the configured quality of
  service; the result is 0 for a positive message id, the library's code otherwise, -1 when not
  connected, -2 without a handle.
\<close>

theorem publish_spec:
  "publish lib payload topic m =
     (if \<not> isConnected m then (- 1, None)
      else if mt_cli m = None then (- 2, None)
      else let msg = (if topic = [] then mc_default_topic (mt_config m) else topic, payload, mc_qos (mt_config m))
           in (min 0 (lib msg), Some msg))"
  by (auto simp: publish_def publishInternal_def isConnected_def Let_def)

text \<open>
  Rounding of published values: \<open>keep2\<close> gives a whole number of hundredths, at most half a
  hundredth from the value.
\<close>

theorem keep2_bounds: "\<bar>keep2 v - v\<bar> \<le> 1 / 200 \<and> (\<exists>k::int. keep2 v * 100 = of_int k)"
proof
  have "\<bar>of_int (round_away r) - r\<bar> \<le> 1 / 2" for r :: real
  proof (cases "0 \<le> r")
    case True
    then have "round_away r = \<lfloor>r + 1 / 2\<rfloor>" by (simp add: round_away_def)
    moreover have "of_int \<lfloor>r + 1 / 2\<rfloor> \<le> r + 1 / 2" "r + 1 / 2 < of_int \<lfloor>r + 1 / 2\<rfloor> + 1" by linarith+
    ultimately show ?thesis by linarith
  next
    case False
    then have "round_away r = \<lceil>r - 1 / 2\<rceil>" by (simp add: round_away_def)
    moreover have "r - 1 / 2 \<le> of_int \<lceil>r - 1 / 2\<rceil>" "of_int \<lceil>r - 1 / 2\<rceil> - 1 < r - 1 / 2" by linarith+
    ultimately show ?thesis by linarith
  qed
  from this [of "v * 100"] show "\<bar>keep2 v - v\<bar> \<le> 1 / 200"
    by (simp add: keep2_def abs_le_iff field_simps)
  show "\<exists>k::int. keep2 v * 100 = of_int k" by (simp add: keep2_def)
qed

end
