(* ===== verification/Data_Output.thy ===== *)
theory Data_Output
  imports Six_Dof Mqtt_Client
begin

text \<open>
  \<open>include/data_outputter.h\<close> and \<open>src/data_outputter.cpp\<close>: the last stage of the pipeline. The
  output thread takes pose results from its input queue and hands them to a solve thread, which
  computes bow and stern positions and accelerations and hands a packet to an MQTT thread; system
  errors arrive through the callbacks registered with the state manager. Each loop is modelled by
  one pass over the state; the clock, the calendar text of a time and the MQTT library's answers
  are arguments.
\<close>

section \<open>Data\<close>

record ship_pos_record =
  sp_ts :: u64
  sp_bow :: pointT
  sp_stern :: pointT

record mqtt_ship_data =
  md_berth_id :: string
  md_lidar_ip :: string
  md_time_str :: string
  md_surge :: real
  md_sway :: real
  md_heave :: real
  md_roll :: real
  md_pitch :: real
  md_yaw :: real
  md_bow_acc :: "real \<times> real \<times> real"
  md_stern_acc :: "real \<times> real \<times> real"

record db_ship_data =
  db_res :: six_dof_result

record device_err_msg =
  de_ip :: string
  de_time_str :: string
  de_err_code :: int

definition DB_MAX_QUEUE :: size_t where "DB_MAX_QUEUE = 200"
definition SOLVE_MAX_QUEUE :: size_t where "SOLVE_MAX_QUEUE = 300"
definition MQTT_DATA_MAX_QUEUE :: size_t where "MQTT_DATA_MAX_QUEUE = 500"
definition MQTT_ERR_MAX_QUEUE :: size_t where "MQTT_ERR_MAX_QUEUE = 100"
definition MAX_HIST :: nat where "MAX_HIST = 10"

text \<open>
  The members of \<open>DataOutputter\<close> and \<open>ConcreteDataOutputter\<close>. \<open>od_overflows\<close> collects the overflow
  reports of \<open>enqueueWithDropOld\<close> (queue name, items dropped, low priority), \<open>od_sent\<close> the
  messages given to the MQTT library.
\<close>

record outputter =
  od_is_running :: bool
  od_worker_running :: bool
  od_mqtt_cfg :: mqtt_config_param
  od_mqtt :: mqtt
  od_db_queue :: "db_ship_data ring_queue"
  od_solve_queue :: "six_dof_result ring_queue"
  od_mqtt_queue :: "mqtt_ship_data ring_queue"
  od_err_queue :: "device_err_msg ring_queue"
  od_history :: "ship_pos_record list"
  od_overflows :: "(string \<times> nat \<times> bool) list"
  od_sent :: "(string \<times> json) list"

section \<open>Queues that should drop their oldest items\<close>

text \<open>\<open>while (queue.size() >= max_size) { dequeue; drop_cnt++; }\<close>; \<open>None\<close> is a loop without end.\<close>

partial_function (option) drop_loop :: "size_t \<Rightarrow> nat \<Rightarrow> 'a ring_queue \<Rightarrow> (nat \<times> 'a ring_queue) option" where
  "drop_loop max_size n q =
     (if max_size \<le> rq_size q then drop_loop max_size (n + 1) (snd (dequeue q)) else Some (n, q))"

text \<open>Result: accepted, number of items dropped, the queue.\<close>

definition enqueueWithDropOld :: "size_t \<Rightarrow> 'a ring_queue \<Rightarrow> 'a \<Rightarrow> (bool \<times> nat \<times> 'a ring_queue) option" where
  "enqueueWithDropOld max_size q item =
     (case drop_loop max_size 0 q of
        None \<Rightarrow> None
      | Some (n, q1) \<Rightarrow> (case enqueue q1 item of (ok, q2) \<Rightarrow> Some (ok, n, q2)))"

definition note_overflow :: "string \<Rightarrow> nat \<Rightarrow> bool \<Rightarrow> outputter \<Rightarrow> outputter" where
  "note_overflow name n low s = (if 0 < n then s\<lparr>od_overflows := od_overflows s @ [(name, n, low)]\<rparr> else s)"

section \<open>Positions and accelerations\<close>

definition eulerXYZToRot :: "'m eigen \<Rightarrow> real \<Rightarrow> real \<Rightarrow> real \<Rightarrow> 'm" where
  "eulerXYZToRot E rx ry rz = eg_rotate E rx UnitX (eg_rotate E ry UnitY (eg_rotate E rz UnitZ (eg_identity E)))"

text \<open>\<open>push_back\<close>, then \<open>while (size > MAX_HIST) pop_front\<close>.\<close>

fun trim_hist :: "ship_pos_record list \<Rightarrow> ship_pos_record list" where
  "trim_hist [] = []"
| "trim_hist (x # xs) = (if MAX_HIST < length (x # xs) then trim_hist xs else x # xs)"

definition pushHistory :: "u64 \<Rightarrow> pointT \<Rightarrow> pointT \<Rightarrow> ship_pos_record list \<Rightarrow> ship_pos_record list" where
  "pushHistory ts bow stern h = trim_hist (h @ [\<lparr>sp_ts = ts, sp_bow = bow, sp_stern = stern\<rparr>])"

text \<open>\<open>None\<close>: the result's \<open>ship_length\<close> is indeterminate.\<close>

definition calcShipBowSternPos :: "'m eigen \<Rightarrow> six_dof_result \<Rightarrow> ship_pos_record list \<Rightarrow> ship_pos_record list option" where
  "calcShipBowSternPos E r h =
     (case sd_ship_length r of
        None \<Rightarrow> None
      | Some L \<Rightarrow>
          let t_center = \<lparr>px = sd_tx r / 100, py = sd_ty r / 100, pz = sd_tz r / 100\<rparr>;
              R = eulerXYZToRot E (sd_rx r) (sd_ry r) (sd_rz r);
              bow_global = pt_add (eg_apply E R \<lparr>px = L / 2, py = 0, pz = 0\<rparr>) t_center;
              stern_global = pt_add (eg_apply E R \<lparr>px = - L / 2, py = 0, pz = 0\<rparr>) t_center
          in Some (pushHistory (sd_timestamp r) bow_global stern_global h))"

definition second_diff :: "real \<Rightarrow> pointT \<Rightarrow> pointT \<Rightarrow> pointT \<Rightarrow> real \<times> real \<times> real" where
  "second_diff dt_sq p0 p1 p2 =
     ((px p2 - 2 * px p1 + px p0) / dt_sq * 100, (py p2 - 2 * py p1 + py p0) / dt_sq * 100,
      (pz p2 - 2 * pz p1 + pz p0) / dt_sq * 100)"

definition getBowSternAcc :: "ship_pos_record list \<Rightarrow> (real \<times> real \<times> real) \<times> (real \<times> real \<times> real)" where
  "getBowSternAcc h =
     (if length h < 3 then ((0, 0, 0), (0, 0, 0))
      else let h0 = h ! 0; h1 = h ! 1; h2 = h ! 2;
               dt = real (unat (sp_ts h2 - sp_ts h1)) / 1000;
               dt_sq = dt * dt
           in if dt_sq < 1 / 10 ^ 6 then ((0, 0, 0), (0, 0, 0))
              else (second_diff dt_sq (sp_bow h0) (sp_bow h1) (sp_bow h2),
                    second_diff dt_sq (sp_stern h0) (sp_stern h1) (sp_stern h2)))"

section \<open>Addresses in error texts\<close>

text \<open>
  \<open>std::regex_search\<close> for \<open>(\d{1,3}\.){3}\d{1,3}\<close>. A group \<open>\d{1,3}\.\<close> matches exactly when the run
  of digits has one to three of them and a dot follows; the last part takes up to three digits.
\<close>

definition digits_dot :: "string \<Rightarrow> (string \<times> string) option" where
  "digits_dot s =
     (let ds = takeWhile is_digit s; rest = dropWhile is_digit s
      in case rest of
           [] \<Rightarrow> None
         | c # rest' \<Rightarrow> if 1 \<le> length ds \<and> length ds \<le> 3 \<and> c = CHR ''.'' then Some (ds @ ''.'', rest') else None)"

definition ip_at :: "string \<Rightarrow> string option" where
  "ip_at s =
     (case digits_dot s of None \<Rightarrow> None | Some (a, s1) \<Rightarrow>
      case digits_dot s1 of None \<Rightarrow> None | Some (b, s2) \<Rightarrow>
      case digits_dot s2 of None \<Rightarrow> None | Some (c, s3) \<Rightarrow>
        let d = take 3 (takeWhile is_digit s3)
        in if d = [] then None else Some (a @ b @ c @ d))"

fun ExtractIpByRegex :: "string \<Rightarrow> string" where
  "ExtractIpByRegex [] = []"
| "ExtractIpByRegex (c # s) = (case ip_at (c # s) of Some ip \<Rightarrow> ip | None \<Rightarrow> ExtractIpByRegex s)"

section \<open>Entry points\<close>

definition writeToDatabase :: "six_dof_result \<Rightarrow> outputter \<Rightarrow> bool \<times> outputter" where
  "writeToDatabase r s = (True, s)"

definition writeErrorToDatabase :: "system_error \<Rightarrow> outputter \<Rightarrow> bool \<times> outputter" where
  "writeErrorToDatabase err s = (True, s)"

definition pushRealTimeData :: "six_dof_result \<Rightarrow> outputter \<Rightarrow> (bool \<times> outputter) option" where
  "pushRealTimeData r s =
     (case enqueueWithDropOld SOLVE_MAX_QUEUE (od_solve_queue s) r of
        None \<Rightarrow> None
      | Some (ok, n, q) \<Rightarrow> Some (ok, note_overflow ''solve'' n False (s\<lparr>od_solve_queue := q\<rparr>)))"

definition pushRealTimeError :: "string \<Rightarrow> system_error \<Rightarrow> outputter \<Rightarrow> (bool \<times> outputter) option" where
  "pushRealTimeError now_str err s =
     (let msg = \<lparr>de_ip = ExtractIpByRegex (err_message err), de_time_str = now_str,
                 de_err_code = error_code (err_level err)\<rparr>
      in case enqueueWithDropOld MQTT_ERR_MAX_QUEUE (od_err_queue s) msg of
           None \<Rightarrow> None
         | Some (ok, n, q) \<Rightarrow> Some (ok, note_overflow ''mqtt_err'' n True (s\<lparr>od_err_queue := q\<rparr>)))"

text \<open>\<open>connCallback\<close>: a warning for the state manager when the connection is lost (its text is rendered
  in English here).\<close>

definition connCallback :: "bool \<Rightarrow> u64 \<Rightarrow> sm_call list" where
  "connCallback up now =
     (if up then [] else [Report now OUTPUTTER STATUS_WARNING ''MQTT disconnected, reconnecting''])"

definition output_start :: "outputter \<Rightarrow> sm_call list \<times> outputter" where
  "output_start s = (if od_is_running s then ([], s) else ([Set_state RUNNING], s\<lparr>od_is_running := True\<rparr>))"

definition output_stop :: "outputter \<Rightarrow> sm_call list \<times> outputter" where
  "output_stop s = ([Set_state IDLE], s\<lparr>od_is_running := False\<rparr>)"

text \<open>
  The constructor. It registers the two callbacks, loads the configuration and gives up without
  starting any thread if that fails; otherwise it starts the MQTT client and the workers. The
  queues are already built with the limits as capacities. \<open>None\<close>: undefined behaviour while
  loading.
\<close>

definition push_callback :: "string \<Rightarrow> outputter \<Rightarrow> system_error \<Rightarrow> bool option \<times> outputter" where
  "push_callback now_str s err =
     (case pushRealTimeError now_str err s of None \<Rightarrow> (None, s) | Some (ok, s') \<Rightarrow> (Some ok, s'))"

definition db_callback :: "outputter \<Rightarrow> system_error \<Rightarrow> bool option \<times> outputter" where
  "db_callback s err = (case writeErrorToDatabase err s of (ok, s') \<Rightarrow> (Some ok, s'))"

definition register_callbacks :: "string \<Rightarrow> outputter state_manager \<Rightarrow> outputter state_manager" where
  "register_callbacks now_str m =
     setDatabaseWriteCallback db_callback (setErrorPushCallback (push_callback now_str) m)"

definition mqtt_config_of :: "mqtt_config_param \<Rightarrow> mqtt_config" where
  "mqtt_config_of c = mqtt_config_default\<lparr>mc_host := mq_host c, mc_port := mq_port c, mc_username := mq_username c,
     mc_password := mq_password c, mc_default_topic := mq_default_topic c, mc_qos := mq_qos c,
     mc_reconnect_interval := mq_reconnect_interval c\<rparr>"

definition output_new :: "'n yaml \<Rightarrow> string \<Rightarrow> string \<Rightarrow> u64 \<Rightarrow> radar_global_config
    \<Rightarrow> outputter state_manager \<times> outputter \<Rightarrow> (sm_call list \<times> outputter state_manager \<times> outputter) option" where
  "output_new Y generated now_str now cfg0 ms =
     (let m = register_callbacks now_str (fst ms); s = snd ms
      in case loadMonitorConfig Y ''../monitor_config.yaml'' cfg0 of
           None \<Rightarrow> None
         | Some (ok, mc) \<Rightarrow>
             (let s1 = s\<lparr>od_mqtt_cfg := rg_mqtt_cfg mc\<rparr>
              in if \<not> ok then Some ([], m, s1)
                 else let (started, c) = mqtt_init generated (mqtt_config_of (rg_mqtt_cfg mc))
                                            (setConnectionStatusCallback True (od_mqtt s1))
                      in if started
                         then Some ([], m, s1\<lparr>od_mqtt := mqtt_start c, od_worker_running := True\<rparr>)
                         else Some ([Report now OUTPUTTER STATUS_ERROR ''MQTT client init failed''],
                                    m, s1\<lparr>od_mqtt := c, od_worker_running := True\<rparr>)))"

text \<open>The destructor.\<close>

definition output_delete :: "outputter \<Rightarrow> outputter" where
  "output_delete s = s\<lparr>od_worker_running := False, od_mqtt := mqtt_stop (od_mqtt s)\<rparr>"

section \<open>The loops\<close>

datatype loop_result = Continue | Break

definition output_pass :: "system_state \<Rightarrow> six_dof_result ring_queue \<times> outputter
    \<Rightarrow> (loop_result \<times> six_dof_result ring_queue \<times> outputter) option" where
  "output_pass st qs =
     (if st = FATAL_ERROR then Some (Break, qs)
      else case dequeue (fst qs) of
          (None, q) \<Rightarrow> Some (Continue, q, snd qs)
        | (Some r, q) \<Rightarrow>
            (let s1 = snd (writeToDatabase r (snd qs))
             in case pushRealTimeData r s1 of None \<Rightarrow> None | Some (ok, s2) \<Rightarrow> Some (Continue, q, s2)))"

definition db_pass :: "outputter \<Rightarrow> outputter" where
  "db_pass s = s\<lparr>od_db_queue := snd (dequeue (od_db_queue s))\<rparr>"

text \<open>
  \<open>cal\<close> turns a \<open>time_t\<close> into text. \<open>None\<close>: undefined behaviour or an endless loop.
\<close>

definition solve_pass :: "'m eigen \<Rightarrow> (nat \<Rightarrow> string) \<Rightarrow> outputter \<Rightarrow> outputter option" where
  "solve_pass E cal s =
     (case dequeue (od_solve_queue s) of
        (None, q) \<Rightarrow> Some (s\<lparr>od_solve_queue := q\<rparr>)
      | (Some r, q) \<Rightarrow>
          (case calcShipBowSternPos E r (od_history s) of
             None \<Rightarrow> None
           | Some h \<Rightarrow>
               (let (b, st) = getBowSternAcc h;
                    pkg = \<lparr>md_berth_id = mq_berth_id (od_mqtt_cfg s), md_lidar_ip = sd_lidar_ip r,
                           md_time_str = cal (unat (sd_timestamp r) div 1000), md_surge = sd_tx r, md_sway = sd_ty r,
                           md_heave = sd_tz r, md_roll = sd_rx r, md_pitch = sd_ry r, md_yaw = sd_rz r,
                           md_bow_acc = b, md_stern_acc = st\<rparr>
                in case enqueueWithDropOld MQTT_DATA_MAX_QUEUE (od_mqtt_queue s) pkg of
                     None \<Rightarrow> None
                   | Some (ok, n, mq) \<Rightarrow>
                       Some (note_overflow ''mqtt_data'' n False
                         (s\<lparr>od_solve_queue := q, od_history := h, od_mqtt_queue := mq\<rparr>)))))"

definition send :: "(mqtt_message \<Rightarrow> int) \<Rightarrow> (json \<Rightarrow> string) \<Rightarrow> json \<Rightarrow> string \<Rightarrow> outputter \<Rightarrow> outputter" where
  "send lib dump j topic s =
     (case publish lib (dump j) topic (od_mqtt s) of
        (code, None) \<Rightarrow> s
      | (code, Some (t, payload, qos)) \<Rightarrow> s\<lparr>od_sent := od_sent s @ [(t, j)]\<rparr>)"

definition mqtt_pass :: "(mqtt_message \<Rightarrow> int) \<Rightarrow> (json \<Rightarrow> string) \<Rightarrow> (real \<Rightarrow> string) \<Rightarrow> outputter \<Rightarrow> outputter" where
  "mqtt_pass lib dump fixed2 s =
     (let s1 = (case dequeue (od_mqtt_queue s) of
                  (None, q) \<Rightarrow> s\<lparr>od_mqtt_queue := q\<rparr>
                | (Some p, q) \<Rightarrow>
                    (let s' = s\<lparr>od_mqtt_queue := q\<rparr>
                     in if isConnected (od_mqtt s')
                        then send lib dump (buildJson fixed2 (md_berth_id p) (md_lidar_ip p) (md_time_str p)
                               (md_sway p, md_surge p, md_heave p) (md_roll p, md_pitch p, md_yaw p)
                               (md_bow_acc p) (md_stern_acc p)) (mq_dev_status_topic (od_mqtt_cfg s')) s'
                        else s'))
      in case dequeue (od_err_queue s1) of
           (None, q) \<Rightarrow> s1\<lparr>od_err_queue := q\<rparr>
         | (Some e, q) \<Rightarrow>
             (let s2 = s1\<lparr>od_err_queue := q\<rparr>
              in if isConnected (od_mqtt s2)
                 then send lib dump (buildDeviceStatusJson (de_ip e) (de_time_str e) (de_err_code e))
                        (mq_dev_status_topic (od_mqtt_cfg s2)) s2
                 else s2))"

section \<open>The drop loop\<close>

lemma drop_loop_stop: "\<not> max_size \<le> rq_size q \<Longrightarrow> drop_loop max_size n q = Some (n, q)"
  by (simp add: drop_loop.simps)

lemma rq_size_less:
  assumes "rq_wf q"
  shows "(max_size \<le> rq_size q) \<longleftrightarrow> unat max_size \<le> length (rq_list q)"
  using unat_rq_size [OF assms] by (simp add: word_le_nat_alt)

lemma drop_loop_spec:
  assumes "rq_wf q" "0 < unat max_size"
  shows "\<exists>q'. drop_loop max_size n q = Some (n + (length (rq_list q) - (unat max_size - 1)), q')
     \<and> rq_wf q' \<and> rq_cap q' = rq_cap q \<and> rq_list q' = last_n (unat max_size - 1) (rq_list q)"
  using assms(1)
proof (induction "length (rq_list q)" arbitrary: q n rule: less_induct)
  case less
  show ?case
  proof (cases "unat max_size \<le> length (rq_list q)")
    case False
    then have "drop_loop max_size n q = Some (n, q)" using less.prems by (simp add: drop_loop_stop rq_size_less)
    then show ?thesis using False less.prems by auto
  next
    case True
    let ?q1 = "snd (dequeue q)"
    have step: "drop_loop max_size n q = drop_loop max_size (n + 1) ?q1"
      using True less.prems by (subst drop_loop.simps) (simp add: rq_size_less)
    have q1: "rq_wf ?q1" "rq_list ?q1 = tl (rq_list q)" "rq_cap ?q1 = rq_cap q"
      using rq.deq_invar [OF less.prems] rq.deq_contents [OF less.prems]
      by (auto simp: dequeue_def rq_cap_def Let_def)
    have len: "length (rq_list ?q1) < length (rq_list q)" using q1(2) True assms(2) by (cases "rq_list q") auto
    obtain q' where q': "drop_loop max_size (n + 1) ?q1
        = Some (n + 1 + (length (rq_list ?q1) - (unat max_size - 1)), q')" "rq_wf q'" "rq_cap q' = rq_cap q"
        "rq_list q' = last_n (unat max_size - 1) (rq_list ?q1)"
      using less.hyps [OF len q1(1), of "n + 1"] q1(3) by auto
    have "last_n k (tl xs) = last_n k xs" if "k < length xs" for k and xs :: "'a list"
      using that by (cases xs) (auto simp: last_n_def Suc_diff_le)
    then have "last_n (unat max_size - 1) (rq_list ?q1) = last_n (unat max_size - 1) (rq_list q)"
      using q1(2) True assms(2) by simp
    moreover have "1 + (length (rq_list ?q1) - (unat max_size - 1)) = length (rq_list q) - (unat max_size - 1)"
      using q1(2) True assms(2) by simp
    ultimately show ?thesis using q' step by auto
  qed
qed

lemma enqueueWithDropOld_run:
  assumes "rq_wf q" "0 < unat max_size"
  obtains q1 where "rq_wf q1" "rq_cap q1 = rq_cap q" "rq_list q1 = last_n (unat max_size - 1) (rq_list q)"
    "enqueueWithDropOld max_size q x
      = Some (length (rq_list q1) < rq_cap q - 1, length (rq_list q) - (unat max_size - 1), snd (enqueue q1 x))"
    "rq_list (snd (enqueue q1 x)) = (if length (rq_list q1) < rq_cap q - 1 then rq_list q1 @ [x] else rq_list q1)"
proof -
  obtain q1 where q1: "drop_loop max_size 0 q = Some (length (rq_list q) - (unat max_size - 1), q1)" "rq_wf q1"
      "rq_cap q1 = rq_cap q" "rq_list q1 = last_n (unat max_size - 1) (rq_list q)"
    using drop_loop_spec [OF assms, of 0] by auto
  have "enqueueWithDropOld max_size q x
      = Some (fst (enqueue q1 x), length (rq_list q) - (unat max_size - 1), snd (enqueue q1 x))"
    by (simp add: enqueueWithDropOld_def q1(1) split_beta)
  then show ?thesis
    using that [OF q1(2-4)] enqueue_ok [OF q1(2), of x] enqueue_list [OF q1(2), of x] q1(3) by simp
qed

lemma rq_full_length:
  assumes "rq_wf q"
  shows "rq_full q \<longleftrightarrow> \<not> length (rq_list q) < rq_cap q - 1"
  using enqueue_ok [OF assms, of undefined]
  by (cases "next_index q (rq_tail q) = rq_head q") (simp_all add: rq_full_def enqueue_def Let_def)

lemma drop_old_equal:
  assumes "rq_wf q" "0 < unat max_size" "unat max_size = rq_cap q"
  shows "\<exists>q'. enqueueWithDropOld max_size q x = Some (\<not> rq_full q, 0, q')
     \<and> rq_list q' = (if rq_full q then rq_list q else rq_list q @ [x])"
proof (rule enqueueWithDropOld_run [OF assms(1,2), of x])
  fix q1 assume q1: "rq_list q1 = last_n (unat max_size - 1) (rq_list q)"
    "enqueueWithDropOld max_size q x
      = Some (length (rq_list q1) < rq_cap q - 1, length (rq_list q) - (unat max_size - 1), snd (enqueue q1 x))"
    "rq_list (snd (enqueue q1 x)) = (if length (rq_list q1) < rq_cap q - 1 then rq_list q1 @ [x] else rq_list q1)"
  have b: "length (rq_list q) \<le> rq_cap q - 1" using rq.contents_bound [OF assms(1)] .
  then have "rq_list q1 = rq_list q" using q1(1) assms(3) by simp
  then show ?thesis using q1(2,3) rq_full_length [OF assms(1)] b assms(3) by auto
qed

lemma drop_old_below:
  assumes "rq_wf q" "0 < unat max_size" "unat max_size < rq_cap q"
  shows "\<exists>q'. enqueueWithDropOld max_size q x = Some (True, length (rq_list q) - (unat max_size - 1), q')
     \<and> rq_list q' = last_n (unat max_size - 1) (rq_list q) @ [x]"
proof (rule enqueueWithDropOld_run [OF assms(1,2), of x])
  fix q1 assume q1: "rq_list q1 = last_n (unat max_size - 1) (rq_list q)"
    "enqueueWithDropOld max_size q x
      = Some (length (rq_list q1) < rq_cap q - 1, length (rq_list q) - (unat max_size - 1), snd (enqueue q1 x))"
    "rq_list (snd (enqueue q1 x)) = (if length (rq_list q1) < rq_cap q - 1 then rq_list q1 @ [x] else rq_list q1)"
  have "length (last_n (unat max_size - 1) (rq_list q)) < rq_cap q - 1" using assms(2,3) by simp
  then show ?thesis using q1 by auto
qed

text \<open>
  C32: \<open>enqueueWithDropOld\<close> never drops anything. Every queue of the outputter is built with the
  capacity that is also passed as \<open>max_size\<close>, but the ring holds one item less than its
  capacity. So the loop that should discard old items never runs, no overflow is ever reported,
  and when the queue is full it is the new item that is lost. With a threshold below the
  capacity, the routine does what it is meant to do: it keeps the newest items.
\<close>

theorem enqueueWithDropOld_spec:
  assumes "rq_wf q" "0 < unat max_size"
  shows "(unat max_size = rq_cap q \<longrightarrow> (\<exists>q'. enqueueWithDropOld max_size q x = Some (\<not> rq_full q, 0, q')
            \<and> rq_list q' = (if rq_full q then rq_list q else rq_list q @ [x])))
    \<and> (unat max_size < rq_cap q \<longrightarrow> (\<exists>q'. enqueueWithDropOld max_size q x
            = Some (True, length (rq_list q) - (unat max_size - 1), q')
            \<and> rq_list q' = last_n (unat max_size - 1) (rq_list q) @ [x]))"
  using drop_old_equal [OF assms] drop_old_below [OF assms] by blast

theorem enqueueWithDropOld_spec_witness:
  "let q = \<lparr>rq_capacity = 4, rq_buffer = [5, 6, 7, 0::nat], rq_head = 0, rq_tail = 3\<rparr>
   in (\<exists>q'. enqueueWithDropOld 4 q 9 = Some (False, 0, q') \<and> rq_list q' = [5, 6, 7])
    \<and> (\<exists>q'. enqueueWithDropOld 3 q 9 = Some (True, 1, q') \<and> rq_list q' = [6, 7, 9])"
proof -
  let ?q = "\<lparr>rq_capacity = 4, rq_buffer = [5, 6, 7, 0::nat], rq_head = 0, rq_tail = 3\<rparr>"
  have l: "rq_len ?q = 3" "rq_cap ?q = 4" by (simp_all add: rq_len_def rq_cap_def ring_dist_def)
  have q: "rq_wf ?q" "rq_full ?q" "rq_list ?q = [5, 6, 7]"
    by (simp_all add: rq_wf_def rq_full_def next_index_def rq_list_def l upt_rec)
  have n: "last_n 2 [5, 6, 7::nat] = [6, 7]" by (simp add: last_n_def)
  have "\<exists>q'. enqueueWithDropOld 4 ?q 9 = Some (False, 0, q') \<and> rq_list q' = [5, 6, 7]"
    using enqueueWithDropOld_spec [OF q(1), of 4 9] l q(2,3) by simp
  moreover have "\<exists>q'. enqueueWithDropOld 3 ?q 9 = Some (True, 1, q') \<and> rq_list q' = [6, 7, 9]"
    using enqueueWithDropOld_spec [OF q(1), of 3 9] l q(2,3) n by simp
  ultimately show ?thesis unfolding Let_def by blast
qed

section \<open>Bow, stern and their accelerations\<close>

lemma trim_hist_last_n: "trim_hist xs = last_n 10 xs"
proof (induction xs)
  case (Cons x xs)
  show ?case
  proof (cases "10 < length (x # xs)")
    case True
    then have "length (x # xs) - 10 = Suc (length xs - 10)" by simp
    then show ?thesis using True Cons by (simp add: MAX_HIST_def last_n_def)
  qed (simp add: MAX_HIST_def)
qed (simp add: last_n_def)

text \<open>The history after a sequence of results, as a fold of \<open>pushHistory\<close>.\<close>

definition history_of :: "ship_pos_record list \<Rightarrow> ship_pos_record list" where
  "history_of rs = foldl (\<lambda>h r. pushHistory (sp_ts r) (sp_bow r) (sp_stern r) h) [] rs"

lemma history_of_last_n: "history_of rs = last_n 10 rs"
proof (induction rs rule: rev_induct)
  case (snoc r rs)
  have eta: "\<lparr>sp_ts = sp_ts r, sp_bow = sp_bow r, sp_stern = sp_stern r\<rparr> = r" by (cases r) simp
  show ?case
    using snoc last_n_snoc_last_n [of 10 rs r] by (simp add: eta history_of_def pushHistory_def trim_hist_last_n)
qed (simp add: history_of_def last_n_def)

text \<open>A record of a body that moves with constant acceleration, sampled every \<open>d\<close> milliseconds.\<close>

definition uniform :: "pointT \<Rightarrow> pointT \<Rightarrow> pointT \<Rightarrow> real \<Rightarrow> pointT" where
  "uniform p0 v a t = pt_add p0 (pt_add (pt_scale t v) (pt_scale (t * t / 2) a))"

definition sample :: "pointT \<Rightarrow> pointT \<Rightarrow> pointT \<Rightarrow> pointT \<Rightarrow> pointT \<Rightarrow> pointT \<Rightarrow> nat \<Rightarrow> nat \<Rightarrow> ship_pos_record" where
  "sample bp bv ba sp sv sa d i = \<lparr>sp_ts = of_nat (d * i),
     sp_bow = uniform bp bv ba (real (d * i) / 1000), sp_stern = uniform sp sv sa (real (d * i) / 1000)\<rparr>"

lemma second_difference:
  assumes "dt \<noteq> 0"
  shows "((p + v * (t + 2 * dt) + a * ((t + 2 * dt) * (t + 2 * dt) / 2))
      - 2 * (p + v * (t + dt) + a * ((t + dt) * (t + dt) / 2)) + (p + v * t + a * (t * t / 2))) / (dt * dt) = (a::real)"
proof -
  have "((p + v * (t + 2 * dt) + a * ((t + 2 * dt) * (t + 2 * dt) / 2))
      - 2 * (p + v * (t + dt) + a * ((t + dt) * (t + dt) / 2)) + (p + v * t + a * (t * t / 2))) = a * (dt * dt)"
    by (simp add: algebra_simps add_divide_distrib)
  then show ?thesis using assms by simp
qed

lemma second_diff_uniform:
  assumes "dt \<noteq> 0"
  shows "second_diff (dt * dt) (uniform p v a t) (uniform p v a (t + dt)) (uniform p v a (t + 2 * dt))
     = (px a * 100, py a * 100, pz a * 100)"
  using second_difference [OF assms, of "px p" "px v" t "px a"] second_difference [OF assms, of "py p" "py v" t "py a"]
    second_difference [OF assms, of "pz p" "pz v" t "pz a"]
  by (simp add: second_diff_def uniform_def algebra_simps)

lemma getBowSternAcc_three:
  assumes "3 \<le> length h" "h ! 0 = r0" "h ! 1 = r1" "h ! 2 = r2"
    "unat (sp_ts r2 - sp_ts r1) = d" "\<not> real d / 1000 * (real d / 1000) < 1 / 10 ^ 6"
  shows "getBowSternAcc h = (second_diff (real d / 1000 * (real d / 1000)) (sp_bow r0) (sp_bow r1) (sp_bow r2),
     second_diff (real d / 1000 * (real d / 1000)) (sp_stern r0) (sp_stern r1) (sp_stern r2))"
  unfolding getBowSternAcc_def Let_def assms(2-5) using assms(1,6) by simp

text \<open>
  C29: the accelerations. For a body sampled every \<open>d\<close> milliseconds (\<open>d\<close> positive) that moves with
  constant acceleration, the values are that acceleration in centimetres per second squared,
  exactly, for bow and stern. They are computed from the three oldest records of the window of
  ten, though: after ten or more results the published acceleration is the one of eight to ten
  samples ago.
\<close>

theorem getBowSternAcc_exact:
  assumes "0 < d" "d * n < 2 ^ 64" "3 \<le> n"
  shows "getBowSternAcc (history_of (map (sample bp bv ba sp sv sa d) [0..<n]))
      = ((px ba * 100, py ba * 100, pz ba * 100), (px sa * 100, py sa * 100, pz sa * 100))
    \<and> getBowSternAcc (history_of rs) = getBowSternAcc (take 3 (drop (length rs - 10) rs))"
proof
  have "take 3 (last_n 10 rs) = take 3 (drop (length rs - 10) rs)" by (simp add: last_n_def)
  moreover have "getBowSternAcc h = getBowSternAcc (take 3 h)" for h
    by (simp add: getBowSternAcc_def min_def)
  ultimately show "getBowSternAcc (history_of rs) = getBowSternAcc (take 3 (drop (length rs - 10) rs))"
    by (metis history_of_last_n)
  let ?s = "sample bp bv ba sp sv sa d" and ?k = "n - 10"
  have "last_n 10 (map ?s [0..<n]) = map ?s [?k..<n]" by (simp add: last_n_def drop_map drop_upt)
  then have h: "history_of (map ?s [0..<n]) = map ?s [?k..<n]" by (simp add: history_of_last_n)
  have len: "3 \<le> n - ?k" using assms(3) by simp
  then have nth: "map ?s [?k..<n] ! i = ?s (?k + i)" if "i < 3" for i using that by simp
  have "?k + 2 \<le> n" using assms(3) by linarith
  then have bnd: "d * (?k + 2) < 2 ^ 64"
    using assms(2) le_less_trans [OF mult_le_mono2] by blast
  have u: "unat (of_nat (d * (?k + 2)) - of_nat (d * (?k + 1)) :: u64) = d"
  proof -
    have "(of_nat (d * (?k + 2)) :: u64) - of_nat (d * (?k + 1)) = of_nat (d * (?k + 2) - d * (?k + 1))"
      by (intro of_nat_diff [symmetric]) simp
    also have "d * (?k + 2) - d * (?k + 1) = d" by (simp add: algebra_simps)
    finally have e: "(of_nat (d * (?k + 2)) :: u64) - of_nat (d * (?k + 1)) = of_nat d" .
    have "d * 1 \<le> d * (?k + 2)" by (intro mult_le_mono2) simp
    then have "d < 2 ^ 64" using bnd by linarith
    then show ?thesis unfolding e by (simp add: unat_of_nat)
  qed
  let ?dt = "real d / 1000" and ?t = "real (d * ?k) / 1000"
  have "1 / 1000 \<le> ?dt" using assms(1) by simp
  then have "1 / 1000 * (1 / 1000) \<le> ?dt * ?dt" by (intro mult_mono) simp_all
  then have dt: "?dt \<noteq> 0" "\<not> ?dt * ?dt < 1 / 10 ^ 6" using assms(1) by simp_all
  have t: "real (d * (?k + 1)) / 1000 = ?t + ?dt" "real (d * (?k + 2)) / 1000 = ?t + 2 * ?dt"
    by (simp_all add: algebra_simps add_divide_distrib)
  have pos: "sp_bow (?s ?k) = uniform bp bv ba ?t" "sp_bow (?s (?k + 1)) = uniform bp bv ba (?t + ?dt)"
    "sp_bow (?s (?k + 2)) = uniform bp bv ba (?t + 2 * ?dt)" "sp_stern (?s ?k) = uniform sp sv sa ?t"
    "sp_stern (?s (?k + 1)) = uniform sp sv sa (?t + ?dt)" "sp_stern (?s (?k + 2)) = uniform sp sv sa (?t + 2 * ?dt)"
    unfolding sample_def t [symmetric] by simp_all
  have ts: "unat (sp_ts (?s (?k + 2)) - sp_ts (?s (?k + 1))) = d" using u by (simp add: sample_def)
  have "getBowSternAcc (map ?s [?k..<n])
      = (second_diff (?dt * ?dt) (sp_bow (?s ?k)) (sp_bow (?s (?k + 1))) (sp_bow (?s (?k + 2))),
         second_diff (?dt * ?dt) (sp_stern (?s ?k)) (sp_stern (?s (?k + 1))) (sp_stern (?s (?k + 2))))"
    using len nth [of 0] nth [of 1] nth [of 2] ts dt(2) by (intro getBowSternAcc_three) simp_all
  then show "getBowSternAcc (history_of (map ?s [0..<n]))
      = ((px ba * 100, py ba * 100, pz ba * 100), (px sa * 100, py sa * 100, pz sa * 100))"
    unfolding h pos by (simp only: second_diff_uniform [OF dt(1)])
qed

theorem getBowSternAcc_exact_witness:
  "getBowSternAcc (history_of (map (sample origin origin \<lparr>px = 2, py = 0, pz = 0\<rparr> origin origin origin 100) [0..<12]))
     = ((200, 0, 0), (0, 0, 0))"
  using getBowSternAcc_exact [of 100 12 origin origin "\<lparr>px = 2, py = 0, pz = 0\<rparr>" origin origin origin "[]"]
  by (simp add: origin_def)

lemma euler_action:
  assumes "eigen_law E"
  shows "eg_apply E (eulerXYZToRot E rx ry rz) p = rot_axis rz UnitZ (rot_axis ry UnitY (rot_axis rx UnitX p))"
  by (simp only: eulerXYZToRot_def eigen_lawD(1,3) [OF assms])

lemma rot_axis_scale: "rot_axis t ax (pt_scale k p) = pt_scale k (rot_axis t ax p)"
  by (cases ax) (simp_all add: pt_scale_def algebra_simps)

text \<open>
  C28: bow and stern. The two points stored for a result lie at the reported ship length from each
  other, and the reported position is their midpoint, whatever the angles.
\<close>

theorem bow_stern_geometry:
  assumes "eigen_law E" "sd_ship_length r = Some L" "calcShipBowSternPos E r h = Some h'"
  shows "\<exists>rec. last h' = rec \<and> sp_ts rec = sd_timestamp r
     \<and> dist_sq (sp_bow rec) (sp_stern rec) = L * L
     \<and> pt_scale (1 / 2) (pt_add (sp_bow rec) (sp_stern rec)) = pt_scale (1 / 100) \<lparr>px = sd_tx r, py = sd_ty r, pz = sd_tz r\<rparr>"
proof -
  let ?t = "\<lparr>px = sd_tx r / 100, py = sd_ty r / 100, pz = sd_tz r / 100\<rparr>"
  let ?rot = "\<lambda>p. rot_axis (sd_rz r) UnitZ (rot_axis (sd_ry r) UnitY (rot_axis (sd_rx r) UnitX p))"
  let ?b = "\<lparr>px = L / 2, py = 0, pz = 0\<rparr>" and ?s = "\<lparr>px = - L / 2, py = 0, pz = 0\<rparr>"
  let ?rec = "\<lparr>sp_ts = sd_timestamp r, sp_bow = pt_add (?rot ?b) ?t, sp_stern = pt_add (?rot ?s) ?t\<rparr>"
  have h': "h' = last_n 10 (h @ [?rec])"
    using assms(2,3) by (simp add: calcShipBowSternPos_def Let_def pushHistory_def trim_hist_last_n
        euler_action [OF assms(1)])
  have "last h' = ?rec" unfolding h' by (simp add: last_n_def last_drop)
  moreover have "dist_sq (pt_add p c) (pt_add q c) = dist_sq p q" for p q c by (simp add: dist_sq_def)
  then have "dist_sq (sp_bow ?rec) (sp_stern ?rec) = dist_sq ?b ?s"
    by (simp only: ship_pos_record.select_convs rot_axis_dist_sq)
  then have "dist_sq (sp_bow ?rec) (sp_stern ?rec) = L * L" by (simp add: dist_sq_def algebra_simps)
  moreover have "?s = pt_scale (- 1) ?b" by (simp add: pt_scale_def)
  then have "?rot ?s = pt_scale (- 1) (?rot ?b)" by (simp only: rot_axis_scale)
  then have "pt_scale (1 / 2) (pt_add (sp_bow ?rec) (sp_stern ?rec)) = pt_scale (1 / 100) \<lparr>px = sd_tx r, py = sd_ty r, pz = sd_tz r\<rparr>"
    by (intro pointT_eqI) (simp_all add: field_simps)
  ultimately show ?thesis by auto
qed

definition sample_result :: "real option \<Rightarrow> six_dof_result" where
  "sample_result len = \<lparr>sd_lidar_ip = ''1'', sd_lidar_id = ''A'', sd_timestamp = 5, sd_tx = 100, sd_ty = 0, sd_tz = 0,
     sd_rx = 0, sd_ry = 0, sd_rz = 0, sd_confidence = 1, sd_ship_length = len\<rparr>"

theorem bow_stern_geometry_witness:
  "\<exists>h'. calcShipBowSternPos motion_eigen (sample_result (Some 10)) [] = Some h'
     \<and> dist_sq (sp_bow (last h')) (sp_stern (last h')) = 100"
proof -
  have l: "sd_ship_length (sample_result (Some 10)) = Some 10" by (simp add: sample_result_def)
  obtain h' where h': "calcShipBowSternPos motion_eigen (sample_result (Some 10)) [] = Some h'"
    by (simp add: calcShipBowSternPos_def l Let_def)
  from bow_stern_geometry [OF motion_eigen_law l h'] h' show ?thesis by auto
qed

section \<open>Addresses\<close>

definition octet :: "string \<Rightarrow> bool" where
  "octet ds \<longleftrightarrow> list_all is_digit ds \<and> 1 \<le> length ds \<and> length ds \<le> 3"

definition dotted :: "string \<Rightarrow> string \<Rightarrow> string \<Rightarrow> string \<Rightarrow> string" where
  "dotted a b c d = a @ ''.'' @ b @ ''.'' @ c @ ''.'' @ d"

lemma dot_no_digit: "\<not> is_digit (CHR ''.'')"
  by (simp add: is_digit_def)

lemma digits_dot_Some:
  assumes "digits_dot s = Some (x, r)"
  shows "s = x @ r \<and> (\<exists>ds. x = ds @ ''.'' \<and> octet ds)"
proof -
  obtain rest where d: "dropWhile is_digit s = CHR ''.'' # rest" "x = takeWhile is_digit s @ ''.''" "r = rest"
      "1 \<le> length (takeWhile is_digit s)" "length (takeWhile is_digit s) \<le> 3"
    using assms by (auto simp: digits_dot_def Let_def split: list.splits if_splits)
  have "s = takeWhile is_digit s @ CHR ''.'' # rest" using d(1) takeWhile_dropWhile_id [of is_digit s] by simp
  moreover have "list_all is_digit (takeWhile is_digit s)" by (auto simp: list_all_iff dest: set_takeWhileD)
  ultimately show ?thesis using d by (auto simp: octet_def)
qed

lemma digits_dot_octet: "octet ds \<Longrightarrow> digits_dot (ds @ ''.'' @ r) = Some (ds @ ''.'', r)"
  by (auto simp: octet_def digits_dot_def Let_def list_all_iff dot_no_digit takeWhile_append dropWhile_append)

lemma ip_at_Some:
  assumes "ip_at s = Some ip"
  shows "\<exists>a b c d post. ip = dotted a b c d \<and> octet a \<and> octet b \<and> octet c \<and> octet d \<and> s = ip @ post"
proof -
  obtain x s1 y s2 z s3 where d: "digits_dot s = Some (x, s1)" "digits_dot s1 = Some (y, s2)"
      "digits_dot s2 = Some (z, s3)" "take 3 (takeWhile is_digit s3) \<noteq> []"
      "ip = x @ y @ z @ take 3 (takeWhile is_digit s3)"
    using assms by (auto simp: ip_at_def Let_def split: option.splits if_splits)
  let ?d = "take 3 (takeWhile is_digit s3)"
  have "octet ?d" using d(4) by (auto simp: octet_def list_all_iff Suc_le_eq dest!: in_set_takeD dest: set_takeWhileD)
  moreover have "s3 = ?d @ (drop 3 (takeWhile is_digit s3) @ dropWhile is_digit s3)"
    by (metis append.assoc append_take_drop_id takeWhile_dropWhile_id)
  ultimately show ?thesis
    using digits_dot_Some [OF d(1)] digits_dot_Some [OF d(2)] digits_dot_Some [OF d(3)] d(5)
    by (fastforce simp: dotted_def)
qed

lemma ip_at_dotted:
  assumes "octet a" "octet b" "octet c" "octet d" "post = [] \<or> \<not> is_digit (hd post)"
  shows "ip_at (dotted a b c d @ post) = Some (dotted a b c d)"
proof -
  have "takeWhile is_digit (d @ post) = d"
    using assms(4,5) by (cases post) (auto simp: octet_def list_all_iff takeWhile_append)
  then have "take 3 (takeWhile is_digit (d @ post)) = d" "takeWhile is_digit (d @ post) \<noteq> []"
    using assms(4) by (auto simp: octet_def)
  then show ?thesis
    using digits_dot_octet [OF assms(1), of "b @ ''.'' @ c @ ''.'' @ d @ post"]
      digits_dot_octet [OF assms(2), of "c @ ''.'' @ d @ post"] digits_dot_octet [OF assms(3), of "d @ post"]
    by (simp add: ip_at_def dotted_def Let_def)
qed

lemma ip_at_no_digit: "s \<noteq> [] \<Longrightarrow> \<not> is_digit (hd s) \<Longrightarrow> ip_at s = None"
  by (cases s) (auto simp: ip_at_def digits_dot_def)

lemma ExtractIp_finds:
  assumes "octet a" "octet b" "octet c" "octet d" "list_all (\<lambda>c. \<not> is_digit c) pre" "post = [] \<or> \<not> is_digit (hd post)"
  shows "ExtractIpByRegex (pre @ dotted a b c d @ post) = dotted a b c d"
  using assms(5)
proof (induction pre)
  case Nil
  obtain x y where "dotted a b c d @ post = x # y" using assms(1) by (cases a) (auto simp: dotted_def octet_def)
  then show ?case using ip_at_dotted [OF assms(1-4,6)] by simp
next
  case (Cons x pre)
  then show ?case by (simp add: ip_at_no_digit)
qed

text \<open>
  \<open>ExtractIpByRegex\<close>. What it returns is empty or four groups of one to three digits separated
  by dots that occur in the message as they are; and an address in a message is found when no
  digit precedes it and none follows it.
\<close>

theorem ExtractIp_spec:
  "(ExtractIpByRegex msg \<noteq> [] \<longrightarrow> (\<exists>pre a b c d post. ExtractIpByRegex msg = dotted a b c d
       \<and> octet a \<and> octet b \<and> octet c \<and> octet d \<and> msg = pre @ dotted a b c d @ post))
   \<and> (octet a \<and> octet b \<and> octet c \<and> octet d \<and> list_all (\<lambda>c. \<not> is_digit c) pre \<and> (post = [] \<or> \<not> is_digit (hd post))
       \<longrightarrow> ExtractIpByRegex (pre @ dotted a b c d @ post) = dotted a b c d)"
proof (intro conjI impI)
  assume "ExtractIpByRegex msg \<noteq> []"
  then show "\<exists>pre a b c d post. ExtractIpByRegex msg = dotted a b c d \<and> octet a \<and> octet b \<and> octet c \<and> octet d
      \<and> msg = pre @ dotted a b c d @ post"
  proof (induction msg)
    case (Cons x msg)
    show ?case
    proof (cases "ip_at (x # msg)")
      case None
      then obtain pre a b c d post where "ExtractIpByRegex msg = dotted a b c d" "octet a" "octet b" "octet c" "octet d"
          "msg = pre @ dotted a b c d @ post"
        using Cons by auto
      then show ?thesis using None by (metis ExtractIpByRegex.simps(2) append_Cons option.simps(4))
    next
      case (Some ip)
      have e: "ExtractIpByRegex (x # msg) = ip" using Some by simp
      obtain a b c d post where "ip = dotted a b c d" "octet a" "octet b" "octet c" "octet d" "x # msg = ip @ post"
        using ip_at_Some [OF Some] by blast
      then have "ExtractIpByRegex (x # msg) = dotted a b c d \<and> octet a \<and> octet b \<and> octet c \<and> octet d
          \<and> x # msg = [] @ dotted a b c d @ post" using e by auto
      then show ?thesis by blast
    qed
  qed simp
next
  assume "octet a \<and> octet b \<and> octet c \<and> octet d \<and> list_all (\<lambda>c. \<not> is_digit c) pre \<and> (post = [] \<or> \<not> is_digit (hd post))"
  then show "ExtractIpByRegex (pre @ dotted a b c d @ post) = dotted a b c d" by (intro ExtractIp_finds) auto
qed

theorem ExtractIp_spec_witness: "ExtractIpByRegex ''lidar 192.168.1.201: timeout'' = ''192.168.1.201''"
proof -
  have "octet ''192'' \<and> octet ''168'' \<and> octet ''1'' \<and> octet ''201'' \<and> list_all (\<lambda>c. \<not> is_digit c) ''lidar ''
      \<and> (('': timeout'' = []) \<or> \<not> is_digit (hd '': timeout''))"
    by (simp add: octet_def is_digit_def)
  from ExtractIp_spec [of "[]" "''192''" "''168''" "''1''" "''201''" "''lidar ''" "'': timeout''"] this
  show ?thesis by (simp add: dotted_def del: ExtractIpByRegex.simps)
qed

section \<open>The passes of the workers\<close>

text \<open>What \<open>publish\<close> hands to the library.\<close>

definition reaches_broker :: "outputter \<Rightarrow> bool" where
  "reaches_broker s \<longleftrightarrow> isConnected (od_mqtt s) \<and> mt_cli (od_mqtt s) \<noteq> None"

definition ship_json :: "(real \<Rightarrow> string) \<Rightarrow> mqtt_ship_data \<Rightarrow> json" where
  "ship_json fixed2 p = buildJson fixed2 (md_berth_id p) (md_lidar_ip p) (md_time_str p)
     (md_sway p, md_surge p, md_heave p) (md_roll p, md_pitch p, md_yaw p) (md_bow_acc p) (md_stern_acc p)"

definition err_json :: "device_err_msg \<Rightarrow> json" where
  "err_json e = buildDeviceStatusJson (de_ip e) (de_time_str e) (de_err_code e)"

lemma send_sent:
  assumes "topic \<noteq> []"
  shows "send lib dump j topic s = (if reaches_broker s then s\<lparr>od_sent := od_sent s @ [(topic, j)]\<rparr> else s)"
  using assms
  by (auto simp: send_def publish_def publishInternal_def reaches_broker_def isConnected_def Let_def split: option.splits)

lemma take_dequeue:
  "rq_wf q \<Longrightarrow> take 1 (rq_list q) = (case fst (dequeue q) of None \<Rightarrow> [] | Some x \<Rightarrow> [x])"
  by (cases "rq_list q") (simp_all add: rq.deq_result)

lemma mqtt_pass_run:
  assumes "rq_wf (od_mqtt_queue s)" "rq_wf (od_err_queue s)" "mq_dev_status_topic (od_mqtt_cfg s) = topic" "topic \<noteq> []"
    "s' = mqtt_pass lib dump fixed2 s"
  shows "rq_list (od_mqtt_queue s') = tl (rq_list (od_mqtt_queue s))
     \<and> rq_list (od_err_queue s') = tl (rq_list (od_err_queue s))
     \<and> rq_wf (od_mqtt_queue s') \<and> rq_wf (od_err_queue s') \<and> od_mqtt_cfg s' = od_mqtt_cfg s \<and> od_mqtt s' = od_mqtt s
     \<and> od_sent s' = od_sent s @ (if reaches_broker s
          then map (\<lambda>p. (topic, ship_json fixed2 p)) (take 1 (rq_list (od_mqtt_queue s)))
               @ map (\<lambda>e. (topic, err_json e)) (take 1 (rq_list (od_err_queue s)))
          else [])"
proof -
  obtain p q where d: "dequeue (od_mqtt_queue s) = (p, q)" by force
  obtain e r where f: "dequeue (od_err_queue s) = (e, r)" by force
  have q: "rq_list q = tl (rq_list (od_mqtt_queue s))" "rq_list r = tl (rq_list (od_err_queue s))"
    using rq.deq_contents [OF assms(1)] rq.deq_contents [OF assms(2)] d f by simp_all
  have wf: "rq_wf q" "rq_wf r" using rq.deq_invar [OF assms(1)] rq.deq_invar [OF assms(2)] d f by simp_all
  have take: "take 1 (rq_list (od_mqtt_queue s)) = (case p of None \<Rightarrow> [] | Some x \<Rightarrow> [x])"
    "take 1 (rq_list (od_err_queue s)) = (case e of None \<Rightarrow> [] | Some x \<Rightarrow> [x])"
    using take_dequeue [OF assms(1)] take_dequeue [OF assms(2)] d f by simp_all
  have rb: "reaches_broker s \<Longrightarrow> isConnected (od_mqtt s)" by (simp add: reaches_broker_def)
  show ?thesis
    unfolding assms(5) mqtt_pass_def d Let_def
    using f assms(3,4) take q wf rb
    by (cases p; cases e)
      (auto simp: send_sent reaches_broker_def ship_json_def err_json_def)
qed

text \<open>
  One pass of the MQTT thread. It takes the oldest ship packet and the oldest error message,
  if there are any, and sends them in this order, both to the device status topic: the default
  topic, configured for ship data, is never used. While the client is not connected the pass
  takes and discards them all the same, so the packets of an outage are lost, not kept.
\<close>

theorem mqtt_pass_spec:
  assumes "rq_wf (od_mqtt_queue s)" "rq_wf (od_err_queue s)" "mq_dev_status_topic (od_mqtt_cfg s) = topic" "topic \<noteq> []"
    "s' = mqtt_pass lib dump fixed2 s"
  shows "rq_list (od_mqtt_queue s') = tl (rq_list (od_mqtt_queue s))
     \<and> rq_list (od_err_queue s') = tl (rq_list (od_err_queue s))
     \<and> od_sent s' = od_sent s @ (if reaches_broker s
          then map (\<lambda>p. (topic, ship_json fixed2 p)) (take 1 (rq_list (od_mqtt_queue s)))
               @ map (\<lambda>e. (topic, err_json e)) (take 1 (rq_list (od_err_queue s)))
          else [])"
  using mqtt_pass_run [OF assms] by blast


section \<open>A sample outputter\<close>

text \<open>A queue as the constructor builds it.\<close>

definition fresh :: "size_t \<Rightarrow> 'a \<Rightarrow> 'a ring_queue" where
  "fresh cap d = \<lparr>rq_capacity = cap, rq_buffer = replicate (unat cap) d, rq_head = 0, rq_tail = 0\<rparr>"

lemma fresh_props:
  assumes "0 < unat cap" "unat cap \<le> 2 ^ 63"
  shows "rq_wf (fresh cap d)" "rq_list (fresh cap d) = []" "rq_cap (fresh cap d) = unat cap"
  using assms by (simp_all add: fresh_def rq_wf_def rq_list_def rq_len_def rq_cap_def ring_dist_def word_less_nat_alt)

lemma fresh_one:
  assumes "2 \<le> unat cap" "unat cap \<le> 2 ^ 63"
  shows "rq_wf (snd (enqueue (fresh cap d) x))" "rq_list (snd (enqueue (fresh cap d) x)) = [x]"
    "rq_cap (snd (enqueue (fresh cap d) x)) = unat cap"
proof -
  have f: "rq_wf (fresh cap d)" "rq_list (fresh cap d) = []" "rq_cap (fresh cap d) = unat cap"
    using fresh_props [of cap d] assms by auto
  show "rq_wf (snd (enqueue (fresh cap d) x))" "rq_list (snd (enqueue (fresh cap d) x)) = [x]"
    using rq.enq_invar [OF f(1)] rq.enq_contents [OF f(1), of x] f(2,3) assms by simp_all
  show "rq_cap (snd (enqueue (fresh cap d) x)) = unat cap"
    using f(3) by (simp add: enqueue_def rq_cap_def Let_def)
qed

definition blank_packet :: mqtt_ship_data where
  "blank_packet = \<lparr>md_berth_id = [], md_lidar_ip = [], md_time_str = [], md_surge = 0, md_sway = 0, md_heave = 0,
     md_roll = 0, md_pitch = 0, md_yaw = 0, md_bow_acc = (0, 0, 0), md_stern_acc = (0, 0, 0)\<rparr>"

definition sample_output :: "six_dof_result ring_queue \<Rightarrow> mqtt_ship_data ring_queue \<Rightarrow> outputter" where
  "sample_output sq mq = \<lparr>od_is_running = True, od_worker_running = True,
     od_mqtt_cfg = (rg_mqtt_cfg blank_monitor)\<lparr>mq_dev_status_topic := ''status'', mq_default_topic := ''data''\<rparr>,
     od_mqtt = mqtt_new\<lparr>mt_connected := True, mt_cli := Some 0\<rparr>,
     od_db_queue = fresh DB_MAX_QUEUE \<lparr>db_res = sample_result None\<rparr>, od_solve_queue = sq, od_mqtt_queue = mq,
     od_err_queue = fresh MQTT_ERR_MAX_QUEUE \<lparr>de_ip = [], de_time_str = [], de_err_code = 0\<rparr>,
     od_history = [], od_overflows = [], od_sent = []\<rparr>"

theorem mqtt_pass_spec_witness:
  "od_sent (mqtt_pass (\<lambda>_. 1) (\<lambda>_. []) (\<lambda>_. []) (sample_output (fresh SOLVE_MAX_QUEUE (sample_result None))
      (snd (enqueue (fresh MQTT_DATA_MAX_QUEUE blank_packet) blank_packet))))
   = [(''status'', ship_json (\<lambda>_. []) blank_packet)]"
proof -
  let ?mq = "snd (enqueue (fresh MQTT_DATA_MAX_QUEUE blank_packet) blank_packet)"
  let ?s = "sample_output (fresh SOLVE_MAX_QUEUE (sample_result None)) ?mq"
  have m: "rq_wf ?mq" "rq_list ?mq = [blank_packet]"
    by (simp_all add: fresh_one MQTT_DATA_MAX_QUEUE_def)
  then have h: "rq_wf (od_mqtt_queue ?s)" "rq_wf (od_err_queue ?s)" "mq_dev_status_topic (od_mqtt_cfg ?s) = ''status''"
    "''status'' \<noteq> []" "rq_list (od_err_queue ?s) = []" "reaches_broker ?s" "od_sent ?s = []" "od_mqtt_queue ?s = ?mq"
    by (simp_all add: sample_output_def fresh_props MQTT_ERR_MAX_QUEUE_def reaches_broker_def isConnected_def)
  show ?thesis
    using mqtt_pass_spec [OF h(1-4) refl, of "\<lambda>_. 1" "\<lambda>_. []" "\<lambda>_. []"] h(5-8) m(2) by simp
qed


end
