(* ===== verification/Log_Files.thy ===== *)
theory Log_Files
  imports Cbyd_Prelude
begin

text \<open>
  \<open>include/Logger.h\<close>, \<open>src/Logger.cpp\<close> and \<open>include/file_clean.h\<close>, \<open>src/file_clean.cpp\<close>: the process-wide
  logger, which writes through spdlog into a file named after the day, and the removal of old point
  cloud dumps. spdlog's sinks are represented by what they are built with and by the lines a
  logger hands to them; the calendar date, the directory's entries and the answers of the file
  system are arguments.
\<close>

section \<open>Levels\<close>

datatype log_level = Trace | Debug | Info | Warn | Err | Critical | Off

fun level_code :: "log_level \<Rightarrow> nat" where
  "level_code Trace = 0"
| "level_code Debug = 1"
| "level_code Info = 2"
| "level_code Warn = 3"
| "level_code Err = 4"
| "level_code Critical = 5"
| "level_code Off = 6"

lemma level_code_inject [simp]: "level_code a = level_code b \<longleftrightarrow> a = b"
  by (cases a; cases b) simp_all

instantiation log_level :: linorder
begin

definition less_eq_log_level :: "log_level \<Rightarrow> log_level \<Rightarrow> bool" where
  "less_eq_log_level a b \<longleftrightarrow> level_code a \<le> level_code b"

definition less_log_level :: "log_level \<Rightarrow> log_level \<Rightarrow> bool" where
  "less_log_level a b \<longleftrightarrow> level_code a < level_code b"

instance
  by standard (auto simp: less_eq_log_level_def less_log_level_def simp flip: level_code_inject)

end

section \<open>The logger\<close>

record file_sink =
  fs_path :: string
  fs_max_size :: nat
  fs_max_backup :: nat

text \<open>An \<open>spdlog::async_logger\<close>: its level, its file sink, and whether it has the console sink.\<close>

record async_logger =
  al_level :: log_level
  al_flush_on :: log_level
  al_file :: file_sink
  al_console :: bool

text \<open>
  The members of \<open>IndustrialLogger\<close>; \<open>il_written\<close> collects the lines handed to a file sink, with the
  sink's path.
\<close>

record industrial_logger =
  il_logger :: "async_logger option"
  il_consoleEnable :: bool
  il_baseLogPrefix :: string
  il_maxFileSize :: nat
  il_maxBackup :: nat
  il_asyncQueueSize :: nat
  il_todayStr :: string
  il_fileSink :: "file_sink option"
  il_consoleSink :: bool
  il_written :: "(string \<times> string) list"

definition logger_new :: industrial_logger where
  "logger_new = \<lparr>il_logger = None, il_consoleEnable = True, il_baseLogPrefix = [], il_maxFileSize = 0,
     il_maxBackup = 0, il_asyncQueueSize = 0, il_todayStr = [], il_fileSink = None, il_consoleSink = False,
     il_written = []\<rparr>"

text \<open>The singleton: \<open>None\<close> while \<open>instance_\<close> is null.\<close>

definition Instance :: "industrial_logger option \<Rightarrow> industrial_logger" where
  "Instance inst = (case inst of None \<Rightarrow> logger_new | Some l \<Rightarrow> l)"

text \<open>\<open>today\<close> is the result of \<open>GetTodayDate\<close>.\<close>

definition RebuildDailyRotateSink :: "string \<Rightarrow> industrial_logger \<Rightarrow> industrial_logger" where
  "RebuildDailyRotateSink today s =
     s\<lparr>il_todayStr := today,
       il_fileSink := Some \<lparr>fs_path = il_baseLogPrefix s @ ''_'' @ today, fs_max_size = il_maxFileSize s,
                            fs_max_backup = il_maxBackup s\<rparr>\<rparr>"

text \<open>The block at the end of \<open>Init\<close> and of \<open>Flush\<close> that creates the asynchronous logger.\<close>

definition build_logger :: "industrial_logger \<Rightarrow> industrial_logger" where
  "build_logger s =
     (case il_fileSink s of
        None \<Rightarrow> s
      | Some f \<Rightarrow> s\<lparr>il_logger := Some \<lparr>al_level = Info, al_flush_on = Err, al_file = f, al_console = il_consoleEnable s\<rparr>\<rparr>)"

definition Init :: "string \<Rightarrow> string \<Rightarrow> nat \<Rightarrow> nat \<Rightarrow> nat \<Rightarrow> industrial_logger \<Rightarrow> industrial_logger" where
  "Init today logPrefix maxFileSize maxBackup asyncQueueSize s =
     (let s1 = s\<lparr>il_baseLogPrefix := logPrefix, il_maxFileSize := maxFileSize, il_maxBackup := maxBackup,
                 il_asyncQueueSize := asyncQueueSize, il_consoleSink := True\<rparr>
      in build_logger (RebuildDailyRotateSink today s1))"

definition SetLogLevel :: "log_level \<Rightarrow> industrial_logger \<Rightarrow> industrial_logger" where
  "SetLogLevel lvl s = s\<lparr>il_logger := map_option (\<lambda>l. l\<lparr>al_level := lvl\<rparr>) (il_logger s)\<rparr>"

definition EnableConsole :: "bool \<Rightarrow> industrial_logger \<Rightarrow> industrial_logger" where
  "EnableConsole enable s = s\<lparr>il_consoleEnable := enable\<rparr>"

text \<open>\<open>Flush\<close>: on another day than the sink's, the logger is rebuilt.\<close>

definition Flush :: "string \<Rightarrow> industrial_logger \<Rightarrow> industrial_logger" where
  "Flush curDate s =
     (case il_logger s of
        None \<Rightarrow> s
      | Some l \<Rightarrow>
          if curDate \<noteq> il_todayStr s
          then build_logger (RebuildDailyRotateSink curDate (s\<lparr>il_logger := None, il_fileSink := None\<rparr>))
          else s)"

definition Shutdown :: "industrial_logger \<Rightarrow> industrial_logger" where
  "Shutdown s = s\<lparr>il_logger := None, il_fileSink := None, il_consoleSink := False\<rparr>"

text \<open>\<open>std::string::find_last_of\<close> of a set of characters.\<close>

definition find_last_of :: "char list \<Rightarrow> string \<Rightarrow> nat option" where
  "find_last_of cs s =
     (case filter (\<lambda>i. s ! i \<in> set cs) [0..<length s] of [] \<Rightarrow> None | is \<Rightarrow> Some (last is))"

definition slashes :: "char list" where "slashes = [CHR ''/'', CHR 0x5C]"

definition GetShortFileName :: "string \<Rightarrow> string" where
  "GetShortFileName fullPath =
     (case find_last_of slashes fullPath of Some pos \<Rightarrow> drop (pos + 1) fullPath | None \<Rightarrow> fullPath)"

text \<open>
  The log methods: \<open>LogTrace\<close>, \<open>LogDebug\<close> and so on differ in their level only. The overloads with
  further arguments pass \<open>fmt\<close> itself as the fourth argument of a format with four places, so
  the further arguments are never used.
\<close>

definition LogMsg :: "log_level \<Rightarrow> string \<Rightarrow> string \<Rightarrow> string \<Rightarrow> string \<Rightarrow> industrial_logger \<Rightarrow> industrial_logger" where
  "LogMsg lvl md file line msg s =
     (case il_logger s of
        None \<Rightarrow> s
      | Some l \<Rightarrow>
          if al_level l \<le> lvl
          then s\<lparr>il_written := il_written s @ [(fs_path (al_file l),
                  ''['' @ md @ ''] '' @ GetShortFileName file @ '':'' @ line @ '' | '' @ msg)]\<rparr>
          else s)"

definition LogFmt :: "log_level \<Rightarrow> string \<Rightarrow> string \<Rightarrow> string \<Rightarrow> string \<Rightarrow> string list \<Rightarrow> industrial_logger \<Rightarrow> industrial_logger" where
  "LogFmt lvl md file line fmt args s = LogMsg lvl md file line fmt s"

section \<open>Properties of the logger\<close>

lemma find_last_of_append:
  "find_last_of cs (s @ [c]) = (if c \<in> set cs then Some (length s) else find_last_of cs s)"
proof -
  have "filter (\<lambda>i. (s @ [c]) ! i \<in> set cs) [0..<length s] = filter (\<lambda>i. s ! i \<in> set cs) [0..<length s]"
    by (rule filter_cong) (auto simp: nth_append)
  moreover have "(case xs @ [n] of [] \<Rightarrow> None | is \<Rightarrow> Some (last is)) = Some n" for xs :: "nat list" and n
    by (cases xs) simp_all
  ultimately show ?thesis by (simp add: find_last_of_def)
qed

text \<open>The short name is the longest suffix of the path without a slash or backslash.\<close>

lemma GetShortFileName_suffix:
  "GetShortFileName p = rev (takeWhile (\<lambda>c. c \<notin> set slashes) (rev p))"
proof -
  have "case find_last_of slashes p of
      Some pos \<Rightarrow> pos < length p \<and> drop (pos + 1) p = rev (takeWhile (\<lambda>c. c \<notin> set slashes) (rev p))
    | None \<Rightarrow> p = rev (takeWhile (\<lambda>c. c \<notin> set slashes) (rev p))"
  proof (induction p rule: rev_induct)
    case Nil
    then show ?case by (simp add: find_last_of_def)
  next
    case (snoc c p)
    then show ?case by (cases "find_last_of slashes p") (simp_all add: find_last_of_append)
  qed
  then show ?thesis by (simp add: GetShortFileName_def split: option.splits)
qed

definition log_text :: "string \<Rightarrow> string \<Rightarrow> string \<Rightarrow> string \<Rightarrow> string" where
  "log_text md file line msg = ''['' @ md @ ''] '' @ GetShortFileName file @ '':'' @ line @ '' | '' @ msg"

text \<open>
  C34: where a message goes. After \<open>Init\<close> on one day and \<open>SetLogLevel\<close>, a message is written to
  the file of that day exactly when its level reaches the one set. A \<open>Flush\<close> on another day
  moves the log to that day's file, but also puts the level back to \<open>Info\<close>: a debug level set
  at the start is lost. A \<open>Flush\<close> on the same day changes nothing, and after \<open>Shutdown\<close> every
  message is dropped.
\<close>

theorem logger_spec:
  assumes "s = SetLogLevel lvl (Init day prefix mfs mb aqs s0)" "out = log_text md file line msg"
  shows "il_written (LogMsg v md file line msg s) = il_written s @ (if lvl \<le> v then [(prefix @ ''_'' @ day, out)] else [])
     \<and> Flush day s = s
     \<and> (day' \<noteq> day \<longrightarrow> il_written (LogMsg v md file line msg (Flush day' s))
          = il_written s @ (if Info \<le> v then [(prefix @ ''_'' @ day', out)] else []))
     \<and> LogMsg v md file line msg (Shutdown s) = Shutdown s"
  unfolding assms
  by (simp add: SetLogLevel_def Init_def build_logger_def RebuildDailyRotateSink_def Flush_def Shutdown_def
      LogMsg_def log_text_def)

theorem logger_spec_witness:
  "let s = SetLogLevel Debug (Init ''2026-07-07'' ''./logs/app'' 5242880 5 8192 logger_new)
   in il_written (LogMsg Debug ''MAIN'' ''/src/main.cpp'' ''34'' ''hello'' s)
        = [(''./logs/app_2026-07-07'', ''[MAIN] main.cpp:34 | hello'')]
    \<and> il_written (LogMsg Debug ''MAIN'' ''/src/main.cpp'' ''34'' ''hello'' (Flush ''2026-07-08'' s)) = []"
proof -
  have w: "il_written (SetLogLevel Debug (Init ''2026-07-07'' ''./logs/app'' 5242880 5 8192 logger_new)) = []"
    by (simp add: SetLogLevel_def Init_def build_logger_def RebuildDailyRotateSink_def logger_new_def)
  have t: "log_text ''MAIN'' ''/src/main.cpp'' ''34'' ''hello'' = ''[MAIN] main.cpp:34 | hello''"
    by (simp add: log_text_def GetShortFileName_suffix slashes_def)
  show ?thesis
    using logger_spec [OF refl t [symmetric],
      of Debug Debug "''2026-07-07''" "''./logs/app''" 5242880 5 8192 logger_new "''2026-07-08''"]
    by (simp add: w Let_def less_eq_log_level_def)
qed

section \<open>Removal of old dumps\<close>

datatype file_kind = Regular | Other_kind

text \<open>A directory entry: its name, and what \<open>stat\<close> says of it (\<open>None\<close> when it fails).\<close>

record dir_entry =
  en_name :: string
  en_stat :: "(file_kind \<times> int) option"

datatype clean_event = Open_failed | Stat_failed string | Removed string | Delete_failed string

definition has_pcd_suffix :: "string \<Rightarrow> bool" where
  "has_pcd_suffix fname \<longleftrightarrow> \<not> (length fname < 4 \<or> drop (length fname - 4) fname \<noteq> ''.pcd'')"

text \<open>One pass of the loop: whether the entry stays, and the log event.\<close>

definition clean_entry :: "(string \<Rightarrow> bool) \<Rightarrow> string \<Rightarrow> int \<Rightarrow> int \<Rightarrow> dir_entry \<Rightarrow> bool \<times> clean_event list" where
  "clean_entry removable dir now_sec keep_sec e =
     (if en_name e = ''.'' \<or> en_name e = ''..'' then (True, [])
      else let full_path = dir @ ''/'' @ en_name e
           in if \<not> has_pcd_suffix (en_name e) then (True, [])
              else case en_stat e of
                  None \<Rightarrow> (True, [Stat_failed full_path])
                | Some (kind, file_mtime) \<Rightarrow>
                    if kind \<noteq> Regular then (True, [])
                    else if keep_sec < now_sec - file_mtime
                    then (if removable full_path then (False, [Removed full_path]) else (True, [Delete_failed dir]))
                    else (True, []))"

fun clean_loop :: "(string \<Rightarrow> bool) \<Rightarrow> string \<Rightarrow> int \<Rightarrow> int \<Rightarrow> dir_entry list \<Rightarrow> dir_entry list \<times> clean_event list" where
  "clean_loop removable dir now_sec keep_sec [] = ([], [])"
| "clean_loop removable dir now_sec keep_sec (e # es) =
     (let (stays, ev) = clean_entry removable dir now_sec keep_sec e;
          (es', evs) = clean_loop removable dir now_sec keep_sec es
      in (if stays then e # es' else es', ev @ evs))"

text \<open>\<open>opened\<close> is \<open>None\<close> when \<open>opendir\<close> fails.\<close>

definition CleanOldPcdLinux :: "(string \<Rightarrow> bool) \<Rightarrow> string \<Rightarrow> int \<Rightarrow> int \<Rightarrow> dir_entry list option
    \<Rightarrow> dir_entry list option \<times> clean_event list" where
  "CleanOldPcdLinux removable dir now_sec keep_sec opened =
     (case opened of
        None \<Rightarrow> (None, [Open_failed])
      | Some es \<Rightarrow> (case clean_loop removable dir now_sec keep_sec es of (es', evs) \<Rightarrow> (Some es', evs)))"

datatype mkdir_answer = Mkdir_ok | Mkdir_exists | Mkdir_error

definition MakeDirLinux :: "mkdir_answer \<Rightarrow> bool" where
  "MakeDirLinux a \<longleftrightarrow> a = Mkdir_ok \<or> a = Mkdir_exists"

text \<open>The dumps that are due: regular files with the suffix, older than the limit.\<close>

definition expired :: "int \<Rightarrow> int \<Rightarrow> dir_entry \<Rightarrow> bool" where
  "expired now_sec keep_sec e \<longleftrightarrow>
     (\<exists>mtime base. en_name e = base @ ''.pcd'' \<and> en_stat e = Some (Regular, mtime) \<and> keep_sec < now_sec - mtime)"

lemma has_pcd_suffix_iff: "has_pcd_suffix f \<longleftrightarrow> (\<exists>base. f = base @ ''.pcd'')"
proof
  assume a: "has_pcd_suffix f"
  then have "f = take (length f - 4) f @ ''.pcd''"
    using append_take_drop_id [of "length f - 4" f] by (simp add: has_pcd_suffix_def)
  then show "\<exists>base. f = base @ ''.pcd''" by blast
qed (auto simp: has_pcd_suffix_def)

lemma clean_entry_stays:
  "fst (clean_entry removable dir now_sec keep_sec e)
     \<longleftrightarrow> \<not> (expired now_sec keep_sec e \<and> removable (dir @ ''/'' @ en_name e))"
proof -
  have "has_pcd_suffix (en_name e) \<Longrightarrow> en_name e \<noteq> ''.'' \<and> en_name e \<noteq> ''..''"
    by (auto simp: has_pcd_suffix_def)
  then show ?thesis
    by (auto simp: clean_entry_def expired_def has_pcd_suffix_iff [symmetric] Let_def split: option.splits)
qed

text \<open>
  Exactly the expired dumps go. Of a readable directory, the entries that remain are those that
  are not regular files named \<open>*.pcd\<close> older than the limit, and those the system refuses to
  remove; their order is kept. A directory that cannot be opened is left alone.
\<close>

theorem CleanOldPcd_spec:
  "fst (CleanOldPcdLinux removable dir now_sec keep_sec opened)
     = map_option (filter (\<lambda>e. \<not> (expired now_sec keep_sec e \<and> removable (dir @ ''/'' @ en_name e)))) opened"
proof -
  have "fst (clean_loop removable dir now_sec keep_sec es)
      = filter (\<lambda>e. \<not> (expired now_sec keep_sec e \<and> removable (dir @ ''/'' @ en_name e))) es" for es
    by (induction es) (auto simp: split_beta Let_def clean_entry_stays)
  then show ?thesis by (cases opened) (simp_all add: CleanOldPcdLinux_def split_beta)
qed

end
