(* ===== verification/Live_Acquisition.thy ===== *)
theory Live_Acquisition
  imports Acquirer Data_Output Log_Files
begin

text \<open>
  The live acquisition of \<open>src/point_cloud_acquirer.cpp\<close>: the block at the head of the loop of each
  lidar thread that the preprocessor removes (\<open>#if 0\<close>). It is what the two threads are meant to do,
  and the only user of the frames of the lidar SDK, of the ship monitor and of the file cleaner.
  One pass of the block takes a frame from the receiver, drops it unless the ship lies stable, dumps
  it if asked to, and enqueues it with the time stamp of its last point. The theory \<open>Acquirer\<close> has the
  loops as they are compiled.
\<close>

section \<open>State and environment\<close>

text \<open>
  What one thread changes in the block: its retry counter, its receiver, its background processor
  and its queue, and as lists the calls of \<open>reportError\<close> and the work on the debug directory.
\<close>

datatype dump =
    Made_dir bool
  | Cleaned "dir_entry list option" "clean_event list"
  | Saved string cloud

record live =
  lv_try_get_cloud :: nat
  lv_lidar :: lidar_ls
  lv_bg :: bg_diff
  lv_queue :: "raw_cloud ring_queue"
  lv_reports :: "(module_type \<times> error_level \<times> string) list"
  lv_dumps :: "dump list"

text \<open>
  What happens around one pass: what the threads of the receiver did to it since the last pass,
  the answers of the file system, which calls of \<open>savePCDFileBinary\<close> return (the others throw), and
  the schedule of the waiting loop.
\<close>

record live_env =
  le_receive :: "lidar_ls \<Rightarrow> lidar_ls"
  le_mkdir :: mkdir_answer
  le_dir :: "dir_entry list option"
  le_removable :: "string \<Rightarrow> bool"
  le_now_sec :: int
  le_saves :: "string \<Rightarrow> bool"
  le_waits :: "(bool \<times> nat) list"

datatype live_fault =
    Flag_unset            \<comment> \<open>\<open>isSuccessfulFlag\<close> read before its first assignment\<close>
  | Stamp_undefined       \<comment> \<open>the time stamp of the last point had no defined conversion\<close>
  | Monitor_ub bg_ub
  | Save_throws string    \<comment> \<open>an exception leaves the thread function\<close>
  | Live_waiting

section \<open>The pass\<close>

definition MAX_RETRY_LIDAR :: nat where "MAX_RETRY_LIDAR = 100"

text \<open>The UTF-8 bytes of the text appended to the address: reception of the point cloud timed out.\<close>

definition receive_timeout :: string where
  "receive_timeout = [CHR 0xE7, CHR 0x82, CHR 0xB9, CHR 0xE4, CHR 0xBA, CHR 0x91, CHR 0xE6, CHR 0x8E, CHR 0xA5,
     CHR 0xE6, CHR 0x94, CHR 0xB6, CHR 0xE8, CHR 0xB6, CHR 0x85, CHR 0xE6, CHR 0x97, CHR 0xB6]"

definition timeout_text :: "lidar_config \<Rightarrow> string" where
  "timeout_text c = lc_name c @ '',ip:'' @ lc_lidar_ip c @ receive_timeout"

definition no_frame :: "lidar_config \<Rightarrow> live \<Rightarrow> live" where
  "no_frame c s =
     (let s1 = (if MAX_RETRY_LIDAR < lv_try_get_cloud s
                then s\<lparr>lv_reports := lv_reports s @ [(ACQUIRER, STATUS_ERROR, timeout_text c)], lv_try_get_cloud := 0\<rparr>
                else s)
      in s1\<lparr>lv_try_get_cloud := lv_try_get_cloud s1 + 1\<rparr>)"

text \<open>\<open>std::to_string\<close> of an unsigned number.\<close>

fun dec_string :: "nat \<Rightarrow> string" where
  "dec_string n = (if n < 10 then [digit_char n] else dec_string (n div 10) @ [digit_char (n mod 10)])"

definition frame_cloud :: "frame \<Rightarrow> cloud" where
  "frame_cloud pts = map (\<lambda>p. \<lparr>px = ml_X p, py = ml_Y p, pz = ml_Z p\<rparr>) pts"

definition pcd_dir :: string where "pcd_dir = ''./pcd_debug''"

definition pcd_name :: "string \<Rightarrow> string \<Rightarrow> u64 \<Rightarrow> string" where
  "pcd_name lidar_id kind ts = pcd_dir @ ''/lidar'' @ lidar_id @ kind @ dec_string (unat ts) @ ''.pcd''"

text \<open>The debug dump; \<open>ship_out\<close> is \<open>None\<close> while the pointer is null. The result of \<open>MakeDirLinux\<close> is ignored.\<close>

definition save_all :: "live_env \<Rightarrow> (string \<times> cloud) list \<Rightarrow> live_fault + dump list" where
  "save_all e fs =
     (case List.find (\<lambda>(n, c). \<not> le_saves e n) fs of
        Some (n, c) \<Rightarrow> Inl (Save_throws n)
      | None \<Rightarrow> Inr (map (\<lambda>(n, c). Saved n c) fs))"

definition debug_save :: "all_lidar_configs \<Rightarrow> string \<Rightarrow> live_env \<Rightarrow> u64 \<Rightarrow> cloud \<Rightarrow> cloud option \<Rightarrow> live_fault + dump list" where
  "debug_save cfg lidar_id e ts cloud ship_out =
     (if alc_debug_save cfg \<noteq> 0
      then let dir = CleanOldPcdLinux (le_removable e) pcd_dir (le_now_sec e) (alc_save_min cfg) (le_dir e);
               files = (pcd_name lidar_id ''_single_frame_'' ts, cloud)
                 # (case ship_out of
                      Some out \<Rightarrow> if alc_ship_monitor cfg \<noteq> 0 then [(pcd_name lidar_id ''_split_frame_'' ts, out)] else []
                    | None \<Rightarrow> [])
           in map_sum id (\<lambda>ds. Made_dir (MakeDirLinux (le_mkdir e)) # Cleaned (fst dir) (snd dir) # ds) (save_all e files)
      else Inr [])"

text \<open>The rest of the pass for a frame that goes on: the dump, and the waiting loop around \<open>enqueue\<close>.\<close>

definition live_forward :: "all_lidar_configs \<Rightarrow> lidar_config \<Rightarrow> string \<Rightarrow> live_env \<Rightarrow> u64 \<Rightarrow> cloud \<Rightarrow> cloud option \<Rightarrow> live
    \<Rightarrow> live_fault + (raw_cloud list \<times> live)" where
  "live_forward cfg c lidar_id e ts cloud ship_out s =
     (case debug_save cfg lidar_id e ts cloud ship_out of
        Inl f \<Rightarrow> Inl f
      | Inr ds \<Rightarrow>
          (let pts = (case ship_out of Some out \<Rightarrow> if alc_ship_monitor cfg \<noteq> 0 then out else cloud | None \<Rightarrow> cloud);
               x = \<lparr>raw_lidar_ip = lc_lidar_ip c, raw_lidar_id = lidar_id, raw_timestamp = ts, raw_points = pts\<rparr>
           in case enq_retry enqueue dequeue (lv_queue s) x (le_waits e) of
                None \<Rightarrow> Inl Live_waiting
              | Some (ok, taken, q) \<Rightarrow> Inr (taken, s\<lparr>lv_queue := q, lv_dumps := lv_dumps s @ ds\<rparr>)))"

definition live_frame :: "pcl \<Rightarrow> all_lidar_configs \<Rightarrow> radar_global_config \<Rightarrow> lidar_config \<Rightarrow> string \<Rightarrow> live_env \<Rightarrow> frame \<Rightarrow> live
    \<Rightarrow> live_fault + (raw_cloud list \<times> live)" where
  "live_frame L cfg mc c lidar_id e temp s =
     (case ml_Mtimestamp_nsce (last temp) of
        None \<Rightarrow> Inl Stamp_undefined
      | Some ts \<Rightarrow>
          (let cloud = frame_cloud temp
           in if alc_ship_monitor cfg \<noteq> 0
              then case processOneLidarFrame L mc (lv_bg s) (Some cloud) of
                     Inl u \<Rightarrow> Inl (Monitor_ub u)
                   | Inr (r, ship_out, bg) \<Rightarrow>
                       (let s1 = s\<lparr>lv_bg := bg\<rparr>
                        in if mr_status r = SHIP_LEAVE then Inr ([], s1)
                           else if mr_status r = SHIP_MOVING then Inr ([], s1)
                           else live_forward cfg c lidar_id e ts cloud (Some ship_out) s1)
              else live_forward cfg c lidar_id e ts cloud None s))"

definition live_pass :: "pcl \<Rightarrow> all_lidar_configs \<Rightarrow> radar_global_config \<Rightarrow> lidar_config \<Rightarrow> string \<Rightarrow> live_env \<Rightarrow> live
    \<Rightarrow> live_fault + (raw_cloud list \<times> live)" where
  "live_pass L cfg mc c lidar_id e s0 =
     (let s = s0\<lparr>lv_lidar := le_receive e (lv_lidar s0)\<rparr>
      in if \<not> gl_isFrameOK (lv_lidar s) then Inr ([], no_frame c s)
         else case getLidarPerFrameDate (lv_lidar s) of
           ((flag, temp, info), dev) \<Rightarrow>
             (let s1 = s\<lparr>lv_try_get_cloud := 0, lv_lidar := dev\<rparr>
              in case flag of
                   None \<Rightarrow> Inl Flag_unset
                 | Some ok \<Rightarrow>
                     if \<not> ok \<or> temp = None \<or> temp = Some [] then Inr ([], s1)
                     else live_frame L cfg mc c lidar_id e (the temp) s1))"

text \<open>The blocks of the two threads.\<close>

definition live_radar1 :: "pcl \<Rightarrow> all_lidar_configs \<Rightarrow> radar_global_config \<Rightarrow> live_env \<Rightarrow> live \<Rightarrow> live_fault + (raw_cloud list \<times> live)" where
  "live_radar1 L cfg mc = live_pass L cfg mc (alc_lidarA cfg) ''A''"

definition live_radar2 :: "pcl \<Rightarrow> all_lidar_configs \<Rightarrow> radar_global_config \<Rightarrow> live_env \<Rightarrow> live \<Rightarrow> live_fault + (raw_cloud list \<times> live)" where
  "live_radar2 L cfg mc = live_pass L cfg mc (alc_lidarB cfg) ''B''"

text \<open>Successive passes: what the fuser took, and the state.\<close>

fun live_run :: "(live_env \<Rightarrow> live \<Rightarrow> live_fault + (raw_cloud list \<times> live)) \<Rightarrow> live_env list \<Rightarrow> live
    \<Rightarrow> live_fault + (raw_cloud list \<times> live)" where
  "live_run pass [] s = Inr ([], s)"
| "live_run pass (e # es) s =
     (case pass e s of
        Inl f \<Rightarrow> Inl f
      | Inr (ds, s1) \<Rightarrow> map_sum id (\<lambda>(ds', s2). (ds @ ds', s2)) (live_run pass es s1))"

section \<open>A silent lidar\<close>

lemma silent_pass:
  assumes "\<not> gl_isFrameOK (lv_lidar s)" "le_receive e = (\<lambda>d. d)"
  shows "live_pass L cfg mc c lidar_id e s = Inr ([], no_frame c s)"
  using assms by (simp add: live_pass_def Let_def)

lemma no_frame_lidar [simp]: "lv_lidar (no_frame c s) = lv_lidar s" "lv_queue (no_frame c s) = lv_queue s" "lv_bg (no_frame c s) = lv_bg s"
  by (simp_all add: no_frame_def Let_def)

lemma silent_run:
  assumes "\<not> gl_isFrameOK (lv_lidar s)" "lv_try_get_cloud s = (if m = 0 then 0 else (m - 1) mod 101 + 1)"
    "lv_reports s = rs @ replicate ((m - 1) div 101) (ACQUIRER, STATUS_ERROR, timeout_text c)"
    "list_all (\<lambda>e. le_receive e = (\<lambda>d. d)) es"
  shows "\<exists>s'. live_run (live_pass L cfg mc c lidar_id) es s = Inr ([], s')
     \<and> lv_reports s' = rs @ replicate ((m + length es - 1) div 101) (ACQUIRER, STATUS_ERROR, timeout_text c)
     \<and> lv_queue s' = lv_queue s"
  using assms
proof (induction es arbitrary: s m)
  case (Cons e es)
  let ?s = "no_frame c s" and ?r = "(ACQUIRER, STATUS_ERROR, timeout_text c)"
  have pass: "live_pass L cfg mc c lidar_id e s = Inr ([], ?s)"
    using Cons.prems(1,4) by (intro silent_pass) simp_all
  have "lv_try_get_cloud ?s = (Suc m - 1) mod 101 + 1 \<and> lv_reports ?s = rs @ replicate ((Suc m - 1) div 101) ?r"
  proof (cases m)
    case 0
    then show ?thesis using Cons.prems(2,3) by (simp add: no_frame_def MAX_RETRY_LIDAR_def Let_def)
  next
    case (Suc k)
    have "k mod 101 < 101" by simp
    then have "100 < Suc (k mod 101) \<longleftrightarrow> Suc (k mod 101) = 101" by linarith
    then show ?thesis
      using Suc Cons.prems(2,3)
      by (simp add: no_frame_def MAX_RETRY_LIDAR_def Let_def mod_Suc div_Suc replicate_append_same)
  qed
  then have cnt: "lv_try_get_cloud ?s = (Suc m - 1) mod 101 + 1"
    and reports: "lv_reports ?s = rs @ replicate ((Suc m - 1) div 101) ?r" by blast+
  have "\<not> gl_isFrameOK (lv_lidar ?s)" "list_all (\<lambda>e. le_receive e = (\<lambda>d. d)) es" using Cons.prems by simp_all
  from Cons.IH [OF this(1) _ reports this(2)] cnt pass show ?case by auto
qed simp


section \<open>Frames of a ship\<close>

text \<open>A frame that the receiver completes, with \<open>d\<close> points at a distance other than zero.\<close>

definition arrives :: "frame \<Rightarrow> int \<Rightarrow> lidar_ls \<Rightarrow> lidar_ls" where
  "arrives pts d dev = sendLidarData (dev\<lparr>gl_Get := pts, gl_DistanceIsNotZero := d\<rparr>)"

lemma arrives_frame:
  "gl_isFrameOK (arrives pts d dev)" "gl_Per (arrives pts d dev) = Some pts"
  "gl_isSuccessfulFlag (arrives pts d dev) = Some (20 \<le> d)"
  by (simp_all add: arrives_def sendLidarData_def messFunction_def Let_def)

text \<open>What the monitor sees of a cloud: the points of the largest cluster, and their box and number.\<close>

definition ship_points :: "pcl \<Rightarrow> radar_global_config \<Rightarrow> bg_diff \<Rightarrow> cloud \<Rightarrow> cloud" where
  "ship_points L mc bg c =
     removeSmallClusters L (Some (extractForeground L bg (Some c))) (rg_cluster_eps mc) (rg_cluster_min_points mc)"

definition ship_view :: "pcl \<Rightarrow> radar_global_config \<Rightarrow> bg_diff \<Rightarrow> cloud \<Rightarrow> ship_move \<times> int" where
  "ship_view L mc bg c = (calculateShipPose L (Some (ship_points L mc bg c)), int (length (ship_points L mc bg c)))"

lemma ship_history [simp]:
  "extractForeground L (bg\<lparr>center_history := h\<rparr>) = extractForeground L bg"
  "ship_points L mc (bg\<lparr>center_history := h\<rparr>) = ship_points L mc bg"
  "ship_view L mc (bg\<lparr>center_history := h\<rparr>) = ship_view L mc bg"
  by (rule ext, simp add: extractForeground_def ship_points_def ship_view_def Let_def split: option.splits)+

text \<open>A frame is usable when the receiver accepted it and it has points.\<close>

definition usable :: "frame \<times> int \<Rightarrow> bool" where
  "usable f \<longleftrightarrow> 20 \<le> snd f \<and> fst f \<noteq> []"

text \<open>
  The specification: of the usable frames, those after which the current visit calls for
  \<open>SHIP_STABLE\<close>, reduced to the ship's points, with the time stamp of the last point. \<open>pre\<close> are the
  views of the earlier frames.
\<close>

fun stable_frames :: "pcl \<Rightarrow> radar_global_config \<Rightarrow> bg_diff \<Rightarrow> lidar_config \<Rightarrow> string \<Rightarrow> (ship_move \<times> int) list
    \<Rightarrow> (frame \<times> int) list \<Rightarrow> raw_cloud list" where
  "stable_frames L mc bg c lidar_id pre [] = []"
| "stable_frames L mc bg c lidar_id pre (f # fs) =
     (if \<not> usable f then stable_frames L mc bg c lidar_id pre fs
      else let pre' = pre @ [ship_view L mc bg (frame_cloud (fst f))]
           in (if visit_status bg (visit bg pre') = SHIP_STABLE
               then [\<lparr>raw_lidar_ip = lc_lidar_ip c, raw_lidar_id = lidar_id,
                      raw_timestamp = the (ml_Mtimestamp_nsce (last (fst f))),
                      raw_points = ship_points L mc bg (frame_cloud (fst f))\<rparr>] else [])
              @ stable_frames L mc bg c lidar_id pre' fs)"

lemma stable_frames_history [simp]:
  "stable_frames L mc (bg\<lparr>center_history := h\<rparr>) c lidar_id pre fs = stable_frames L mc bg c lidar_id pre fs"
  by (induction fs arbitrary: pre) (simp_all add: Let_def)

text \<open>A frame the monitor can judge: its stamp is defined and it shows something beside the background.\<close>

definition judged :: "pcl \<Rightarrow> bg_diff \<Rightarrow> frame \<times> int \<Rightarrow> bool" where
  "judged L bg f \<longleftrightarrow> ml_Mtimestamp_nsce (last (fst f)) \<noteq> None \<and> extractForeground L bg (Some (frame_cloud (fst f))) \<noteq> []"

lemma judged_history [simp]: "judged L (bg\<lparr>center_history := h\<rparr>) = judged L bg"
  by (rule ext) (simp add: judged_def)

text \<open>The passes that bring the frames: every save returns, and the fuser takes frames during a wait.\<close>

definition brings :: "frame \<times> int \<Rightarrow> live_env \<Rightarrow> bool" where
  "brings f e \<longleftrightarrow> le_receive e = arrives (fst f) (snd f) \<and> (\<forall>n. le_saves e n) \<and> serving [le_waits e]"

lemma monitor_judged:
  assumes "extractForeground L bg (Some c) \<noteq> []" "1 \<le> stable_frame_cnt bg" "stable_frame_cnt bg < 2 ^ 31"
    "center_history bg = last_n (nat (stable_frame_cnt bg)) (visit bg pre)"
  shows "\<exists>r. processOneLidarFrame L mc bg (Some c) = Inr (r, ship_points L mc bg c,
       bg\<lparr>center_history := last_n (nat (stable_frame_cnt bg)) (visit bg (pre @ [ship_view L mc bg c]))\<rparr>)
     \<and> mr_status r = visit_status bg (visit bg (pre @ [ship_view L mc bg c]))"
  using assms(1) judge_visit_step [OF assms(2-4)]
  by (simp add: processOneLidarFrame_def monitorShip_def Let_def ship_points_def [symmetric] ship_view_def)

lemma debug_save_returns:
  "\<forall>n. le_saves e n \<Longrightarrow> \<exists>ds. debug_save cfg lidar_id e ts cloud ship_out = Inr ds"
  by (auto simp: debug_save_def Let_def save_all_def find_None_iff split: option.splits)

lemma live_forward_stream:
  assumes "rq_wf (lv_queue s)" "2 \<le> rq_cap (lv_queue s)" "\<forall>n. le_saves e n" "serving [le_waits e]" "alc_ship_monitor cfg \<noteq> 0"
  shows "\<exists>taken q ds. live_forward cfg c lidar_id e ts cloud (Some out) s = Inr (taken, s\<lparr>lv_queue := q, lv_dumps := ds\<rparr>)
     \<and> rq_wf q \<and> 2 \<le> rq_cap q
     \<and> taken @ rq_list q = rq_list (lv_queue s)
         @ [\<lparr>raw_lidar_ip = lc_lidar_ip c, raw_lidar_id = lidar_id, raw_timestamp = ts, raw_points = out\<rparr>]"
proof -
  let ?x = "\<lparr>raw_lidar_ip = lc_lidar_ip c, raw_lidar_id = lidar_id, raw_timestamp = ts, raw_points = out\<rparr>"
  obtain ds where ds: "debug_save cfg lidar_id e ts cloud (Some out) = Inr ds" using debug_save_returns [OF assms(3)] by blast
  obtain k env where w: "le_waits e = (True, Suc k) # env" using assms(4) by (auto simp: serving_def)
  have "\<exists>taken q. enq_retry enqueue dequeue (lv_queue s) ?x (le_waits e) = Some (True, taken, q)"
    unfolding w using rq.enq_retry_progress [OF assms(1)] assms(2) by simp
  then obtain taken q where r: "enq_retry enqueue dequeue (lv_queue s) ?x (le_waits e) = Some (True, taken, q)" by blast
  show ?thesis
    using rq.enq_retry_fifo [OF assms(1) r] assms(2,5) by (auto simp: live_forward_def ds r)
qed

lemma live_pass_frame:
  assumes "brings f e"
  shows "\<exists>dev. live_pass L cfg mc c lidar_id e s
     = (let s1 = s\<lparr>lv_try_get_cloud := 0, lv_lidar := dev\<rparr>
        in if usable f then live_frame L cfg mc c lidar_id e (fst f) s1 else Inr ([], s1))"
proof -
  let ?dev = "arrives (fst f) (snd f) (lv_lidar s)"
  have "le_receive e (lv_lidar s) = ?dev" using assms by (simp add: brings_def)
  then show ?thesis
    by (intro exI [of _ "?dev\<lparr>gl_isFrameOK := False, gl_Per := None\<rparr>"])
      (auto simp: live_pass_def getLidarPerFrameDate_def arrives_frame usable_def Let_def)
qed

text \<open>One pass that brings a usable frame: it is judged, and forwarded exactly when the ship lies stable.\<close>

lemma live_pass_stable:
  assumes "brings f e" "usable f" "judged L (lv_bg s) f" "alc_ship_monitor cfg \<noteq> 0"
    "1 \<le> stable_frame_cnt (lv_bg s)" "stable_frame_cnt (lv_bg s) < 2 ^ 31"
    "center_history (lv_bg s) = last_n (nat (stable_frame_cnt (lv_bg s))) (visit (lv_bg s) pre)"
    "rq_wf (lv_queue s)" "2 \<le> rq_cap (lv_queue s)" "pre' = pre @ [ship_view L mc (lv_bg s) (frame_cloud (fst f))]"
  shows "\<exists>ds s'. live_pass L cfg mc c lidar_id e s = Inr (ds, s') \<and> rq_wf (lv_queue s') \<and> 2 \<le> rq_cap (lv_queue s')
     \<and> lv_bg s' = (lv_bg s)\<lparr>center_history := last_n (nat (stable_frame_cnt (lv_bg s))) (visit (lv_bg s) pre')\<rparr>
     \<and> lv_reports s' = lv_reports s
     \<and> ds @ rq_list (lv_queue s') @ stable_frames L mc (lv_bg s) c lidar_id pre' fs
         = rq_list (lv_queue s) @ stable_frames L mc (lv_bg s) c lidar_id pre (f # fs)"
proof -
  let ?bg = "lv_bg s" and ?c = "frame_cloud (fst f)"
  let ?bg' = "?bg\<lparr>center_history := last_n (nat (stable_frame_cnt ?bg)) (visit ?bg pre')\<rparr>"
  obtain dev where pass: "live_pass L cfg mc c lidar_id e s
      = live_frame L cfg mc c lidar_id e (fst f) (s\<lparr>lv_try_get_cloud := 0, lv_lidar := dev\<rparr>)"
    using live_pass_frame [OF assms(1), of L cfg mc c lidar_id s] assms(2) by (auto simp: Let_def)
  obtain ts where ts: "ml_Mtimestamp_nsce (last (fst f)) = Some ts" using assms(3) by (auto simp: judged_def)
  obtain r where r: "processOneLidarFrame L mc ?bg (Some ?c) = Inr (r, ship_points L mc ?bg ?c, ?bg')"
    "mr_status r = visit_status ?bg (visit ?bg pre')"
    using monitor_judged [OF _ assms(5-7), of L ?c mc] assms(3,10) by (auto simp: judged_def)
  have e: "\<forall>n. le_saves e n" "serving [le_waits e]" using assms(1) by (simp_all add: brings_def)
  let ?x = "\<lparr>raw_lidar_ip = lc_lidar_ip c, raw_lidar_id = lidar_id, raw_timestamp = ts, raw_points = ship_points L mc ?bg ?c\<rparr>"
  have "\<exists>ds s'. live_pass L cfg mc c lidar_id e s = Inr (ds, s') \<and> lv_bg s' = ?bg' \<and> rq_wf (lv_queue s')
      \<and> 2 \<le> rq_cap (lv_queue s') \<and> lv_reports s' = lv_reports s
      \<and> ds @ rq_list (lv_queue s') = rq_list (lv_queue s) @ (if visit_status ?bg (visit ?bg pre') = SHIP_STABLE then [?x] else [])"
  proof (cases "visit_status ?bg (visit ?bg pre')")
    case SHIP_STABLE
    then show ?thesis
      using live_forward_stream [of "s\<lparr>lv_try_get_cloud := 0, lv_lidar := dev, lv_bg := ?bg'\<rparr>" e cfg c lidar_id ts ?c "ship_points L mc ?bg ?c"]
        e assms(4,8,9) pass r ts by (auto simp: live_frame_def)
  qed (use pass r ts assms(4,8,9) in \<open>simp_all add: live_frame_def\<close>)
  then show ?thesis using assms(2,10) ts by (auto simp: Let_def)
qed

lemma live_run_stable:
  assumes "list_all2 brings fs es" "list_all (\<lambda>f. usable f \<longrightarrow> judged L (lv_bg s) f) fs" "alc_ship_monitor cfg \<noteq> 0"
    "1 \<le> stable_frame_cnt (lv_bg s)" "stable_frame_cnt (lv_bg s) < 2 ^ 31"
    "center_history (lv_bg s) = last_n (nat (stable_frame_cnt (lv_bg s))) (visit (lv_bg s) pre)"
    "rq_wf (lv_queue s)" "2 \<le> rq_cap (lv_queue s)"
  shows "\<exists>ds s'. live_run (live_pass L cfg mc c lidar_id) es s = Inr (ds, s')
     \<and> ds @ rq_list (lv_queue s') = rq_list (lv_queue s) @ stable_frames L mc (lv_bg s) c lidar_id pre fs
     \<and> lv_reports s' = lv_reports s"
  using assms
proof (induction fs arbitrary: es s pre)
  case Nil
  then show ?case by simp
next
  case (Cons f fs)
  obtain e es' where es: "es = e # es'" "brings f e" "list_all2 brings fs es'"
    using Cons.prems(1) by (cases es) auto
  show ?case
  proof (cases "usable f")
    case False
    obtain dev where pass: "live_pass L cfg mc c lidar_id e s = Inr ([], s\<lparr>lv_try_get_cloud := 0, lv_lidar := dev\<rparr>)"
      using live_pass_frame [OF es(2), of L cfg mc c lidar_id s] False by (auto simp: Let_def)
    let ?s1 = "s\<lparr>lv_try_get_cloud := 0, lv_lidar := dev\<rparr>"
    have "\<exists>ds s'. live_run (live_pass L cfg mc c lidar_id) es' ?s1 = Inr (ds, s')
       \<and> ds @ rq_list (lv_queue s') = rq_list (lv_queue ?s1) @ stable_frames L mc (lv_bg ?s1) c lidar_id pre fs
       \<and> lv_reports s' = lv_reports ?s1"
      using Cons.prems es(3) by (intro Cons.IH) simp_all
    then show ?thesis using pass False es(1) by auto
  next
    case True
    define pre' where "pre' = pre @ [ship_view L mc (lv_bg s) (frame_cloud (fst f))]"
    have j: "judged L (lv_bg s) f" using Cons.prems(2) True by simp
    obtain ds s2 where s2: "live_pass L cfg mc c lidar_id e s = Inr (ds, s2)" "rq_wf (lv_queue s2)" "2 \<le> rq_cap (lv_queue s2)"
        "lv_bg s2 = (lv_bg s)\<lparr>center_history := last_n (nat (stable_frame_cnt (lv_bg s))) (visit (lv_bg s) pre')\<rparr>"
        "lv_reports s2 = lv_reports s"
        "ds @ rq_list (lv_queue s2) @ stable_frames L mc (lv_bg s) c lidar_id pre' fs
           = rq_list (lv_queue s) @ stable_frames L mc (lv_bg s) c lidar_id pre (f # fs)"
      using live_pass_stable [OF es(2) True j Cons.prems(3-8) pre'_def, of c lidar_id fs] by blast
    have "\<exists>ds' s'. live_run (live_pass L cfg mc c lidar_id) es' s2 = Inr (ds', s')
       \<and> ds' @ rq_list (lv_queue s') = rq_list (lv_queue s2) @ stable_frames L mc (lv_bg s2) c lidar_id pre' fs
       \<and> lv_reports s' = lv_reports s2"
      using Cons.prems es(3) s2(2-4) by (intro Cons.IH) simp_all
    then show ?thesis using s2 es(1) by auto
  qed
qed


section \<open>Instances\<close>

definition sample_live :: live where
  "sample_live = \<lparr>lv_try_get_cloud = 0, lv_lidar = sample_ls,
     lv_bg = bg_new\<lparr>bg_kdtree := [origin], bg_ready := True, min_valid_ship_pts := 1, stable_frame_cnt := 2\<rparr>,
     lv_queue = ring4 (frame_at 0), lv_reports = [], lv_dumps = []\<rparr>"

definition sample_pass :: "(lidar_ls \<Rightarrow> lidar_ls) \<Rightarrow> live_env" where
  "sample_pass rec = \<lparr>le_receive = rec, le_mkdir = Mkdir_exists, le_dir = Some [], le_removable = (\<lambda>_. True),
     le_now_sec = 0, le_saves = (\<lambda>_. True), le_waits = [(True, 1)]\<rparr>"

definition sample_lidar :: lidar_config where
  "sample_lidar = (alc_lidarA blank_lidars)\<lparr>lc_name := ''left'', lc_lidar_ip := ''192.168.1.201''\<rparr>"


definition ship_frame_at :: "u64 \<Rightarrow> frame" where
  "ship_frame_at t = [\<lparr>ml_X = 3, ml_Y = 0, ml_Z = 0, ml_ID = 0, ml_H_angle = 0, ml_V_angle = 0, ml_Distance = 3,
     ml_Intensity = 1, ml_Mtimestamp_nsce = Some t\<rparr>]"


end
