(* ===== verification/Worker_Pool.thy ===== *)
theory Worker_Pool
  imports Six_Dof "HOL-Library.Multiset"
begin

text \<open>
  The worker pool of \<open>src/six_dof_calculator.cpp\<close> at the granularity of its locks. A worker waits
  for a task (under \<open>task_mtx_\<close>), computes it (\<open>calculateSixDof\<close> holds \<open>base_mtx_\<close> from its first
  access to shared members to its end, so computations exclude each other), and then tries to
  enqueue the result up to six times. The dispatcher, the consumer of the results and
  \<open>stop\<close> run in between. An attempt to enqueue is one step; what two simultaneous
  attempts can do to the ring is the subject of the theory \<open>Ring_Queue_Conc\<close>.
\<close>

section \<open>State and steps\<close>

datatype worker_pc =
    K_wait                        \<comment> \<open>before the critical section of the loop\<close>
  | K_task fused_cloud            \<comment> \<open>with a task\<close>
  | K_push six_dof_result nat     \<comment> \<open>with a result and the value of \<open>retry\<close>\<close>
  | K_gone                        \<comment> \<open>returned\<close>

text \<open>
  The last six fields record what happened: the frames dispatched, those dropped from a full task
  queue, the pairs of frame and result computed, the results queued, taken by the consumer, and
  given up.
\<close>

record 'm pool =
  wp_calc :: "'m six_dof"
  wp_workers :: "worker_pc list"
  wp_results :: "six_dof_result ring_queue"
  wp_dispatched :: "fused_cloud list"
  wp_dropped :: "fused_cloud list"
  wp_computed :: "(fused_cloud \<times> six_dof_result) list"
  wp_queued :: "six_dof_result list"
  wp_taken :: "six_dof_result list"
  wp_lost :: "six_dof_result list"

datatype pool_action =
    Dispatch fused_cloud | Take nat | Compute nat int string | Push nat | Consume | Stop_pool

definition pool_dispatch :: "fused_cloud \<Rightarrow> 'm pool \<Rightarrow> 'm pool" where
  "pool_dispatch c p =
     (let ts = sx_tasks (wp_calc p)
      in p\<lparr>wp_calc := (wp_calc p)\<lparr>sx_tasks := dispatch c ts\<rparr>, wp_dispatched := wp_dispatched p @ [c],
           wp_dropped := wp_dropped p @ (if MAX_QUEUE_SIZE \<le> length ts then take 1 ts else [])\<rparr>)"

text \<open>The critical section of \<open>workerThread\<close>; \<open>None\<close>: the worker keeps waiting.\<close>

definition pool_take :: "nat \<Rightarrow> 'm pool \<Rightarrow> 'm pool option" where
  "pool_take i p =
     (case worker_take (wp_calc p) of
        (Worker_waits, s) \<Rightarrow> None
      | (Worker_exits, s) \<Rightarrow> Some (p\<lparr>wp_calc := s, wp_workers := (wp_workers p)[i := K_gone]\<rparr>)
      | (Worker_takes c, s) \<Rightarrow> Some (p\<lparr>wp_calc := s, wp_workers := (wp_workers p)[i := K_task c]\<rparr>))"

definition pool_compute :: "'m reg_lib \<Rightarrow> 'm eigen \<Rightarrow> (real \<Rightarrow> string) \<Rightarrow> nat \<Rightarrow> int \<Rightarrow> string \<Rightarrow> fused_cloud \<Rightarrow> 'm pool \<Rightarrow> 'm pool" where
  "pool_compute L E num i now local_time c p =
     (case calculateSixDof L E num local_time now c (wp_calc p) of (r, s) \<Rightarrow>
        p\<lparr>wp_calc := s, wp_workers := (wp_workers p)[i := K_push r 0], wp_computed := wp_computed p @ [(c, r)]\<rparr>)"

text \<open>One evaluation of the condition \<open>!enqueue(res) && retry < MAX_RETRY_QUEUE\<close>.\<close>

definition pool_push :: "nat \<Rightarrow> six_dof_result \<Rightarrow> nat \<Rightarrow> 'm pool \<Rightarrow> 'm pool" where
  "pool_push i r retry p =
     (case enqueue (wp_results p) r of (ok, q) \<Rightarrow>
        if ok then p\<lparr>wp_results := q, wp_workers := (wp_workers p)[i := K_wait], wp_queued := wp_queued p @ [r]\<rparr>
        else if retry < MAX_RETRY_QUEUE
        then p\<lparr>wp_results := q, wp_workers := (wp_workers p)[i := K_push r (retry + 1)]\<rparr>
        else p\<lparr>wp_results := q, wp_workers := (wp_workers p)[i := K_wait], wp_lost := wp_lost p @ [r]\<rparr>)"

definition worker_at :: "nat \<Rightarrow> 'm pool \<Rightarrow> worker_pc" where
  "worker_at i p = (if i < length (wp_workers p) then wp_workers p ! i else K_gone)"

fun pool_step :: "'m reg_lib \<Rightarrow> 'm eigen \<Rightarrow> (real \<Rightarrow> string) \<Rightarrow> 'm pool \<Rightarrow> pool_action \<Rightarrow> 'm pool option" where
  "pool_step L E num p (Dispatch c) = Some (pool_dispatch c p)"
| "pool_step L E num p (Take i) = (case worker_at i p of K_wait \<Rightarrow> pool_take i p | _ \<Rightarrow> None)"
| "pool_step L E num p (Compute i now lt) =
     (case worker_at i p of K_task c \<Rightarrow> Some (pool_compute L E num i now lt c p) | _ \<Rightarrow> None)"
| "pool_step L E num p (Push i) = (case worker_at i p of K_push r n \<Rightarrow> Some (pool_push i r n p) | _ \<Rightarrow> None)"
| "pool_step L E num p Consume =
     (case dequeue (wp_results p) of
        (None, q) \<Rightarrow> Some (p\<lparr>wp_results := q\<rparr>)
      | (Some r, q) \<Rightarrow> Some (p\<lparr>wp_results := q, wp_taken := wp_taken p @ [r]\<rparr>))"
| "pool_step L E num p Stop_pool = Some (p\<lparr>wp_calc := six_dof_stop (wp_calc p)\<rparr>)"

inductive pool_reachable :: "'m reg_lib \<Rightarrow> 'm eigen \<Rightarrow> (real \<Rightarrow> string) \<Rightarrow> 'm pool \<Rightarrow> 'm pool \<Rightarrow> bool" for L E num p0 where
  pool_start: "pool_reachable L E num p0 p0"
| pool_move: "pool_reachable L E num p0 p \<Longrightarrow> pool_step L E num p a = Some p' \<Longrightarrow> pool_reachable L E num p0 p'"

fun pool_steps :: "'m reg_lib \<Rightarrow> 'm eigen \<Rightarrow> (real \<Rightarrow> string) \<Rightarrow> 'm pool \<Rightarrow> pool_action list \<Rightarrow> 'm pool option" where
  "pool_steps L E num p [] = Some p"
| "pool_steps L E num p (a # as) = (case pool_step L E num p a of None \<Rightarrow> None | Some p' \<Rightarrow> pool_steps L E num p' as)"

text \<open>A pool as the constructor leaves it, with \<open>n\<close> workers.\<close>

definition pool_fresh :: "nat \<Rightarrow> 'm pool \<Rightarrow> bool" where
  "pool_fresh n p \<longleftrightarrow> wp_workers p = replicate n K_wait \<and> sx_tasks (wp_calc p) = [] \<and> rq_wf (wp_results p)
     \<and> rq_list (wp_results p) = [] \<and> wp_dispatched p = [] \<and> wp_dropped p = [] \<and> wp_computed p = []
     \<and> wp_queued p = [] \<and> wp_taken p = [] \<and> wp_lost p = []"

section \<open>Nothing is lost or computed twice\<close>

fun held :: "worker_pc \<Rightarrow> fused_cloud multiset" where
  "held (K_task c) = {#c#}"
| "held _ = {#}"

fun carried :: "worker_pc \<Rightarrow> six_dof_result multiset" where
  "carried (K_push r _) = {#r#}"
| "carried _ = {#}"

definition all_held :: "'m pool \<Rightarrow> fused_cloud multiset" where
  "all_held p = (\<Sum>w\<in>#mset (wp_workers p). held w)"

definition all_carried :: "'m pool \<Rightarrow> six_dof_result multiset" where
  "all_carried p = (\<Sum>w\<in>#mset (wp_workers p). carried w)"

definition retry_ok :: "worker_pc \<Rightarrow> bool" where
  "retry_ok w \<longleftrightarrow> (case w of K_push r n \<Rightarrow> n \<le> MAX_RETRY_QUEUE | _ \<Rightarrow> True)"

definition pool_inv :: "nat \<Rightarrow> 'm pool \<Rightarrow> bool" where
  "pool_inv n p \<longleftrightarrow> length (wp_workers p) = n \<and> length (sx_tasks (wp_calc p)) \<le> 30 \<and> rq_wf (wp_results p)
     \<and> list_all retry_ok (wp_workers p)
     \<and> mset (wp_dispatched p) = mset (wp_dropped p) + mset (sx_tasks (wp_calc p)) + all_held p + mset (map fst (wp_computed p))
     \<and> mset (map snd (wp_computed p)) = all_carried p + mset (wp_queued p) + mset (wp_lost p)
     \<and> wp_queued p = wp_taken p @ rq_list (wp_results p)
     \<and> (\<forall>(c, r)\<in>set (wp_computed p). sd_timestamp r = fu_timestamp c)"

lemma sum_update:
  fixes f :: "'a \<Rightarrow> 'b multiset"
  assumes "i < length ws"
  shows "(\<Sum>w\<in>#mset (ws[i := x]). f w) + f (ws ! i) = (\<Sum>w\<in>#mset ws. f w) + f x"
proof -
  obtain m where m: "mset ws = add_mset (ws ! i) m" using assms mset_add nth_mem_mset by metis
  then have "mset (ws[i := x]) = add_mset x m" using assms by (simp add: mset_update)
  then show ?thesis using m by simp
qed

lemma worker_update:
  assumes "worker_at i p = w" "w \<noteq> K_gone"
  shows "i < length (wp_workers p)" "wp_workers p ! i = w"
  using assms by (auto simp: worker_at_def split: if_splits)

lemma list_all_update: "list_all P xs \<Longrightarrow> P x \<Longrightarrow> list_all P (xs[i := x])"
  by (auto simp: list_all_iff dest: set_update_subset_insert [THEN subsetD])

lemma calculateSixDof_frame:
  "sd_timestamp (fst (calculateSixDof L E num lt now c s)) = fu_timestamp c"
  "sx_tasks (snd (calculateSixDof L E num lt now c s)) = sx_tasks s"
  "sx_pool_running (snd (calculateSixDof L E num lt now c s)) = sx_pool_running s"
  by (simp_all add: calculateSixDof_def Let_def split_beta update_base_def split: option.splits)

lemma dispatch_mset:
  "mset (dispatch c ts) + mset (if MAX_QUEUE_SIZE \<le> length ts then take 1 ts else []) = add_mset c (mset ts)"
  by (cases ts) (auto simp: dispatch_def MAX_QUEUE_SIZE_def)

lemma sum_workers:
  assumes "worker_at i p = w" "w \<noteq> K_gone"
  shows "all_held (p\<lparr>wp_workers := (wp_workers p)[i := x]\<rparr>) + held w = all_held p + held x"
    "all_carried (p\<lparr>wp_workers := (wp_workers p)[i := x]\<rparr>) + carried w = all_carried p + carried x"
  using sum_update [OF worker_update(1) [OF assms], of held x] sum_update [OF worker_update(1) [OF assms], of carried x]
    worker_update(2) [OF assms]
  by (simp_all add: all_held_def all_carried_def)

lemma all_held_cong: "wp_workers p = wp_workers q \<Longrightarrow> all_held p = all_held q"
  "wp_workers p = wp_workers q \<Longrightarrow> all_carried p = all_carried q"
  by (simp_all add: all_held_def all_carried_def)

lemma pool_dispatch_inv:
  assumes "pool_inv n p"
  shows "pool_inv n (pool_dispatch c p)"
proof -
  let ?ts = "sx_tasks (wp_calc p)" and ?drop = "\<lambda>ts. if MAX_QUEUE_SIZE \<le> length ts then take 1 ts else []"
  have "length (dispatch c ?ts) \<le> 30" using assms dispatch_subseq(2) by (simp add: pool_inv_def)
  moreover have "mset (wp_dispatched p) + {#c#}
      = (mset (wp_dropped p) + mset (?drop ?ts)) + mset (dispatch c ?ts) + all_held p + mset (map fst (wp_computed p))"
    using assms dispatch_mset [of c ?ts] by (simp add: pool_inv_def ac_simps)
  ultimately show ?thesis
    using assms all_held_cong [of "pool_dispatch c p" p] by (simp add: pool_inv_def pool_dispatch_def Let_def)
qed

lemma pool_take_inv:
  assumes "pool_inv n p" "worker_at i p = K_wait" "pool_take i p = Some p'"
  shows "pool_inv n p'"
proof (cases "sx_tasks (wp_calc p)")
  case Nil
  then have p': "p' = p\<lparr>wp_workers := (wp_workers p)[i := K_gone]\<rparr>"
    using assms(3) by (auto simp: pool_take_def worker_take_def split: if_splits)
  show ?thesis
    using assms(1) sum_workers [OF assms(2), of K_gone]
    by (simp add: p' pool_inv_def list_all_update retry_ok_def)
next
  case (Cons c rest)
  then have p': "p' = (p\<lparr>wp_workers := (wp_workers p)[i := K_task c]\<rparr>)\<lparr>wp_calc := (wp_calc p)\<lparr>sx_tasks := rest\<rparr>\<rparr>"
    using assms(3) by (auto simp: pool_take_def worker_take_def)
  let ?p = "p\<lparr>wp_workers := (wp_workers p)[i := K_task c]\<rparr>"
  have "all_held p' = all_held p + {#c#}" "all_carried p' = all_carried p"
    using sum_workers [OF assms(2), of "K_task c"] all_held_cong [of p' ?p] by (simp_all add: p')
  then show ?thesis
    using assms(1) Cons by (simp add: p' pool_inv_def list_all_update retry_ok_def)
qed

lemma pool_compute_inv:
  assumes "pool_inv n p" "worker_at i p = K_task c"
  shows "pool_inv n (pool_compute L E num i now lt c p)"
proof -
  obtain r s where r: "calculateSixDof L E num lt now c (wp_calc p) = (r, s)" by force
  let ?q = "pool_compute L E num i now lt c p" and ?p = "p\<lparr>wp_workers := (wp_workers p)[i := K_push r 0]\<rparr>"
  have q: "?q = p\<lparr>wp_calc := s, wp_workers := (wp_workers p)[i := K_push r 0], wp_computed := wp_computed p @ [(c, r)]\<rparr>"
    by (simp add: pool_compute_def r)
  have "all_held ?q + {#c#} = all_held p" "all_carried ?q = all_carried p + {#r#}"
    using sum_workers [OF assms(2), of "K_push r 0"] all_held_cong [of ?q ?p] by (simp_all add: q)
  moreover have "sd_timestamp r = fu_timestamp c" "sx_tasks s = sx_tasks (wp_calc p)"
    using calculateSixDof_frame [of L E num lt now c "wp_calc p"] r by simp_all
  ultimately show ?thesis
    using assms(1) by (auto simp: q pool_inv_def list_all_update retry_ok_def ac_simps)
qed

lemma pool_push_inv:
  assumes "pool_inv n p" "worker_at i p = K_push r m"
  shows "pool_inv n (pool_push i r m p)"
proof -
  obtain ok q where e: "enqueue (wp_results p) r = (ok, q)" by force
  have wf: "rq_wf (wp_results p)" using assms(1) by (simp add: pool_inv_def)
  have q: "rq_wf q" "rq_list q = (if ok then rq_list (wp_results p) @ [r] else rq_list (wp_results p))"
    using rq.enq_invar [OF wf, of r] rq.enq_contents [OF wf, of r] rq.enq_accepts [OF wf, of r] e by simp_all
  have retry: "m \<le> MAX_RETRY_QUEUE"
    using assms worker_update [OF assms(2)] by (auto simp: pool_inv_def list_all_length retry_ok_def dest!: spec [of _ i])
  let ?w = "if ok then K_wait else if m < MAX_RETRY_QUEUE then K_push r (m + 1) else K_wait"
  let ?p = "p\<lparr>wp_workers := (wp_workers p)[i := ?w]\<rparr>" and ?q = "pool_push i r m p"
  have held: "all_held ?q = all_held p" "all_carried ?q + {#r#} = all_carried p + carried ?w"
    using sum_workers [OF assms(2), of ?w] all_held_cong [of ?q ?p] by (auto simp: pool_push_def e)
  have "list_all retry_ok ((wp_workers p)[i := ?w])"
    using assms(1) retry by (auto simp: pool_inv_def retry_ok_def intro!: list_all_update)
  then show ?thesis
    using assms(1) q held by (cases ok; cases "m < MAX_RETRY_QUEUE") (auto simp: pool_push_def e pool_inv_def)
qed

lemma pool_step_inv:
  assumes "pool_step L E num p a = Some p'" "pool_inv n p"
  shows "pool_inv n p'"
proof (cases a)
  case (Dispatch c)
  then show ?thesis using assms pool_dispatch_inv by auto
next
  case (Take i)
  then show ?thesis using assms pool_take_inv by (auto split: worker_pc.splits)
next
  case (Compute i now lt)
  then show ?thesis using assms pool_compute_inv by (auto split: worker_pc.splits)
next
  case (Push i)
  then show ?thesis using assms pool_push_inv by (auto split: worker_pc.splits)
next
  case Consume
  obtain x q where d: "dequeue (wp_results p) = (x, q)" by force
  have wf: "rq_wf (wp_results p)" using assms(2) by (simp add: pool_inv_def)
  have "rq_wf q" "rq_list (wp_results p) = (case x of None \<Rightarrow> [] | Some r \<Rightarrow> [r]) @ rq_list q"
    using rq.deq_invar [OF wf] rq.deq_contents [OF wf] rq.deq_result [OF wf] d
    by (cases "rq_list (wp_results p)"; simp)+
  then show ?thesis
    using assms Consume d all_held_cong [of p' p] by (cases x) (auto simp: pool_inv_def)
next
  case Stop_pool
  then show ?thesis using assms all_held_cong [of p' p] by (auto simp: pool_inv_def six_dof_stop_def)
qed

lemma pool_fresh_inv: "pool_fresh n p \<Longrightarrow> pool_inv n p"
  by (simp add: pool_fresh_def pool_inv_def all_held_def all_carried_def retry_ok_def list_all_length)

lemma pool_reachable_inv: "pool_reachable L E num p0 p \<Longrightarrow> pool_fresh n p0 \<Longrightarrow> pool_inv n p"
  by (induction rule: pool_reachable.induct) (auto intro: pool_step_inv pool_fresh_inv)


section \<open>Stopping the pool\<close>

fun worker_action :: "pool_action \<Rightarrow> bool" where
  "worker_action (Take _) = True"
| "worker_action (Compute _ _ _) = True"
| "worker_action (Push _) = True"
| "worker_action _ = False"

text \<open>How many steps a worker can still make, not counting further tasks.\<close>

fun weight :: "worker_pc \<Rightarrow> nat" where
  "weight K_gone = 0"
| "weight K_wait = 1"
| "weight (K_push r n) = 2 + (MAX_RETRY_QUEUE - n)"
| "weight (K_task c) = 8"

definition pool_weight :: "'m pool \<Rightarrow> nat" where
  "pool_weight p = 8 * length (sx_tasks (wp_calc p)) + sum_list (map weight (wp_workers p))"

lemma weight_update:
  assumes "worker_at i p = w" "w \<noteq> K_gone"
  shows "sum_list (map weight ((wp_workers p)[i := x])) + weight w = sum_list (map weight (wp_workers p)) + weight x"
proof -
  note w = worker_update [OF assms]
  have "weight (wp_workers p ! i) \<le> sum_list (map weight (wp_workers p))"
    using w(1) by (intro member_le_sum_list) auto
  then show ?thesis using w by (simp add: map_update sum_list_update)
qed

lemma worker_step_weight:
  assumes "pool_step L E num p a = Some p'" "worker_action a"
  shows "pool_weight p' < pool_weight p"
proof -
  note u = weight_update
  show ?thesis
  proof (cases a)
    case (Take i)
    then have w: "worker_at i p = K_wait" "pool_take i p = Some p'" using assms(1) by (auto split: worker_pc.splits)
    show ?thesis
      using w(2) u [OF w(1), of K_gone] u [OF w(1), of "K_task (hd (sx_tasks (wp_calc p)))"]
      by (cases "sx_tasks (wp_calc p)") (auto simp: pool_take_def worker_take_def pool_weight_def split: if_splits)
  next
    case (Compute i now lt)
    then obtain c where w: "worker_at i p = K_task c" "p' = pool_compute L E num i now lt c p"
      using assms(1) by (auto split: worker_pc.splits)
    obtain r s where r: "calculateSixDof L E num lt now c (wp_calc p) = (r, s)" by force
    have "sx_tasks s = sx_tasks (wp_calc p)" using calculateSixDof_frame(2) [of L E num lt now c "wp_calc p"] r by simp
    then show ?thesis using u [OF w(1), of "K_push r 0"] by (simp add: w(2) pool_compute_def r pool_weight_def MAX_RETRY_QUEUE_def)
  next
    case (Push i)
    then obtain r m where w: "worker_at i p = K_push r m" "p' = pool_push i r m p" using assms(1) by (auto split: worker_pc.splits)
    obtain ok q where "enqueue (wp_results p) r = (ok, q)" by force
    then show ?thesis
      using u [OF w(1), of K_wait] u [OF w(1), of "K_push r (m + 1)"]
      by (auto simp: w(2) pool_push_def pool_weight_def)
  qed (use assms(2) in simp_all)
qed

lemma worker_steps_bounded:
  "pool_steps L E num p as = Some p' \<Longrightarrow> list_all worker_action as \<Longrightarrow> length as + pool_weight p' \<le> pool_weight p"
proof (induction as arbitrary: p)
  case (Cons a as)
  then obtain q where q: "pool_step L E num p a = Some q" "pool_steps L E num q as = Some p'"
    by (auto split: option.splits)
  show ?case using Cons.IH [OF q(2)] worker_step_weight [OF q(1)] Cons.prems(2) by simp
qed simp

text \<open>A worker that has not returned can always make a step once the pool is stopped.\<close>

lemma worker_enabled:
  assumes "\<not> sx_pool_running (wp_calc p)" "worker_at i p \<noteq> K_gone"
  shows "\<exists>a p'. worker_action a \<and> pool_step L E num p a = Some p'"
proof (cases "worker_at i p")
  case K_wait
  then have "\<exists>p'. pool_step L E num p (Take i) = Some p'"
    using assms(1) by (cases "sx_tasks (wp_calc p)") (simp_all add: pool_take_def worker_take_def)
  then show ?thesis using worker_action.simps(1) by blast
next
  case (K_task c)
  then have "pool_step L E num p (Compute i 0 []) = Some (pool_compute L E num i 0 [] c p)" by simp
  then show ?thesis using worker_action.simps(2) by blast
next
  case (K_push r m)
  then have "pool_step L E num p (Push i) = Some (pool_push i r m p)" by simp
  then show ?thesis using worker_action.simps(3) by blast
next
  case K_gone
  then show ?thesis using assms(2) by simp
qed

text \<open>While the pool is stopped, a worker that has returned has left no task behind.\<close>

definition drained :: "'m pool \<Rightarrow> bool" where
  "drained p \<longleftrightarrow> \<not> sx_pool_running (wp_calc p) \<and> (K_gone \<in> set (wp_workers p) \<longrightarrow> sx_tasks (wp_calc p) = [])"

lemma gone_update: "K_gone \<in> set (ws[i := x]) \<Longrightarrow> x \<noteq> K_gone \<Longrightarrow> K_gone \<in> set ws"
  using set_update_subset_insert by fastforce

lemma worker_step_drained:
  assumes "pool_step L E num p a = Some p'" "worker_action a" "drained p"
  shows "drained p' \<and> length (wp_workers p') = length (wp_workers p)"
proof (cases a)
  case (Take i)
  then have w: "pool_take i p = Some p'" using assms(1) by (auto split: worker_pc.splits)
  then show ?thesis
    using assms(3) gone_update [of "wp_workers p" i "K_task (hd (sx_tasks (wp_calc p)))"]
    by (cases "sx_tasks (wp_calc p)") (auto simp: pool_take_def worker_take_def drained_def split: if_splits)
next
  case (Compute i now lt)
  then obtain c where w: "p' = pool_compute L E num i now lt c p" using assms(1) by (auto split: worker_pc.splits)
  obtain r s where r: "calculateSixDof L E num lt now c (wp_calc p) = (r, s)" by force
  have "sx_tasks s = sx_tasks (wp_calc p)" "sx_pool_running s = sx_pool_running (wp_calc p)"
    using calculateSixDof_frame(2,3) [of L E num lt now c "wp_calc p"] r by simp_all
  then show ?thesis using assms(3) gone_update [of "wp_workers p" i "K_push r 0"] by (auto simp: w pool_compute_def r drained_def)
next
  case (Push i)
  then obtain r m where w: "p' = pool_push i r m p" using assms(1) by (auto split: worker_pc.splits)
  obtain ok q where "enqueue (wp_results p) r = (ok, q)" by force
  then show ?thesis using assms(3) gone_update [of "wp_workers p" i] by (auto simp: w pool_push_def drained_def)
qed (use assms(2) in simp_all)

lemma pool_finishes:
  "drained p \<Longrightarrow> \<exists>as p'. pool_steps L E num p as = Some p' \<and> list_all worker_action as
     \<and> (\<forall>w\<in>set (wp_workers p'). w = K_gone) \<and> drained p' \<and> length (wp_workers p') = length (wp_workers p)"
proof (induction "pool_weight p" arbitrary: p rule: less_induct)
  case less
  show ?case
  proof (cases "\<forall>w\<in>set (wp_workers p). w = K_gone")
    case True
    then show ?thesis using less.prems by (intro exI [of _ "[]"] exI [of _ p]) simp
  next
    case False
    then obtain i where "i < length (wp_workers p)" "wp_workers p ! i \<noteq> K_gone" by (auto simp: in_set_conv_nth)
    then have "worker_at i p \<noteq> K_gone" by (simp add: worker_at_def)
    then obtain a q where a: "worker_action a" "pool_step L E num p a = Some q"
      using worker_enabled less.prems by (metis drained_def)
    note d = worker_step_drained [OF a(2,1) less.prems]
    obtain as p' where "pool_steps L E num q as = Some p'" "list_all worker_action as"
      "\<forall>w\<in>set (wp_workers p'). w = K_gone" "drained p'" "length (wp_workers p') = length (wp_workers q)"
      using less.hyps [OF worker_step_weight [OF a(2,1)]] d by blast
    then show ?thesis using a d by (intro exI [of _ "a # as"] exI [of _ p']) simp
  qed
qed

lemma pool_weight_bound:
  assumes "pool_inv n p" shows "pool_weight p \<le> 8 * (30 + n)"
proof -
  have "sum_list (map weight ws) \<le> 8 * length ws" if "list_all retry_ok ws" for ws
    using that
  proof (induction ws)
    case (Cons w ws)
    moreover have "weight w \<le> 8" by (cases w) (simp_all add: MAX_RETRY_QUEUE_def)
    ultimately show ?case by simp
  qed simp
  then have "sum_list (map weight (wp_workers p)) \<le> 8 * n" using assms by (auto simp: pool_inv_def)
  then show ?thesis using assms by (simp add: pool_weight_def pool_inv_def)
qed

text \<open>
  C19: stopping the pool drains it. In every reachable state in which the pool has been stopped and
  no worker has returned yet, the workers can go on until all of them have returned, and then
  the task queue is empty: \<open>stop\<close> waits for all queued frames to be computed. No schedule of the
  workers is longer than eight steps for each of the thirty tasks and each worker, whatever
  the registration returns and even if the consumer takes nothing more.
\<close>

theorem pool_drains:
  assumes "pool_fresh n p0" "pool_reachable L E num p0 p" "0 < n" "\<not> sx_pool_running (wp_calc p)" "K_gone \<notin> set (wp_workers p)"
  shows "(\<exists>as p'. pool_steps L E num p as = Some p' \<and> list_all worker_action as
            \<and> wp_workers p' = replicate n K_gone \<and> sx_tasks (wp_calc p') = [])
     \<and> (pool_steps L E num p as = Some p' \<and> list_all worker_action as \<longrightarrow> length as \<le> 8 * (30 + n))"
proof (intro conjI impI)
  have inv: "pool_inv n p" by (rule pool_reachable_inv [OF assms(2,1)])
  show "length as \<le> 8 * (30 + n)" if "pool_steps L E num p as = Some p' \<and> list_all worker_action as"
    using worker_steps_bounded [of L E num p as p'] that pool_weight_bound [OF inv] by simp
  have "drained p" using assms(4,5) by (simp add: drained_def)
  from pool_finishes [OF this, of L E num] obtain as p' where
    r: "pool_steps L E num p as = Some p'" "list_all worker_action as" "\<forall>w\<in>set (wp_workers p'). w = K_gone"
      "drained p'" "length (wp_workers p') = n" using inv by (auto simp: pool_inv_def)
  then have all: "wp_workers p' = replicate n K_gone" by (metis replicate_eqI)
  then show "\<exists>as p'. pool_steps L E num p as = Some p' \<and> list_all worker_action as
      \<and> wp_workers p' = replicate n K_gone \<and> sx_tasks (wp_calc p') = []"
    using r assms(3) by (intro exI [of _ as] exI [of _ p']) (auto simp: drained_def)
qed

section \<open>Two workers\<close>

definition sample_pool :: "nat \<Rightarrow> motion pool" where
  "sample_pool n = \<lparr>wp_calc = sample_dof None, wp_workers = replicate n K_wait,
     wp_results = ring4 (fst (calculateSixDof still_lib motion_eigen (\<lambda>_. []) [] 0 (single (frame_at 0)) (sample_dof None))),
     wp_dispatched = [], wp_dropped = [], wp_computed = [], wp_queued = [], wp_taken = [], wp_lost = []\<rparr>"

lemma sample_pool_fresh: "pool_fresh n (sample_pool n)"
  by (simp add: pool_fresh_def sample_pool_def sample_dof_def ring4_wf)

lemma pool_steps_reachable: "pool_steps L E num p as = Some p' \<Longrightarrow> pool_reachable L E num p0 p \<Longrightarrow> pool_reachable L E num p0 p'"
  by (induction as arbitrary: p) (auto split: option.splits intro: pool_move)

lemmas pool_eval = sample_pool_def sample_dof_def pool_dispatch_def dispatch_def MAX_QUEUE_SIZE_def worker_at_def
  pool_take_def worker_take_def pool_compute_def pool_push_def enqueue_def dequeue_def next_index_def ring4_def


theorem pool_drains_witness:
  "\<exists>p. pool_steps still_lib motion_eigen (\<lambda>_. []) (sample_pool 2) [Dispatch (single (frame_at 1)), Stop_pool] = Some p
     \<and> sx_tasks (wp_calc p) = [single (frame_at 1)]
     \<and> (\<exists>as p'. pool_steps still_lib motion_eigen (\<lambda>_. []) p as = Some p' \<and> wp_workers p' = [K_gone, K_gone]
          \<and> sx_tasks (wp_calc p') = [])"
proof -
  let ?as = "[Dispatch (single (frame_at 1)), Stop_pool]"
  have "\<exists>p. pool_steps still_lib motion_eigen (\<lambda>_. []) (sample_pool 2) ?as = Some p
      \<and> sx_tasks (wp_calc p) = [single (frame_at 1)] \<and> \<not> sx_pool_running (wp_calc p) \<and> K_gone \<notin> set (wp_workers p)"
    by (simp add: pool_eval six_dof_stop_def eval_nat_numeral)
  then obtain p where p: "pool_steps still_lib motion_eigen (\<lambda>_. []) (sample_pool 2) ?as = Some p"
    "sx_tasks (wp_calc p) = [single (frame_at 1)]" "\<not> sx_pool_running (wp_calc p)" "K_gone \<notin> set (wp_workers p)" by blast
  from pool_drains [OF sample_pool_fresh pool_steps_reachable [OF p(1) pool_start] _ p(3,4), of "[]" p] p(1,2)
  show ?thesis by (auto simp: numeral_2_eq_2)
qed

text \<open>
  C37: the pool does not keep the order of frames. With only two of its six workers, a run
  exists in which the results of two frames dispatched in the order of their time stamps reach
  the consumer in the opposite order, with nothing dropped and nothing lost: the worker with the
  later frame gets \<open>base_mtx_\<close> first. The outputter's histories and its second differences
  take the results as they come.
\<close>

theorem pool_reorders:
  "\<exists>as p. pool_steps still_lib motion_eigen (\<lambda>_. []) (sample_pool 2) as = Some p
     \<and> map fu_timestamp (wp_dispatched p) = [1, 2] \<and> map sd_timestamp (wp_taken p) = [2, 1]
     \<and> wp_dropped p = [] \<and> wp_lost p = []"
proof -
  let ?run = "\<lambda>c s. calculateSixDof still_lib motion_eigen (\<lambda>_. []) [] 0 c s"
  obtain r2 s2 where r2: "?run (single (frame_at 2)) (sample_dof None) = (r2, s2)" by force
  obtain r1 s1 where r1: "?run (single (frame_at 1)) s2 = (r1, s1)" by force
  have fu: "fu_timestamp (single (frame_at t)) = t" for t by (simp add: single_def frame_at_def)
  have two: "replicate 2 K_wait = [K_wait, K_wait]" by (simp add: numeral_2_eq_2)
  have t: "sd_timestamp r2 = 2" "sd_timestamp r1 = 1"
    using calculateSixDof_frame(1) [of still_lib motion_eigen "\<lambda>_. []" "[]" 0 "single (frame_at 2)" "sample_dof None"]
      calculateSixDof_frame(1) [of still_lib motion_eigen "\<lambda>_. []" "[]" 0 "single (frame_at 1)" s2] r1 r2
    by (simp_all add: fu)
  show ?thesis
    using t fu r1 r2 [unfolded sample_dof_def]
    by (intro exI [of _ "[Dispatch (single (frame_at 1)), Dispatch (single (frame_at 2)), Take 0, Take 1, Compute 1 0 [],
          Compute 0 0 [], Push 1, Push 0, Consume, Consume]"])
      (simp add: pool_eval two Let_def)
qed

end
