(* ===== verification/Pipeline.thy ===== *)
theory Pipeline
  imports Acquirer Data_Output Worker_Pool
begin

text \<open>
  The four stages of the program as one machine: the queues between them, the members of each
  stage, the state manager through which errors reach the outputter. A step is one pass of
  one of the loops, as the component theories define it: the enqueue attempt of a lidar thread,
  one pass of the fuser, of the dispatcher, of a worker of the pool, of the output, solve and
  MQTT threads. What a waiting producer's consumer takes meanwhile goes where the consumer's own
  pass would have put it. A worker's computation and push count as one step; the theory
  \<open>Worker_Pool\<close> has the pool with these apart.
\<close>

section \<open>State and steps\<close>

text \<open>The libraries and the formatting functions the passes use.\<close>

record 'm libs =
  lb_transform :: "'m \<Rightarrow> cloud \<Rightarrow> cloud"
  lb_reg :: "'m reg_lib"
  lb_eigen :: "'m eigen"
  lb_num :: "real \<Rightarrow> string"
  lb_cal :: "nat \<Rightarrow> string"
  lb_mqtt :: "mqtt_message \<Rightarrow> int"
  lb_dump :: "json \<Rightarrow> string"
  lb_fixed2 :: "real \<Rightarrow> string"

record 'm pipe =
  pp_frameA :: raw_cloud      \<comment> \<open>what the lidar threads enqueue\<close>
  pp_frameB :: raw_cloud
  pp_queueA :: "raw_cloud ring_queue"
  pp_queueB :: "raw_cloud ring_queue"
  pp_fuser :: "'m fuser"
  pp_fused :: "fused_cloud ring_queue"
  pp_calc :: "'m six_dof"
  pp_results :: "six_dof_result ring_queue"
  pp_manager :: "outputter state_manager"
  pp_out :: outputter

datatype pipe_action =
    Radar_A | Radar_B
  | Fuse_pass u64 "(bool \<times> nat) list list"
  | Calc_pass
  | Worker_pass int string "nat \<Rightarrow> nat"
  | Output_pass | Solve_pass | Mqtt_pass

text \<open>The reports of the fuser (the text is rendered in English).\<close>

fun fuse_report :: "u64 \<Rightarrow> fuse_event \<Rightarrow> sm_call list" where
  "fuse_report now Stale_A = [Report now FUSER STATUS_WARNING ''lidar time stamps do not match'']"
| "fuse_report now Stale_B = [Report now FUSER STATUS_WARNING ''lidar time stamps do not match'']"
| "fuse_report now _ = []"

definition dispatch_all :: "fused_cloud list \<Rightarrow> 'm six_dof \<Rightarrow> 'm six_dof" where
  "dispatch_all cs s = s\<lparr>sx_tasks := foldl (\<lambda>ts c. dispatch c ts) (sx_tasks s) cs\<rparr>"

fun deliver :: "six_dof_result list \<Rightarrow> outputter \<Rightarrow> outputter option" where
  "deliver [] s = Some s"
| "deliver (r # rs) s =
     (case pushRealTimeData r (snd (writeToDatabase r s)) of None \<Rightarrow> None | Some (ok, s') \<Rightarrow> deliver rs s')"

definition fuse_step :: "'m libs \<Rightarrow> u64 \<Rightarrow> (bool \<times> nat) list list \<Rightarrow> 'm pipe \<Rightarrow> 'm pipe option" where
  "fuse_step B now ws p =
     (case fuse_iteration (lb_transform B) (pp_fuser p,
             \<lparr>fe_queueA = pp_queueA p, fe_queueB = pp_queueB p,
              fe_out = \<lparr>os_queue = pp_fused p, os_taken = [], os_waits = ws, os_events = []\<rparr>\<rparr>) of
        None \<Rightarrow> None
      | Some (f, e) \<Rightarrow>
          (let (m, out) = sm_run (pp_manager p, pp_out p) (concat (map (fuse_report now) (os_events (fe_out e))))
           in Some (p\<lparr>pp_queueA := fe_queueA e, pp_queueB := fe_queueB e, pp_fuser := f,
                      pp_fused := os_queue (fe_out e), pp_calc := dispatch_all (os_taken (fe_out e)) (pp_calc p),
                      pp_manager := m, pp_out := out\<rparr>)))"

text \<open>The output loop has ended after a fatal error: then nobody empties the result queue.\<close>

definition worker_step_of :: "'m libs \<Rightarrow> int \<Rightarrow> string \<Rightarrow> (nat \<Rightarrow> nat) \<Rightarrow> 'm pipe \<Rightarrow> 'm pipe option" where
  "worker_step_of B now local_time taken p =
     (case worker_take (pp_calc p) of
        (Worker_takes c, s1) \<Rightarrow>
          (let (r, s2) = calculateSixDof (lb_reg B) (lb_eigen B) (lb_num B) local_time now c s1;
               drain = (if sm_state (pp_manager p) = FATAL_ERROR then (\<lambda>_. 0) else taken);
               (ok, err, ds, q) = push_result 0 drain (pp_results p) r
           in map_option (\<lambda>out. p\<lparr>pp_calc := s2, pp_results := q, pp_out := out\<rparr>) (deliver ds (pp_out p)))
      | (_, s1) \<Rightarrow> Some (p\<lparr>pp_calc := s1\<rparr>))"

fun pipe_step :: "'m libs \<Rightarrow> 'm pipe \<Rightarrow> pipe_action \<Rightarrow> 'm pipe option" where
  "pipe_step B p Radar_A = Some (p\<lparr>pp_queueA := snd (enqueue (pp_queueA p) (pp_frameA p))\<rparr>)"
| "pipe_step B p Radar_B = Some (p\<lparr>pp_queueB := snd (enqueue (pp_queueB p) (pp_frameB p))\<rparr>)"
| "pipe_step B p (Fuse_pass now ws) = fuse_step B now ws p"
| "pipe_step B p Calc_pass =
     (case calc_iteration (pp_fused p, pp_calc p) of (q, s) \<Rightarrow> Some (p\<lparr>pp_fused := q, pp_calc := s\<rparr>))"
| "pipe_step B p (Worker_pass now local_time taken) = worker_step_of B now local_time taken p"
| "pipe_step B p Output_pass =
     map_option (\<lambda>(_, q, out). p\<lparr>pp_results := q, pp_out := out\<rparr>)
       (output_pass (sm_state (pp_manager p)) (pp_results p, pp_out p))"
| "pipe_step B p Solve_pass =
     map_option (\<lambda>out. p\<lparr>pp_out := out\<rparr>) (solve_pass (lb_eigen B) (lb_cal B) (pp_out p))"
| "pipe_step B p Mqtt_pass = Some (p\<lparr>pp_out := mqtt_pass (lb_mqtt B) (lb_dump B) (lb_fixed2 B) (pp_out p)\<rparr>)"

inductive pipe_reachable :: "'m libs \<Rightarrow> 'm pipe \<Rightarrow> 'm pipe \<Rightarrow> bool" for B p0 where
  pipe_start: "pipe_reachable B p0 p0"
| pipe_move: "pipe_reachable B p0 p \<Longrightarrow> pipe_step B p a = Some p' \<Longrightarrow> pipe_reachable B p0 p'"

section \<open>Queues whose items all satisfy a predicate\<close>

definition all_q :: "('a \<Rightarrow> bool) \<Rightarrow> 'a ring_queue \<Rightarrow> bool" where
  "all_q P q \<longleftrightarrow> rq_wf q \<and> list_all P (rq_list q)"

lemma all_q_enqueue: "all_q P q \<Longrightarrow> P x \<Longrightarrow> all_q P (snd (enqueue q x))"
  by (simp add: all_q_def rq.enq_invar rq.enq_contents)

lemma all_q_dequeue:
  assumes "all_q P q" "dequeue q = (x, q')"
  shows "all_q P q' \<and> pred_option P x"
  using assms rq.deq_result [of q] rq.deq_contents [of q] rq.deq_invar [of q]
  by (cases "rq_list q") (auto simp: all_q_def)

lemma all_q_split: "ds @ rq_list q' = rq_list q @ zs \<Longrightarrow> rq_wf q' \<Longrightarrow> all_q P q \<Longrightarrow> list_all P zs \<Longrightarrow> all_q P q' \<and> list_all P ds"
  by (metis all_q_def list_all_append)

lemma all_q_drop_old:
  assumes "all_q P q" "P x" "0 < unat max_size" "enqueueWithDropOld max_size q x = Some (ok, n, q')"
  shows "all_q P q'"
proof -
  have wf: "rq_wf q" using assms(1) by (simp add: all_q_def)
  show ?thesis
  proof (rule enqueueWithDropOld_run [OF wf assms(3), of x])
    fix q1 assume q1: "rq_wf q1" "rq_list q1 = last_n (unat max_size - 1) (rq_list q)"
      "enqueueWithDropOld max_size q x
        = Some (length (rq_list q1) < rq_cap q - 1, length (rq_list q) - (unat max_size - 1), snd (enqueue q1 x))"
    have "all_q P q1"
      using assms(1) q1(1,2) set_last_n_subset [of "unat max_size - 1" "rq_list q"]
      by (auto simp: all_q_def list_all_iff)
    then show ?thesis using q1(3) assms(2,4) all_q_enqueue by auto
  qed
qed

section \<open>The fuser keeps predicates\<close>

definition all_os :: "(fused_cloud \<Rightarrow> bool) \<Rightarrow> out_side \<Rightarrow> bool" where
  "all_os Q os \<longleftrightarrow> all_q Q (os_queue os) \<and> list_all Q (os_taken os)"

lemma all_os_note [simp]: "all_os Q (note_event es os) = all_os Q os"
  by (simp add: all_os_def note_event_def)

lemma push_out_all:
  assumes "push_out x os = Some os'" "all_os Q os" "Q x"
  shows "all_os Q os'"
proof -
  obtain ok ds q w where r: "enq_retry enqueue dequeue (os_queue os) x w = Some (ok, ds, q)"
    and os': "os' = os\<lparr>os_queue := q, os_taken := os_taken os @ ds, os_waits := tl (os_waits os)\<rparr>"
    using assms(1) by (auto simp: push_out_def)
  have "rq_wf (os_queue os)" using assms(2) by (simp add: all_os_def all_q_def)
  from rq.enq_retry_fifo [OF this r]
  have "all_q Q q \<and> list_all Q ds"
    using all_q_split [of ds q "os_queue os" "if ok then [x] else []" Q] assms(2,3) by (auto simp: all_os_def)
  then show ?thesis using assms(2) by (simp add: os' all_os_def)
qed

lemma match_loop_all:
  assumes "match_loop tr f m as bs os = Some (m', as', bs', os')" "list_all P as" "list_all P bs" "all_os Q os"
    "\<And>a b. P a \<Longrightarrow> P b \<Longrightarrow> Q (fst (fuse tr f a b))"
  shows "list_all P as' \<and> list_all P bs' \<and> all_os Q os'"
  using assms
proof (induction tr f m as bs os rule: match_loop.induct)
  case (1 tr f m a as b bs os)
  consider (near) "diff_ns a b < MATCH_NS" | (older) "\<not> diff_ns a b < MATCH_NS" "raw_timestamp a < raw_timestamp b"
    | (newer) "\<not> diff_ns a b < MATCH_NS" "\<not> raw_timestamp a < raw_timestamp b" by blast
  then show ?case
  proof cases
    case near
    obtain x ev where x: "fuse tr f a b = (x, ev)" by force
    obtain os1 where os1: "push_out x (note_event ev os) = Some os1" "match_loop tr f True as bs os1 = Some (m', as', bs', os')"
      using "1.prems"(1) near x by (auto split: option.splits)
    have "Q x" using "1.prems"(5) [of a b] x "1.prems"(2,3) by simp
    then have "all_os Q os1" using push_out_all [OF os1(1)] "1.prems"(4) by simp
    then show ?thesis using "1.IH"(1) [OF near x [symmetric] os1(1,2)] "1.prems"(2,3,5) by simp
  next
    case older
    then show ?thesis using "1.IH"(2) "1.prems" by simp
  next
    case newer
    then show ?thesis using "1.IH"(3) "1.prems" by simp
  qed
qed auto

lemma single_step_all:
  assumes "single_step m own other os = Some (m', own', os')" "list_all P own" "all_os Q os" "\<And>a. P a \<Longrightarrow> Q (single a)"
  shows "list_all P own' \<and> all_os Q os'"
  using assms by (auto simp: single_step_def split: list.splits if_splits intro: push_out_all)

lemma trim_cache_all:
  "list_all P c \<Longrightarrow> trim_cache e c os = (c', os') \<Longrightarrow> list_all P c' \<and> (\<exists>es. os' = note_event es os)"
proof (induction e c os rule: trim_cache.induct)
  case (1 e os)
  then show ?case by (auto simp: note_event_def intro: exI [of _ "[]"])
next
  case (2 e x xs os)
  show ?case
  proof (cases "MAX_CACHE_FRAME < length (x # xs)")
    case True
    then show ?thesis using 2 by (auto simp: note_event_def)
  next
    case False
    then show ?thesis using 2 by (auto simp: note_event_def intro: exI [of _ "[]"])
  qed
qed

lemma pull_all:
  assumes "pull e q c os = (q', c', os')" "all_q P q" "list_all P c"
  shows "all_q P q' \<and> list_all P c' \<and> all_os Q os' = all_os Q os"
proof -
  obtain x q1 where d: "dequeue q = (x, q1)" by force
  note dq = all_q_dequeue [OF assms(2) d]
  show ?thesis
  proof (cases x)
    case None
    then show ?thesis using assms(1,3) d dq by (simp add: pull_def)
  next
    case (Some y)
    then have t: "trim_cache e (c @ [y]) os = (c', os')" "q' = q1" using assms(1) d by (simp_all add: pull_def)
    have "list_all P (c @ [y])" using dq Some assms(3) by simp
    from trim_cache_all [OF this t(1)] obtain es where "list_all P c'" "os' = note_event es os" by blast
    then show ?thesis using dq t(2) by simp
  qed
qed

lemma fuse_iteration_all:
  assumes "fuse_iteration tr (f, e) = Some (f', e')" "all_q P (fe_queueA e)" "all_q P (fe_queueB e)"
    "list_all P (fz_cacheA f)" "list_all P (fz_cacheB f)" "all_os Q (fe_out e)"
    "\<And>a b f. P a \<Longrightarrow> P b \<Longrightarrow> Q (fst (fuse tr f a b))" "\<And>a. P a \<Longrightarrow> Q (single a)"
  shows "all_q P (fe_queueA e') \<and> all_q P (fe_queueB e') \<and> list_all P (fz_cacheA f') \<and> list_all P (fz_cacheB f')
     \<and> all_os Q (fe_out e')"
proof -
  obtain qa ca os1 where a: "pull Cache_A_overflow (fe_queueA e) (fz_cacheA f) (fe_out e) = (qa, ca, os1)"
    using prod_cases3 by blast
  obtain qb cb os2 where b: "pull Cache_B_overflow (fe_queueB e) (fz_cacheB f) os1 = (qb, cb, os2)"
    using prod_cases3 by blast
  have A: "all_q P qa" "list_all P ca" "all_os Q os1" using pull_all [OF a assms(2,4), of Q] assms(6) by auto
  have B: "all_q P qb" "list_all P cb" "all_os Q os2" using pull_all [OF b assms(3,5), of Q] A(3) by auto
  let ?f = "f\<lparr>fz_cacheA := ca, fz_cacheB := cb\<rparr>"
  have m: "fuse_match tr (?f, \<lparr>fe_queueA = qa, fe_queueB = qb, fe_out = os2\<rparr>) = Some (f', e')"
    using assms(1) a b by (simp add: fuse_iteration_def)
  show ?thesis
  proof (cases "length ca \<le> FRAME_CACHE \<or> length cb \<le> FRAME_CACHE")
    case True
    then show ?thesis using m A B by (auto simp: fuse_match_def Let_def)
  next
    case False
    then obtain n ca1 cb1 os3 n1 ca2 os4 n2 cb2 os5 where
      st: "match_loop tr ?f False ca cb os2 = Some (n, ca1, cb1, os3)"
        "single_step n ca1 cb1 os3 = Some (n1, ca2, os4)" "single_step n1 cb1 ca2 os4 = Some (n2, cb2, os5)"
      and out: "f' = ?f\<lparr>fz_cacheA := ca2, fz_cacheB := cb2\<rparr>" "e' = \<lparr>fe_queueA = qa, fe_queueB = qb, fe_out = os5\<rparr>"
      using m by (auto simp: fuse_match_def Let_def split: option.splits)
    have M: "list_all P ca1" "list_all P cb1" "all_os Q os3"
      using match_loop_all [OF st(1) A(2) B(2,3)] assms(7) by auto
    have "list_all P ca2" "all_os Q os4" using single_step_all [OF st(2) M(1,3)] assms(8) by auto
    moreover from this have "list_all P cb2" "all_os Q os5" using single_step_all [OF st(3) M(2)] assms(8) by auto
    ultimately show ?thesis using A(1) B(1) out by simp
  qed
qed

section \<open>The fixed time stamp runs through the pipeline\<close>

definition frozen :: "(nat \<Rightarrow> string) \<Rightarrow> mqtt_ship_data \<Rightarrow> bool" where
  "frozen cal pkg \<longleftrightarrow> md_bow_acc pkg = (0, 0, 0) \<and> md_stern_acc pkg = (0, 0, 0) \<and> md_time_str pkg = cal 19999999"

definition sent_ok :: "'m libs \<Rightarrow> string \<times> json \<Rightarrow> bool" where
  "sent_ok B tj \<longleftrightarrow> (\<exists>pkg. frozen (lb_cal B) pkg \<and> snd tj = ship_json (lb_fixed2 B) pkg) \<or> (\<exists>e. snd tj = err_json e)"

definition out_ok :: "'m libs \<Rightarrow> outputter \<Rightarrow> bool" where
  "out_ok B s \<longleftrightarrow> all_q (\<lambda>r. sd_timestamp r = SOURCE_TS) (od_solve_queue s)
     \<and> list_all (\<lambda>h. sp_ts h = SOURCE_TS) (od_history s)
     \<and> all_q (frozen (lb_cal B)) (od_mqtt_queue s) \<and> list_all (sent_ok B) (od_sent s)"

definition pipe_ok :: "'m libs \<Rightarrow> 'm pipe \<Rightarrow> bool" where
  "pipe_ok B p \<longleftrightarrow> raw_timestamp (pp_frameA p) = SOURCE_TS \<and> raw_timestamp (pp_frameB p) = SOURCE_TS
     \<and> all_q (\<lambda>a. raw_timestamp a = SOURCE_TS) (pp_queueA p) \<and> all_q (\<lambda>a. raw_timestamp a = SOURCE_TS) (pp_queueB p)
     \<and> list_all (\<lambda>a. raw_timestamp a = SOURCE_TS) (fz_cacheA (pp_fuser p))
     \<and> list_all (\<lambda>a. raw_timestamp a = SOURCE_TS) (fz_cacheB (pp_fuser p))
     \<and> all_q (\<lambda>c. fu_timestamp c = SOURCE_TS) (pp_fused p)
     \<and> list_all (\<lambda>c. fu_timestamp c = SOURCE_TS) (sx_tasks (pp_calc p))
     \<and> all_q (\<lambda>r. sd_timestamp r = SOURCE_TS) (pp_results p)
     \<and> (\<exists>now_str. sm_push_callback (pp_manager p) = Some (push_callback now_str))
     \<and> sm_db_callback (pp_manager p) = Some db_callback
     \<and> out_ok B (pp_out p)"

lemma SOURCE_sec: "unat SOURCE_TS div 1000 = 19999999"
  by (simp add: SOURCE_TS_def)

lemma out_ok_overflow [simp]: "out_ok B (note_overflow name n low s) = out_ok B s"
  by (simp add: out_ok_def note_overflow_def)

lemma dispatch_all_tasks:
  "list_all P (sx_tasks s) \<Longrightarrow> list_all P cs \<Longrightarrow> list_all P (sx_tasks (dispatch_all cs s))"
proof -
  have "list_all P ts \<Longrightarrow> list_all P cs \<Longrightarrow> list_all P (foldl (\<lambda>ts c. dispatch c ts) ts cs)" for ts
  proof (induction cs arbitrary: ts)
    case (Cons c cs)
    have "list_all P (tl ts)" using Cons.prems(1) by (cases ts) simp_all
    then show ?case using Cons by (simp add: dispatch_def)
  qed simp
  then show "list_all P (sx_tasks s) \<Longrightarrow> list_all P cs \<Longrightarrow> list_all P (sx_tasks (dispatch_all cs s))"
    by (simp add: dispatch_all_def)
qed

lemma pushRealTimeData_ok:
  assumes "pushRealTimeData r s = Some (ok, s')" "out_ok B s" "sd_timestamp r = SOURCE_TS"
  shows "out_ok B s'"
proof -
  obtain n q where q: "enqueueWithDropOld SOLVE_MAX_QUEUE (od_solve_queue s) r = Some (ok, n, q)"
    and s': "s' = note_overflow ''solve'' n False (s\<lparr>od_solve_queue := q\<rparr>)"
    using assms(1) by (auto simp: pushRealTimeData_def split: option.splits)
  have "all_q (\<lambda>r. sd_timestamp r = SOURCE_TS) q"
    using all_q_drop_old [OF _ _ _ q] assms(2,3) by (simp add: out_ok_def SOLVE_MAX_QUEUE_def)
  then show ?thesis using assms(2) by (simp add: s') (simp add: out_ok_def)
qed

lemma deliver_ok:
  "deliver rs s = Some s' \<Longrightarrow> out_ok B s \<Longrightarrow> list_all (\<lambda>r. sd_timestamp r = SOURCE_TS) rs \<Longrightarrow> out_ok B s'"
  by (induction rs s rule: deliver.induct)
    (auto simp: writeToDatabase_def split: option.splits dest: pushRealTimeData_ok)

lemma push_callback_ok: "out_ok B s \<Longrightarrow> out_ok B (snd (push_callback now_str s err))"
  by (auto simp: push_callback_def pushRealTimeError_def Let_def out_ok_def note_overflow_def split: option.splits)

lemma sm_run_ok:
  assumes "sm_push_callback m = Some (push_callback now_str)" "sm_db_callback m = Some db_callback" "out_ok B s"
  shows "out_ok B (snd (sm_run (m, s) cs))"
proof -
  have "out_ok B (foldl (notify (Some (push_callback now_str)) (Some db_callback)) s es)" for es
    using assms(3)
    by (induction es arbitrary: s)
      (simp_all add: notify_def db_callback_def writeErrorToDatabase_def push_callback_ok Let_def)
  then show ?thesis using assms(1,2) by (simp add: sm_run_world)
qed

lemma getBowSternAcc_frozen:
  assumes "list_all (\<lambda>h. sp_ts h = t) h"
  shows "getBowSternAcc h = ((0, 0, 0), (0, 0, 0))"
proof (cases "length h < 3")
  case False
  then have "sp_ts (h ! 2) = t" "sp_ts (h ! 1) = t" using assms by (auto simp: list_all_length)
  then show ?thesis by (simp add: getBowSternAcc_def Let_def)
qed (simp add: getBowSternAcc_def)

lemma solve_pass_ok:
  assumes "solve_pass E (lb_cal B) s = Some s'" "out_ok B s"
  shows "out_ok B s'"
proof -
  obtain x q where d: "dequeue (od_solve_queue s) = (x, q)" by force
  have q: "all_q (\<lambda>r. sd_timestamp r = SOURCE_TS) q" "pred_option (\<lambda>r. sd_timestamp r = SOURCE_TS) x"
    using all_q_dequeue [OF _ d] assms(2) by (auto simp: out_ok_def)
  show ?thesis
  proof (cases x)
    case None
    then show ?thesis using assms q(1) d by (auto simp: solve_pass_def out_ok_def)
  next
    case (Some r)
    then have ts: "sd_timestamp r = SOURCE_TS" using q(2) by simp
    obtain h where h: "calcShipBowSternPos E r (od_history s) = Some h"
      using assms(1) d Some by (auto simp: solve_pass_def split: option.splits)
    have hist: "list_all (\<lambda>h. sp_ts h = SOURCE_TS) h"
      using h ts assms(2) set_last_n_subset
      by (fastforce simp: calcShipBowSternPos_def pushHistory_def trim_hist_last_n out_ok_def list_all_iff Let_def
          split: option.splits)
    obtain pkg ok n mq where pkg: "frozen (lb_cal B) pkg"
      and e: "enqueueWithDropOld MQTT_DATA_MAX_QUEUE (od_mqtt_queue s) pkg = Some (ok, n, mq)"
      and s': "s' = note_overflow ''mqtt_data'' n False (s\<lparr>od_solve_queue := q, od_history := h, od_mqtt_queue := mq\<rparr>)"
      using assms(1) d Some h getBowSternAcc_frozen [OF hist] ts
      by (auto simp: solve_pass_def Let_def SOURCE_sec split: option.splits intro!: that) (simp add: frozen_def)
    have "all_q (frozen (lb_cal B)) mq"
      using all_q_drop_old [OF _ _ _ e, of "frozen (lb_cal B)"] pkg assms(2) by (simp add: out_ok_def MQTT_DATA_MAX_QUEUE_def)
    then show ?thesis using q(1) hist assms(2) by (simp add: s') (simp add: out_ok_def)
  qed
qed

lemma send_ok: "out_ok B s \<Longrightarrow> sent_ok B (topic, j) \<Longrightarrow> out_ok B (send lib dump j topic s)"
  by (auto simp: send_def out_ok_def sent_ok_def split: option.splits prod.splits)

lemma mqtt_pass_ok:
  assumes "out_ok B s"
  shows "out_ok B (mqtt_pass lib dump (lb_fixed2 B) s)"
proof -
  obtain x q where d: "dequeue (od_mqtt_queue s) = (x, q)" by force
  have q: "all_q (frozen (lb_cal B)) q" "pred_option (frozen (lb_cal B)) x"
    using all_q_dequeue [OF _ d] assms by (auto simp: out_ok_def)
  have err: "out_ok B t \<Longrightarrow> out_ok B (t\<lparr>od_err_queue := r\<rparr>)" for t r by (simp add: out_ok_def)
  have ship: "frozen (lb_cal B) pkg \<Longrightarrow> sent_ok B (topic, buildJson (lb_fixed2 B) (md_berth_id pkg) (md_lidar_ip pkg) (md_time_str pkg)
      (md_sway pkg, md_surge pkg, md_heave pkg) (md_roll pkg, md_pitch pkg, md_yaw pkg) (md_bow_acc pkg) (md_stern_acc pkg))"
    for pkg topic by (auto simp: sent_ok_def ship_json_def)
  have device: "sent_ok B (topic, buildDeviceStatusJson (de_ip e) (de_time_str e) (de_err_code e))" 
    for e :: device_err_msg and topic
    unfolding sent_ok_def err_json_def snd_conv by blast
  have "out_ok B (s\<lparr>od_mqtt_queue := q\<rparr>)" using assms q(1) by (simp add: out_ok_def)
  then show ?thesis
    using q(2)
    by (cases x) (auto simp: mqtt_pass_def d Let_def split: option.splits prod.splits intro!: send_ok err ship device)
qed

lemma output_pass_ok:
  assumes "output_pass st (q, s) = Some (l, q', s')" "all_q (\<lambda>r. sd_timestamp r = SOURCE_TS) q" "out_ok B s"
  shows "all_q (\<lambda>r. sd_timestamp r = SOURCE_TS) q' \<and> out_ok B s'"
proof -
  obtain x q1 where d: "dequeue q = (x, q1)" by force
  note dq = all_q_dequeue [OF assms(2) d]
  show ?thesis
  proof (cases "st = FATAL_ERROR")
    case False
    then show ?thesis
      using assms(1,3) d dq
      by (cases x) (auto simp: output_pass_def writeToDatabase_def split: option.splits dest: pushRealTimeData_ok)
  qed (use assms in \<open>simp add: output_pass_def\<close>)
qed

lemma fuse_step_ok:
  assumes "fuse_step B now ws p = Some p'" "pipe_ok B p"
  shows "pipe_ok B p'"
proof -
  let ?e = "\<lparr>fe_queueA = pp_queueA p, fe_queueB = pp_queueB p,
              fe_out = \<lparr>os_queue = pp_fused p, os_taken = [], os_waits = ws, os_events = []\<rparr>\<rparr>"
  obtain f e where it: "fuse_iteration (lb_transform B) (pp_fuser p, ?e) = Some (f, e)"
    using assms(1) by (auto simp: fuse_step_def split: option.splits)
  let ?r = "sm_run (pp_manager p, pp_out p) (concat (map (fuse_report now) (os_events (fe_out e))))"
  have p': "p' = p\<lparr>pp_queueA := fe_queueA e, pp_queueB := fe_queueB e, pp_fuser := f,
      pp_fused := os_queue (fe_out e), pp_calc := dispatch_all (os_taken (fe_out e)) (pp_calc p),
      pp_manager := fst ?r, pp_out := snd ?r\<rparr>"
    using assms(1) it by (simp add: fuse_step_def Let_def split_beta)
  obtain now_str where m: "sm_push_callback (pp_manager p) = Some (push_callback now_str)"
      "sm_db_callback (pp_manager p) = Some db_callback" and out: "out_ok B (pp_out p)"
    using assms(2) by (auto simp: pipe_ok_def)
  have fu: "fu_timestamp (fst (fuse tr g a b)) = SOURCE_TS"
    if "raw_timestamp a = SOURCE_TS" "raw_timestamp b = SOURCE_TS" for tr a b and g :: "'a fuser"
    using that by (simp add: fuse_def Let_def)
  have si: "fu_timestamp (single a) = SOURCE_TS" if "raw_timestamp a = SOURCE_TS" for a
    using that by (simp add: single_def)
  have it2: "all_q (\<lambda>a. raw_timestamp a = SOURCE_TS) (fe_queueA e) \<and> all_q (\<lambda>a. raw_timestamp a = SOURCE_TS) (fe_queueB e)
    \<and> list_all (\<lambda>a. raw_timestamp a = SOURCE_TS) (fz_cacheA f) \<and> list_all (\<lambda>a. raw_timestamp a = SOURCE_TS) (fz_cacheB f)
    \<and> all_os (\<lambda>c. fu_timestamp c = SOURCE_TS) (fe_out e)"
    using fuse_iteration_all [OF it, of "\<lambda>a. raw_timestamp a = SOURCE_TS" "\<lambda>c. fu_timestamp c = SOURCE_TS"] assms(2) fu si
    by (simp add: pipe_ok_def all_os_def)
  show ?thesis
    using it2 assms(2) m sm_run_ok [OF m out] dispatch_all_tasks [of "\<lambda>c. fu_timestamp c = SOURCE_TS" "pp_calc p" "os_taken (fe_out e)"]
    by (simp add: p' pipe_ok_def all_os_def sm_run_callbacks)
qed

lemma worker_step_ok:
  assumes "worker_step_of B now lt taken p = Some p'" "pipe_ok B p"
  shows "pipe_ok B p'"
proof (cases "sx_tasks (pp_calc p)")
  case Nil
  then show ?thesis using assms by (auto simp: worker_step_of_def worker_take_def split: if_splits)
next
  case (Cons c rest)
  let ?s = "(pp_calc p)\<lparr>sx_tasks := rest\<rparr>"
  obtain r s2 where r: "calculateSixDof (lb_reg B) (lb_eigen B) (lb_num B) lt now c ?s = (r, s2)" by force
  define drain where "drain = (if sm_state (pp_manager p) = FATAL_ERROR then (\<lambda>_. 0) else taken)"
  obtain ok err ds q where q: "push_result 0 drain (pp_results p) r = (ok, err, ds, q)" using prod_cases4 by blast
  obtain out where out: "deliver ds (pp_out p) = Some out" "p' = p\<lparr>pp_calc := s2, pp_results := q, pp_out := out\<rparr>"
    using assms(1) Cons r q by (auto simp: worker_step_of_def worker_take_def drain_def [symmetric])
  have ts: "sd_timestamp r = SOURCE_TS" "sx_tasks s2 = rest" "list_all (\<lambda>c. fu_timestamp c = SOURCE_TS) rest"
    using calculateSixDof_frame(1,2) [of "lb_reg B" "lb_eigen B" "lb_num B" lt now c ?s] r assms(2) Cons
    by (auto simp: pipe_ok_def)
  have res: "all_q (\<lambda>r. sd_timestamp r = SOURCE_TS) (pp_results p)" using assms(2) by (simp add: pipe_ok_def)
  then have "rq_wf (pp_results p)" by (simp add: all_q_def)
  from push_result_fifo [OF this q] all_q_split [of ds q "pp_results p" "if ok then [r] else []" "\<lambda>r. sd_timestamp r = SOURCE_TS"] res ts(1)
  have "all_q (\<lambda>r. sd_timestamp r = SOURCE_TS) q" "list_all (\<lambda>r. sd_timestamp r = SOURCE_TS) ds" by auto
  then show ?thesis using assms(2) ts deliver_ok [OF out(1), of B] by (simp add: out(2) pipe_ok_def)
qed

lemma pipe_step_ok:
  assumes "pipe_step B p a = Some p'" "pipe_ok B p"
  shows "pipe_ok B p'"
proof (cases a)
  case Radar_A
  then show ?thesis using assms by (auto simp: pipe_ok_def intro: all_q_enqueue)
next
  case Radar_B
  then show ?thesis using assms by (auto simp: pipe_ok_def intro: all_q_enqueue)
next
  case (Fuse_pass now ws)
  then show ?thesis using assms fuse_step_ok by simp
next
  case Calc_pass
  obtain x q where d: "dequeue (pp_fused p) = (x, q)" by force
  have "all_q (\<lambda>c. fu_timestamp c = SOURCE_TS) (pp_fused p)" using assms(2) by (simp add: pipe_ok_def)
  from all_q_dequeue [OF this d] dispatch_all_tasks [of "\<lambda>c. fu_timestamp c = SOURCE_TS" "pp_calc p" "[the x]"]
  show ?thesis
    using assms Calc_pass by (cases x) (auto simp: calc_iteration_def d pipe_ok_def dispatch_all_def)
next
  case (Worker_pass now lt taken)
  then show ?thesis using assms worker_step_ok by simp
next
  case Output_pass
  then obtain l q out where o: "output_pass (sm_state (pp_manager p)) (pp_results p, pp_out p) = Some (l, q, out)"
    "p' = p\<lparr>pp_results := q, pp_out := out\<rparr>" using assms(1) by auto
  then show ?thesis using output_pass_ok [OF o(1), of B] assms(2) by (simp add: pipe_ok_def)
next
  case Solve_pass
  then obtain out where o: "solve_pass (lb_eigen B) (lb_cal B) (pp_out p) = Some out" "p' = p\<lparr>pp_out := out\<rparr>"
    using assms(1) by auto
  then show ?thesis using solve_pass_ok [OF o(1)] assms(2) by (simp add: pipe_ok_def)
next
  case Mqtt_pass
  then show ?thesis using assms mqtt_pass_ok by (auto simp: pipe_ok_def)
qed

lemma pipe_reachable_ok: "pipe_reachable B p0 p \<Longrightarrow> pipe_ok B p0 \<Longrightarrow> pipe_ok B p"
  by (induction rule: pipe_reachable.induct) (auto intro: pipe_step_ok)


definition sample_libs :: "motion libs" where
  "sample_libs = \<lparr>lb_transform = (\<lambda>_ c. c), lb_reg = still_lib, lb_eigen = motion_eigen, lb_num = (\<lambda>_. []),
     lb_cal = (\<lambda>_. []), lb_mqtt = (\<lambda>_. 1), lb_dump = (\<lambda>_. []), lb_fixed2 = (\<lambda>_. [])\<rparr>"

definition sample_pipe :: "motion pipe" where
  "sample_pipe =
     (let a = radar_frame (alc_lidarA blank_lidars) ''A'' []
      in \<lparr>pp_frameA = a, pp_frameB = a, pp_queueA = ring4 a, pp_queueB = ring4 a,
          pp_fuser = sample_fuser undefined [] [], pp_fused = ring4 (single a), pp_calc = sample_dof None,
          pp_results = ring4 (sample_result None), pp_manager = register_callbacks [] sm_init,
          pp_out = sample_output (fresh SOLVE_MAX_QUEUE (sample_result None))
            (snd (enqueue (fresh MQTT_DATA_MAX_QUEUE blank_packet) blank_packet))\<rparr>)"

lemma all_q_ring4 [simp]: "all_q P (ring4 d)"
  by (simp add: all_q_def ring4_wf)

lemma sample_pipe_ok: "pipe_ok sample_libs sample_pipe"
proof -
  have "out_ok sample_libs (pp_out sample_pipe)"
    by (simp add: sample_pipe_def Let_def out_ok_def sample_output_def all_q_def fresh_props fresh_one frozen_def
        SOLVE_MAX_QUEUE_def MQTT_DATA_MAX_QUEUE_def sample_libs_def blank_packet_def)
  moreover have "sm_push_callback (pp_manager sample_pipe) = Some (push_callback [])"
    "sm_db_callback (pp_manager sample_pipe) = Some db_callback"
    by (simp_all add: sample_pipe_def Let_def register_callbacks_def cbyd_defs)
  ultimately show ?thesis
    unfolding pipe_ok_def
    by (intro conjI exI [of _ "[]"]) (simp_all add: sample_pipe_def Let_def radar_frame_def sample_fuser_def sample_dof_def)
qed


section \<open>From a report to the broker\<close>

definition err_msg :: "string \<Rightarrow> system_error \<Rightarrow> device_err_msg" where
  "err_msg now_str err = \<lparr>de_ip = ExtractIpByRegex (err_message err), de_time_str = now_str,
     de_err_code = error_code (err_level err)\<rparr>"

lemma push_callback_queue:
  assumes "rq_wf (od_err_queue s)" "rq_cap (od_err_queue s) = 100"
  shows "\<exists>q. snd (push_callback now_str s err) = s\<lparr>od_err_queue := q\<rparr> \<and> rq_wf q \<and> rq_cap q = 100
     \<and> rq_list q = take 99 (rq_list (od_err_queue s) @ [err_msg now_str err])"
proof (rule enqueueWithDropOld_run [OF assms(1), of MQTT_ERR_MAX_QUEUE "err_msg now_str err"])
  let ?q = "od_err_queue s"
  show "0 < unat MQTT_ERR_MAX_QUEUE" by (simp add: MQTT_ERR_MAX_QUEUE_def)
  fix q1 assume q1: "rq_wf q1" "rq_cap q1 = rq_cap ?q" "rq_list q1 = last_n (unat MQTT_ERR_MAX_QUEUE - 1) (rq_list ?q)"
    and e: "enqueueWithDropOld MQTT_ERR_MAX_QUEUE ?q (err_msg now_str err) = Some (length (rq_list q1) < rq_cap ?q - 1,
        length (rq_list ?q) - (unat MQTT_ERR_MAX_QUEUE - 1), snd (enqueue q1 (err_msg now_str err)))"
    and l: "rq_list (snd (enqueue q1 (err_msg now_str err)))
        = (if length (rq_list q1) < rq_cap ?q - 1 then rq_list q1 @ [err_msg now_str err] else rq_list q1)"
  have n: "unat MQTT_ERR_MAX_QUEUE = 100" by (simp add: MQTT_ERR_MAX_QUEUE_def)
  have b: "length (rq_list ?q) \<le> 99" using rq.contents_bound [OF assms(1)] assms(2) by simp
  then have same: "rq_list q1 = rq_list ?q" using q1(3) n by simp
  have cap: "rq_cap (snd (enqueue q1 (err_msg now_str err))) = 100"
    using q1(2) assms(2) by (simp add: enqueue_def rq_cap_def Let_def)
  show ?thesis
    using e l b same n cap rq.enq_invar [OF q1(1)] assms(2)
    by (intro exI [of _ "snd (enqueue q1 (err_msg now_str err))"])
      (simp add: push_callback_def pushRealTimeError_def err_msg_def [symmetric] note_overflow_def Let_def)
qed

lemma notify_queue:
  assumes "rq_wf (od_err_queue s)" "rq_cap (od_err_queue s) = 100"
  shows "\<exists>q. foldl (notify (Some (push_callback now_str)) (Some db_callback)) s es = s\<lparr>od_err_queue := q\<rparr>
     \<and> rq_wf q \<and> rq_list q = take 99 (rq_list (od_err_queue s) @ map (err_msg now_str) es)"
  using assms
proof (induction es arbitrary: s)
  case Nil
  then have "length (rq_list (od_err_queue s)) \<le> 99" using rq.contents_bound [of "od_err_queue s"] by simp
  then show ?case using Nil by (intro exI [of _ "od_err_queue s"]) simp
next
  case (Cons err es)
  obtain q where q: "snd (push_callback now_str s err) = s\<lparr>od_err_queue := q\<rparr>" "rq_wf q" "rq_cap q = 100"
    "rq_list q = take 99 (rq_list (od_err_queue s) @ [err_msg now_str err])"
    using push_callback_queue [OF Cons.prems] by blast
  have n: "notify (Some (push_callback now_str)) (Some db_callback) s err = s\<lparr>od_err_queue := q\<rparr>"
    by (simp add: notify_def db_callback_def writeErrorToDatabase_def q(1))
  have "take 99 (take 99 (xs @ [y]) @ ys) = take 99 (xs @ y # ys)" for xs ys and y :: device_err_msg
    by (cases "99 \<le> length xs") (simp_all add: min_def take_Cons')
  then show ?case using Cons.IH [of "s\<lparr>od_err_queue := q\<rparr>"] q by (simp add: n del: take_append)
qed

text \<open>\<open>n\<close> passes of the MQTT thread.\<close>

fun mqtt_passes :: "(mqtt_message \<Rightarrow> int) \<Rightarrow> (json \<Rightarrow> string) \<Rightarrow> (real \<Rightarrow> string) \<Rightarrow> nat \<Rightarrow> outputter \<Rightarrow> outputter" where
  "mqtt_passes lib dump fixed2 0 s = s"
| "mqtt_passes lib dump fixed2 (Suc n) s = mqtt_passes lib dump fixed2 n (mqtt_pass lib dump fixed2 s)"

lemma mqtt_passes_errors:
  assumes "rq_wf (od_mqtt_queue s)" "rq_list (od_mqtt_queue s) = []" "rq_wf (od_err_queue s)" "reaches_broker s"
    "mq_dev_status_topic (od_mqtt_cfg s) = topic" "topic \<noteq> []"
  shows "od_sent (mqtt_passes lib dump fixed2 n s)
     = od_sent s @ map (\<lambda>e. (topic, err_json e)) (take n (rq_list (od_err_queue s)))"
  using assms
proof (induction n arbitrary: s)
  case (Suc n)
  let ?s = "mqtt_pass lib dump fixed2 s"
  have r: "rq_list (od_mqtt_queue ?s) = []" "rq_list (od_err_queue ?s) = tl (rq_list (od_err_queue s))"
    "rq_wf (od_mqtt_queue ?s)" "rq_wf (od_err_queue ?s)" "od_mqtt_cfg ?s = od_mqtt_cfg s" "od_mqtt ?s = od_mqtt s"
    "od_sent ?s = od_sent s @ map (\<lambda>e. (topic, err_json e)) (take 1 (rq_list (od_err_queue s)))"
    using mqtt_pass_run [OF Suc.prems(1,3,5,6) refl, of lib dump fixed2] Suc.prems(2,4) by simp_all
  have "reaches_broker ?s" using Suc.prems(4) r(6) by (simp add: reaches_broker_def)
  then have "od_sent (mqtt_passes lib dump fixed2 n ?s)
      = od_sent ?s @ map (\<lambda>e. (topic, err_json e)) (take n (rq_list (od_err_queue ?s)))"
    using Suc.IH [OF r(3,1,4)] Suc.prems(5,6) r(5) by simp
  then show ?case using r(2,7) by (cases "rq_list (od_err_queue s)") simp_all
qed simp



end
