(* ===== verification/Pipeline_Progress.thy ===== *)
theory Pipeline_Progress
  imports Pipeline
begin

text \<open>
  Two contracts of the whole pipeline: that none of its passes gets stuck, and the format of what it sends
  to the broker.
\<close>

section \<open>The fuser keeps its bounds\<close>

text \<open>Without assuming that the component is running, as \<open>fuse_iteration_spec\<close> does.\<close>

lemma push_out_keeps:
  assumes "push_out x os = Some os'" "rq_wf (os_queue os)"
  shows "rq_wf (os_queue os') \<and> rq_cap (os_queue os') - 1 = rq_cap (os_queue os) - 1"
proof -
  obtain ok ds q w where r: "enq_retry enqueue dequeue (os_queue os) x w = Some (ok, ds, q)" "os_queue os' = q"
    using assms(1) by (auto simp: push_out_def)
  then show ?thesis using rq.enq_retry_fifo [OF assms(2) r(1)] by auto
qed

lemma match_loop_keeps:
  assumes "match_loop tr f m as bs os = Some (m', as', bs', os')" "rq_wf (os_queue os)"
  shows "rq_wf (os_queue os') \<and> rq_cap (os_queue os') - 1 = rq_cap (os_queue os) - 1 \<and> length as' \<le> length as \<and> length bs' \<le> length bs"
  using assms
proof (induction tr f m as bs os rule: match_loop.induct)
  case (1 tr f m a as b bs os)
  show ?case
  proof (cases "diff_ns a b < MATCH_NS")
    case True
    obtain x ev where x: "fuse tr f a b = (x, ev)" by force
    obtain os1 where os1: "push_out x (note_event ev os) = Some os1" "match_loop tr f True as bs os1 = Some (m', as', bs', os')"
      using "1.prems"(1) True x by (auto split: option.splits)
    have k: "rq_wf (os_queue os1)" "rq_cap (os_queue os1) - 1 = rq_cap (os_queue os) - 1"
      using push_out_keeps [OF os1(1)] "1.prems"(2) by simp_all
    from "1.IH"(1) [OF True x [symmetric] os1(1,2) k(1)] k(2) show ?thesis by auto
  next
    case False
    then show ?thesis using "1.IH"(2,3) "1.prems" by (cases "raw_timestamp a < raw_timestamp b") force+
  qed
qed auto

lemma single_step_keeps:
  assumes "single_step m own other os = Some (m', own', os')" "rq_wf (os_queue os)"
  shows "rq_wf (os_queue os') \<and> rq_cap (os_queue os') - 1 = rq_cap (os_queue os) - 1 \<and> length own' \<le> length own"
  using assms by (auto simp: single_step_def split: list.splits if_splits dest: push_out_keeps)

lemma fuse_iteration_keeps:
  assumes "fuse_ok (f, e)" "fuse_iteration tr (f, e) = Some (f', e')"
  shows "fuse_ok (f', e') \<and> rq_cap (os_queue (fe_out e')) - 1 = rq_cap (os_queue (fe_out e)) - 1"
proof (rule fuse_iteration_pulls_ok [OF assms(1), of tr])
  fix f1 e1 assume it: "fuse_iteration tr (f, e) = fuse_match tr (f1, e1)" "fuse_ok (f1, e1)"
    "os_queue (fe_out e1) = os_queue (fe_out e)"
  show ?thesis
  proof (cases "length (fz_cacheA f1) \<le> FRAME_CACHE \<or> length (fz_cacheB f1) \<le> FRAME_CACHE")
    case True
    then show ?thesis using it assms(2) by (auto simp: fuse_match_def Let_def)
  next
    case False
    then obtain n ca1 cb1 os3 n1 ca2 os4 n2 cb2 os5 where
      st: "match_loop tr f1 False (fz_cacheA f1) (fz_cacheB f1) (fe_out e1) = Some (n, ca1, cb1, os3)"
        "single_step n ca1 cb1 os3 = Some (n1, ca2, os4)" "single_step n1 cb1 ca2 os4 = Some (n2, cb2, os5)"
      and out: "f' = f1\<lparr>fz_cacheA := ca2, fz_cacheB := cb2\<rparr>" "e' = e1\<lparr>fe_out := os5\<rparr>"
      using it(1) assms(2) by (auto simp: fuse_match_def Let_def split: option.splits)
    have ok: "rq_wf (os_queue (fe_out e1))" using it(2) by (simp add: fuse_ok_def)
    note k1 = match_loop_keeps [OF st(1) ok]
    note k2 = single_step_keeps [OF st(2) k1 [THEN conjunct1]]
    note k3 = single_step_keeps [OF st(3) k2 [THEN conjunct1]]
    show ?thesis using it(2,3) k1 k2 k3 by (auto simp: fuse_ok_def out)
  qed
qed

section \<open>No pass gets stuck\<close>

text \<open>The bounds of the fuser's caches and of the queue it feeds.\<close>

definition pipe_shape :: "'m pipe \<Rightarrow> bool" where
  "pipe_shape p \<longleftrightarrow> length (fz_cacheA (pp_fuser p)) \<le> 30 \<and> length (fz_cacheB (pp_fuser p)) \<le> 30 \<and> 2 \<le> rq_cap (pp_fused p)"

abbreviation fuse_view :: "'m pipe \<Rightarrow> (bool \<times> nat) list list \<Rightarrow> fuse_env" where
  "fuse_view p ws \<equiv> \<lparr>fe_queueA = pp_queueA p, fe_queueB = pp_queueB p,
     fe_out = \<lparr>os_queue = pp_fused p, os_taken = [], os_waits = ws, os_events = []\<rparr>\<rparr>"

lemma pipe_fuse_ok: "pipe_ok B p \<Longrightarrow> pipe_shape p \<Longrightarrow> fuse_ok (pp_fuser p, fuse_view p ws)"
  by (simp add: pipe_ok_def pipe_shape_def fuse_ok_def all_q_def)

lemma worker_step_frame:
  "worker_step_of B now lt taken p = Some p' \<Longrightarrow> pp_fuser p' = pp_fuser p \<and> pp_fused p' = pp_fused p"
  by (auto simp: worker_step_of_def Let_def split: prod.splits worker_step.splits)

lemma pipe_step_shape:
  assumes "pipe_step B p a = Some p'" "pipe_ok B p" "pipe_shape p"
  shows "pipe_shape p'"
proof (cases a)
  case (Fuse_pass now ws)
  then obtain f e where it: "fuse_iteration (lb_transform B) (pp_fuser p, fuse_view p ws) = Some (f, e)"
      "pp_fuser p' = f" "pp_fused p' = os_queue (fe_out e)"
    using assms(1) by (auto simp: fuse_step_def Let_def split: option.splits prod.splits)
  show ?thesis
    using fuse_iteration_keeps [OF pipe_fuse_ok [OF assms(2,3)] it(1)] assms(3) it(2,3) by (auto simp: pipe_shape_def fuse_ok_def)
next
  case Calc_pass
  have "rq_cap (snd (dequeue (pp_fused p))) - 1 = rq_cap (pp_fused p) - 1"
    using rq.deq_bound [of "pp_fused p"] assms(2) by (simp add: pipe_ok_def all_q_def)
  then show ?thesis
    using assms Calc_pass by (cases "dequeue (pp_fused p)") (auto simp: pipe_shape_def calc_iteration_def split: option.splits)
next
  case (Worker_pass now lt taken)
  then show ?thesis using assms worker_step_frame [of B now lt taken p p'] by (simp add: pipe_shape_def)
qed (use assms in \<open>auto simp: pipe_shape_def\<close>)

lemma pipe_reachable_shape:
  "pipe_reachable B p0 p \<Longrightarrow> pipe_ok B p0 \<Longrightarrow> pipe_shape p0 \<Longrightarrow> pipe_ok B p \<and> pipe_shape p"
  by (induction rule: pipe_reachable.induct) (auto intro: pipe_step_shape pipe_step_ok)

lemma drop_old_returns:
  assumes "rq_wf q" "0 < unat max_size"
  shows "\<exists>r. enqueueWithDropOld max_size q x = Some r"
  by (rule enqueueWithDropOld_run [OF assms, of x]) blast

lemma pushRealTimeData_returns: "out_ok B s \<Longrightarrow> \<exists>r. pushRealTimeData r0 s = Some r"
  using drop_old_returns [of "od_solve_queue s" SOLVE_MAX_QUEUE r0]
  by (auto simp: out_ok_def all_q_def pushRealTimeData_def SOLVE_MAX_QUEUE_def split: option.splits)

lemma deliver_returns:
  "out_ok B s \<Longrightarrow> list_all (\<lambda>r. sd_timestamp r = SOURCE_TS) rs \<Longrightarrow> \<exists>s'. deliver rs s = Some s'"
proof (induction rs arbitrary: s)
  case (Cons r rs)
  obtain ok s1 where s1: "pushRealTimeData r s = Some (ok, s1)" using pushRealTimeData_returns [OF Cons.prems(1)] by fastforce
  have "out_ok B s1" using pushRealTimeData_ok [OF s1 Cons.prems(1)] Cons.prems(2) by simp
  then show ?case using Cons.IH [of s1] Cons.prems(2) s1 by (simp add: writeToDatabase_def)
qed simp

lemma solve_pass_returns:
  assumes "out_ok B s"
  shows "(\<exists>s'. solve_pass E cal s = Some s') \<longleftrightarrow> (\<forall>r. fst (dequeue (od_solve_queue s)) = Some r \<longrightarrow> sd_ship_length r \<noteq> None)"
proof -
  have "\<exists>r. enqueueWithDropOld MQTT_DATA_MAX_QUEUE (od_mqtt_queue s) x = Some r" for x
    using assms by (intro drop_old_returns) (simp_all add: out_ok_def all_q_def MQTT_DATA_MAX_QUEUE_def)
  then have e: "enqueueWithDropOld MQTT_DATA_MAX_QUEUE (od_mqtt_queue s) x = None \<longleftrightarrow> False" for x by (metis option.distinct(1))
  show ?thesis
    by (cases "dequeue (od_solve_queue s)"; cases "fst (dequeue (od_solve_queue s))")
      (auto simp: solve_pass_def calcShipBowSternPos_def Let_def e split: option.splits prod.splits)
qed

lemma worker_step_returns:
  assumes "pipe_ok B p"
  shows "\<exists>p'. worker_step_of B now lt taken p = Some p'"
proof (cases "sx_tasks (pp_calc p)")
  case Nil
  then show ?thesis by (simp add: worker_step_of_def worker_take_def)
next
  case (Cons c rest)
  let ?s = "(pp_calc p)\<lparr>sx_tasks := rest\<rparr>"
  obtain r s2 where r: "calculateSixDof (lb_reg B) (lb_eigen B) (lb_num B) lt now c ?s = (r, s2)" by force
  define drain where "drain = (if sm_state (pp_manager p) = FATAL_ERROR then (\<lambda>_. 0) else taken)"
  obtain ok err ds q where q: "push_result 0 drain (pp_results p) r = (ok, err, ds, q)" using prod_cases4 by blast
  have ts: "sd_timestamp r = SOURCE_TS"
    using calculateSixDof_frame(1) [of "lb_reg B" "lb_eigen B" "lb_num B" lt now c ?s] r assms Cons by (auto simp: pipe_ok_def)
  have res: "all_q (\<lambda>r. sd_timestamp r = SOURCE_TS) (pp_results p)" using assms by (simp add: pipe_ok_def)
  then have "rq_wf (pp_results p)" by (simp add: all_q_def)
  from push_result_fifo [OF this q] all_q_split [of ds q "pp_results p" "if ok then [r] else []" "\<lambda>r. sd_timestamp r = SOURCE_TS"] res ts
  have "list_all (\<lambda>r. sd_timestamp r = SOURCE_TS) ds" by auto
  with deliver_returns [of B "pp_out p" ds] assms obtain out where "deliver ds (pp_out p) = Some out" by (auto simp: pipe_ok_def)
  then show ?thesis using Cons r q by (simp add: worker_step_of_def worker_take_def drain_def [symmetric])
qed

lemma fuse_step_returns:
  assumes "pipe_ok B p" "pipe_shape p" "served (fe_out (fuse_view p ws))" "32 \<le> length ws"
  shows "\<exists>p'. fuse_step B now ws p = Some p'"
proof -
  have "\<exists>s'. fuse_iteration (lb_transform B) (pp_fuser p, fuse_view p ws) = Some s'"
    using pipe_fuse_ok [OF assms(1,2)] assms(2-4) by (intro fuse_iteration_total) (simp_all add: pipe_shape_def)
  then show ?thesis by (auto simp: fuse_step_def Let_def split: prod.splits)
qed


lemma sample_pipe_shape: "pipe_shape sample_pipe"
  by (simp add: pipe_shape_def sample_pipe_def Let_def sample_fuser_def ring4_wf)


section \<open>The format of the messages\<close>

text \<open>
  Types of JSON values. A decimal is a string with two decimals, as \<open>std::fixed\<close> and \<open>setprecision(2)\<close> print
  it; a code is a number within bounds; an object has exactly the fields of its type, in order.
\<close>

datatype jtype = T_str | T_dec | T_code int int | T_arr "jtype list" | T_obj "(string \<times> jtype) list"

definition is_fixed2 :: "string \<Rightarrow> bool" where
  "is_fixed2 s =
     (let t = (case s of CHR ''-'' # u \<Rightarrow> u | _ \<Rightarrow> s); n = length t
      in 4 \<le> n \<and> list_all is_digit (take (n - 3) t) \<and> t ! (n - 3) = CHR ''.'' \<and> list_all is_digit (drop (n - 2) t))"

fun conforms :: "json \<Rightarrow> jtype \<Rightarrow> bool" where
  "conforms (JStr s) T_str = True"
| "conforms (JStr s) T_dec = is_fixed2 s"
| "conforms (JInt i) (T_code lo hi) = (lo \<le> i \<and> i \<le> hi)"
| "conforms (JArr vs) (T_arr ts) = list_all2 conforms vs ts"
| "conforms (JObj fs) (T_obj gs) = list_all2 (\<lambda>(k, v) (k', t). k = k' \<and> conforms v t) fs gs"
| "conforms _ _ = False"

definition ship_schema :: jtype where
  "ship_schema = T_obj [(''berthId'', T_str), (''deviceIp'', T_str), (''timestamp'', T_str),
     (''shipSway'', T_dec), (''shipSurge'', T_dec), (''shipHeave'', T_dec),
     (''shipRoll'', T_dec), (''shipPitch'', T_dec), (''shipYaw'', T_dec),
     (''bowAcceleration'', T_arr [T_dec, T_dec, T_dec]), (''sternAcceleration'', T_arr [T_dec, T_dec, T_dec])]"

definition status_schema :: jtype where
  "status_schema = T_obj [(''deviceIp'', T_str), (''deviceStatus'', T_code 1 3), (''timestamp'', T_str)]"

definition well_typed :: "json \<Rightarrow> bool" where
  "well_typed j \<longleftrightarrow> conforms j ship_schema \<or> conforms j status_schema"

definition code_ok :: "device_err_msg \<Rightarrow> bool" where
  "code_ok e \<longleftrightarrow> 1 \<le> de_err_code e \<and> de_err_code e \<le> 3"

lemma ship_json_typed: "(\<And>v. is_fixed2 (fixed2 v)) \<Longrightarrow> well_typed (ship_json fixed2 pkg)"
  by (simp add: well_typed_def ship_json_def buildJson_def ship_schema_def write_double_def Let_def split_beta)

lemma err_json_typed: "code_ok e \<Longrightarrow> well_typed (err_json e)"
  by (simp add: well_typed_def err_json_def buildDeviceStatusJson_def status_schema_def code_ok_def)

definition messages_ok :: "outputter \<Rightarrow> bool" where
  "messages_ok s \<longleftrightarrow> all_q code_ok (od_err_queue s) \<and> list_all (\<lambda>m. well_typed (snd m)) (od_sent s)"

lemma push_callback_messages:
  assumes "messages_ok s" "err_level err \<noteq> STATUS_OK"
  shows "messages_ok (snd (push_callback now_str s err))"
proof -
  have code: "code_ok (err_msg now_str err)" using assms(2) by (cases "err_level err") (simp_all add: code_ok_def err_msg_def)
  show ?thesis
  proof (cases "enqueueWithDropOld MQTT_ERR_MAX_QUEUE (od_err_queue s) (err_msg now_str err)")
    case None
    then show ?thesis using assms(1) by (simp add: push_callback_def pushRealTimeError_def err_msg_def)
  next
    case (Some r)
    obtain ok n q where r: "r = (ok, n, q)" using prod_cases3 by blast
    have "all_q code_ok q"
      using all_q_drop_old [of code_ok "od_err_queue s" "err_msg now_str err" MQTT_ERR_MAX_QUEUE ok n q] code Some r assms(1) by (simp add: messages_ok_def MQTT_ERR_MAX_QUEUE_def)
    then show ?thesis
      using assms(1) Some r
      by (simp add: push_callback_def pushRealTimeError_def err_msg_def messages_ok_def note_overflow_def)
  qed
qed

lemma sm_run_messages:
  assumes "sm_push_callback m = Some (push_callback now_str)" "sm_db_callback m = Some db_callback" "messages_ok s"
  shows "messages_ok (snd (sm_run (m, s) cs))"
proof -
  have "messages_ok (foldl (notify (Some (push_callback now_str)) (Some db_callback)) s es)"
    if "list_all (\<lambda>e. err_level e \<noteq> STATUS_OK) es" for es
    using assms(3) that
    by (induction es arbitrary: s)
      (simp_all add: notify_def db_callback_def writeErrorToDatabase_def push_callback_messages Let_def)
  moreover have "list_all (\<lambda>e. err_level e \<noteq> STATUS_OK) (List.map_filter reported cs)"
  proof (induction cs)
    case (Cons c cs)
    then show ?case by (cases c) (simp_all add: map_filter_simps mk_error_def)
  qed (simp add: map_filter_simps)
  ultimately show ?thesis using assms(1,2) by (simp add: sm_run_world)
qed

lemma pushRealTimeData_frame:
  "pushRealTimeData r s = Some (ok, s') \<Longrightarrow> od_err_queue s' = od_err_queue s \<and> od_sent s' = od_sent s"
  by (auto simp: pushRealTimeData_def note_overflow_def split: option.splits)

lemma deliver_frame: "deliver rs s = Some s' \<Longrightarrow> od_err_queue s' = od_err_queue s \<and> od_sent s' = od_sent s"
  by (induction rs s rule: deliver.induct)
    (auto simp: writeToDatabase_def split: option.splits dest: pushRealTimeData_frame)

lemma solve_pass_frame: "solve_pass E cal s = Some s' \<Longrightarrow> od_err_queue s' = od_err_queue s \<and> od_sent s' = od_sent s"
  by (auto simp: solve_pass_def note_overflow_def Let_def split: option.splits prod.splits)

lemma output_pass_frame:
  "output_pass st (q, s) = Some (l, q', s') \<Longrightarrow> od_err_queue s' = od_err_queue s \<and> od_sent s' = od_sent s"
  by (auto simp: output_pass_def writeToDatabase_def split: if_splits option.splits prod.splits dest: pushRealTimeData_frame)

lemma send_messages: "messages_ok s \<Longrightarrow> well_typed j \<Longrightarrow> messages_ok (send lib dump j topic s)"
  by (auto simp: send_def messages_ok_def split: option.splits prod.splits)

lemma mqtt_pass_messages:
  assumes "messages_ok s" "\<And>v. is_fixed2 (fixed2 v)"
  shows "messages_ok (mqtt_pass lib dump fixed2 s)"
proof -
  have err: "messages_ok (case dequeue (od_err_queue t) of (None, q) \<Rightarrow> t\<lparr>od_err_queue := q\<rparr>
      | (Some e, q) \<Rightarrow> if isConnected (od_mqtt (t\<lparr>od_err_queue := q\<rparr>))
          then send lib dump (err_json e) (mq_dev_status_topic (od_mqtt_cfg (t\<lparr>od_err_queue := q\<rparr>))) (t\<lparr>od_err_queue := q\<rparr>)
          else t\<lparr>od_err_queue := q\<rparr>)" if t: "messages_ok t" for t
  proof -
    obtain x q where d: "dequeue (od_err_queue t) = (x, q)" by force
    then have "all_q code_ok q \<and> pred_option code_ok x" using all_q_dequeue [OF _ d, of code_ok] t by (simp add: messages_ok_def)
    moreover from this have "messages_ok (t\<lparr>od_err_queue := q\<rparr>)" using t by (simp add: messages_ok_def)
    ultimately show ?thesis by (cases x) (simp_all add: d send_messages err_json_typed)
  qed
  have ship: "messages_ok (s\<lparr>od_mqtt_queue := q\<rparr>)" for q using assms(1) by (simp add: messages_ok_def)
  show ?thesis
    unfolding mqtt_pass_def Let_def err_json_def [symmetric] ship_json_def [symmetric]
    by (intro err) (auto simp: ship send_messages ship_json_typed [OF assms(2)] split: prod.splits option.splits)
qed

lemma worker_step_messages:
  assumes "worker_step_of B now lt taken p = Some p'"
  shows "messages_ok (pp_out p') = messages_ok (pp_out p) \<and> pp_manager p' = pp_manager p"
  using assms by (auto simp: worker_step_of_def Let_def messages_ok_def dest: deliver_frame split: prod.splits worker_step.splits)

definition reporting :: "'m pipe \<Rightarrow> bool" where
  "reporting p \<longleftrightarrow> (\<exists>now_str. sm_push_callback (pp_manager p) = Some (push_callback now_str))
     \<and> sm_db_callback (pp_manager p) = Some db_callback \<and> messages_ok (pp_out p)"

lemma pipe_step_messages:
  assumes "pipe_step B p a = Some p'" "reporting p" "\<And>v. is_fixed2 (lb_fixed2 B v)"
  shows "reporting p'"
proof (cases a)
  case (Fuse_pass now ws)
  then obtain f e where it: "fuse_iteration (lb_transform B) (pp_fuser p, fuse_view p ws) = Some (f, e)"
    using assms(1) by (auto simp: fuse_step_def split: option.splits)
  let ?r = "sm_run (pp_manager p, pp_out p) (concat (map (fuse_report now) (os_events (fe_out e))))"
  have "pp_manager p' = fst ?r" "pp_out p' = snd ?r" using assms(1) Fuse_pass it by (auto simp: fuse_step_def Let_def split_beta)
  then show ?thesis using assms(2) sm_run_messages [of "pp_manager p" _ "pp_out p"] by (auto simp: reporting_def sm_run_callbacks)
next
  case (Worker_pass now lt taken)
  then show ?thesis using assms(1,2) worker_step_messages [of B now lt taken p p'] by (simp add: reporting_def)
next
  case Output_pass
  then obtain l q out where "output_pass (sm_state (pp_manager p)) (pp_results p, pp_out p) = Some (l, q, out)"
    "p' = p\<lparr>pp_results := q, pp_out := out\<rparr>" using assms(1) by auto
  then show ?thesis using assms(2) output_pass_frame by (fastforce simp: reporting_def messages_ok_def)
next
  case Solve_pass
  then show ?thesis using assms(1,2) solve_pass_frame by (fastforce simp: reporting_def messages_ok_def)
next
  case Mqtt_pass
  then show ?thesis using assms mqtt_pass_messages by (auto simp: reporting_def)
qed (use assms in \<open>auto simp: reporting_def split: prod.splits\<close>)

lemma pipe_reachable_messages:
  "pipe_reachable B p0 p \<Longrightarrow> reporting p0 \<Longrightarrow> (\<And>v. is_fixed2 (lb_fixed2 B v)) \<Longrightarrow> reporting p"
  by (induction rule: pipe_reachable.induct) (auto intro: pipe_step_messages)

text \<open>
  C13: the messages of the program are well typed. In every state the pipeline can reach once the
  callbacks of the outputter are registered, every message sent to the broker is of one of two
  types: a ship packet with its eleven fields, numbers printed with two decimals as strings and
  both accelerations as arrays of three; or a device status whose code is 1, 2 or 3. This assumes
  of the C++ stream only that it prints numbers with two decimals.
\<close>

theorem sent_messages_typed:
  assumes "\<And>v. is_fixed2 (lb_fixed2 B v)" "reporting p0" "pipe_reachable B p0 p" "(topic, j) \<in> set (od_sent (pp_out p))"
  shows "conforms j ship_schema \<or> conforms j status_schema"
  using pipe_reachable_messages [OF assms(3,2,1)] assms(4)
  by (auto simp: reporting_def messages_ok_def list_all_iff well_typed_def)

theorem sent_messages_typed_witness:
  "\<exists>p j. pipe_reachable (sample_libs\<lparr>lb_fixed2 := \<lambda>_. ''0.00''\<rparr>) sample_pipe p \<and> od_sent (pp_out p) = [(''status'', j)]
     \<and> (conforms j ship_schema \<or> conforms j status_schema)"
proof -
  let ?B = "sample_libs\<lparr>lb_fixed2 := \<lambda>_. ''0.00''\<rparr>" and ?s = "pp_out sample_pipe"
  let ?p = "sample_pipe\<lparr>pp_out := mqtt_pass (\<lambda>_. 1) (\<lambda>_. []) (\<lambda>_. ''0.00'') ?s\<rparr>"
  have reach: "pipe_reachable ?B sample_pipe ?p"
    by (rule pipe_move [OF pipe_start, of _ _ Mqtt_pass]) (simp add: sample_libs_def)
  have fixed: "is_fixed2 (lb_fixed2 ?B v)" for v by (simp add: is_fixed2_def is_digit_def)
  have h: "rq_wf (od_mqtt_queue ?s)" "rq_wf (od_err_queue ?s)" "mq_dev_status_topic (od_mqtt_cfg ?s) = ''status''"
    "''status'' \<noteq> []" "rq_list (od_err_queue ?s) = []" "reaches_broker ?s" "od_sent ?s = []"
    "rq_list (od_mqtt_queue ?s) = [blank_packet]"
    by (simp_all add: sample_pipe_def Let_def sample_output_def fresh_props fresh_one MQTT_DATA_MAX_QUEUE_def
        MQTT_ERR_MAX_QUEUE_def reaches_broker_def isConnected_def)
  have rep: "reporting sample_pipe"
    using h(2,5,7) by (auto simp: reporting_def messages_ok_def all_q_def sample_pipe_def Let_def register_callbacks_def cbyd_defs)
  have sent: "od_sent (pp_out ?p) = [(''status'', ship_json (\<lambda>_. ''0.00'') blank_packet)]"
    using mqtt_pass_run [OF h(1-4) refl, of "\<lambda>_. 1" "\<lambda>_. []" "\<lambda>_. ''0.00''"] h(5-8) by simp
  show ?thesis
    using sent_messages_typed [OF fixed rep reach, of "''status''"] reach sent by (intro exI [of _ ?p]) auto
qed

end
