(* ===== verification/Program.thy ===== *)
theory Program
  imports Pipeline_Progress Log_Files
begin

text \<open>
  \<open>src/main.cpp\<close> and \<open>include/version.h\<close>: construction, start and orderly stop of the whole program. The
  environment of a run (dates, clocks, configuration files, the memory the objects are built in)
  is one record. Of the lines written to the log, only those of \<open>main\<close> itself are kept.
\<close>

section \<open>The program\<close>

record ('n, 'm) world =
  wd_yaml :: "'n yaml"
  wd_eigen :: "'m eigen"
  wd_max_size :: size_t       \<comment> \<open>\<open>max_size\<close> of \<open>std::vector\<close>\<close>
  wd_day :: string
  wd_last_day :: string
  wd_build_time :: string
  wd_steady_now :: int
  wd_now :: u64
  wd_now_str :: string
  wd_client_id :: string
  wd_csv_file :: "string list option"
  wd_raw0 :: raw_cloud        \<comment> \<open>default values and fresh members\<close>
  wd_fused0 :: fused_cloud
  wd_result0 :: six_dof_result
  wd_acq0 :: acquirer
  wd_fuser0 :: "'m fuser"
  wd_calc0 :: "'m six_dof"
  wd_monitor0 :: radar_global_config
  wd_out0 :: outputter

record 'm program =
  pg_logger :: industrial_logger
  pg_cloudA :: "raw_cloud ring_queue"
  pg_cloudB :: "raw_cloud ring_queue"
  pg_fuse_cloud :: "fused_cloud ring_queue"
  pg_six_dof :: "six_dof_result ring_queue"
  pg_acq :: acquirer
  pg_fuser :: "'m fuser"
  pg_calc :: "'m six_dof"
  pg_out :: outputter
  pg_manager :: "outputter state_manager"

definition SW_VERSION_STR :: string where "SW_VERSION_STR = ''V1.2.0''"

definition main_log :: "string \<Rightarrow> string \<Rightarrow> industrial_logger \<Rightarrow> industrial_logger" where
  "main_log line msg l = LogMsg Info ''MAIN'' ''main.cpp'' line msg l"

text \<open>Lines 29 to 38: the logger.\<close>

definition main_logger :: "('n, 'm) world \<Rightarrow> industrial_logger" where
  "main_logger W =
     main_log ''37'' (''Build Time: '' @ wd_build_time W)
       (main_log ''34'' (''Software Version: '' @ SW_VERSION_STR)
         (SetLogLevel Debug (Init (wd_day W) ''./logs/app'' (5 * 1024 * 1024) 5 8192 logger_new)))"

text \<open>The queues and the four objects; \<open>None\<close>: an uncaught exception or undefined behaviour.\<close>

definition main_build :: "('n, 'm) world \<Rightarrow> 'm program option" where
  "main_build W =
     (case rq_new (wd_max_size W) (wd_raw0 W) 100 of Inl _ \<Rightarrow> None | Inr qa \<Rightarrow>
      case rq_new (wd_max_size W) (wd_raw0 W) 100 of Inl _ \<Rightarrow> None | Inr qb \<Rightarrow>
      case rq_new (wd_max_size W) (wd_fused0 W) 100 of Inl _ \<Rightarrow> None | Inr qf \<Rightarrow>
      case rq_new (wd_max_size W) (wd_result0 W) 100 of Inl _ \<Rightarrow> None | Inr qr \<Rightarrow>
      case six_dof_new (wd_yaml W) (wd_eigen W) (wd_steady_now W) (wd_csv_file W) (wd_calc0 W) of None \<Rightarrow> None | Some calc \<Rightarrow>
      case output_new (wd_yaml W) (wd_client_id W) (wd_now_str W) (wd_now W) (wd_monitor0 W) (sm_init, wd_out0 W) of
        None \<Rightarrow> None
      | Some (calls, m, out) \<Rightarrow>
          (case sm_run (m, out) calls of (m1, out1) \<Rightarrow>
             Some \<lparr>pg_logger = main_logger W, pg_cloudA = qa, pg_cloudB = qb, pg_fuse_cloud = qf, pg_six_dof = qr,
                   pg_acq = wd_acq0 W, pg_fuser = wd_fuser0 W, pg_calc = calc, pg_out = out1, pg_manager = m1\<rparr>))"

definition main_start :: "('n, 'm) world \<Rightarrow> 'm program option" where
  "main_start W =
     (case main_build W of None \<Rightarrow> None | Some p \<Rightarrow>
      case acq_start (wd_yaml W) (pg_acq p) of None \<Rightarrow> None | Some a \<Rightarrow>
      case fuser_start (wd_yaml W) (wd_eigen W) (pg_fuser p) of None \<Rightarrow> None | Some f \<Rightarrow>
        (case output_start (pg_out p) of (calls, out) \<Rightarrow>
         case sm_run (pg_manager p, out) calls of (m, out1) \<Rightarrow>
           Some (p\<lparr>pg_acq := a, pg_fuser := f, pg_calc := six_dof_start (pg_calc p), pg_out := out1, pg_manager := m\<rparr>)))"

text \<open>After the signal: the stages are stopped from the last to the first, then the logger is closed.\<close>

definition main_stop :: "('n, 'm) world \<Rightarrow> 'm program \<Rightarrow> 'm program" where
  "main_stop W p =
     (case output_stop (pg_out p) of (calls, out) \<Rightarrow>
      case sm_run (pg_manager p, out) calls of (m, out1) \<Rightarrow>
        p\<lparr>pg_out := out1, pg_manager := m, pg_calc := six_dof_stop (pg_calc p), pg_fuser := fuser_stop (pg_fuser p),
          pg_acq := acq_stop (pg_acq p),
          pg_logger := main_log ''68'' ''All threads stopped, exiting''
            (Shutdown (Flush (wd_last_day W) (pg_logger p)))\<rparr>)"

datatype 'm main_result = Printed string | Ran "'m program" | Crashed

text \<open>
  \<open>main\<close>; \<open>life\<close> is what the threads do to the program's state between start and signal. The
  destructor of the outputter runs on return.
\<close>

definition main_fun :: "('n, 'm) world \<Rightarrow> ('m program \<Rightarrow> 'm program) \<Rightarrow> string list \<Rightarrow> 'm main_result" where
  "main_fun W life argv =
     (if 2 \<le> length argv \<and> argv ! 1 = ''--version''
      then Printed (''Software Version: '' @ SW_VERSION_STR @ [CHR 0x0A] @ ''Build Time: '' @ wd_build_time W @ [CHR 0x0A])
      else case main_start W of
          None \<Rightarrow> Crashed
        | Some p \<Rightarrow> Ran ((main_stop W (life p))\<lparr>pg_out := output_delete (pg_out (main_stop W (life p)))\<rparr>))"

section \<open>Start\<close>

text \<open>The members as the classes initialise them, with the queues of the outputter at their limits.\<close>

definition fresh_world :: "('n, 'm) world \<Rightarrow> bool" where
  "fresh_world W \<longleftrightarrow> 100 \<le> wd_max_size W \<and> unat (wd_max_size W) \<le> 2 ^ 63
     \<and> \<not> aq_is_running (wd_acq0 W) \<and> \<not> fz_is_running (wd_fuser0 W) \<and> fz_cacheA (wd_fuser0 W) = [] \<and> fz_cacheB (wd_fuser0 W) = []
     \<and> sx_tasks (wd_calc0 W) = [] \<and> \<not> sx_is_running (wd_calc0 W)
     \<and> \<not> od_is_running (wd_out0 W) \<and> rq_wf (od_solve_queue (wd_out0 W)) \<and> rq_list (od_solve_queue (wd_out0 W)) = []
     \<and> rq_wf (od_mqtt_queue (wd_out0 W)) \<and> rq_list (od_mqtt_queue (wd_out0 W)) = []
     \<and> rq_wf (od_err_queue (wd_out0 W)) \<and> rq_list (od_err_queue (wd_out0 W)) = []
     \<and> od_history (wd_out0 W) = [] \<and> od_sent (wd_out0 W) = []"

text \<open>The pipeline of a started program, with the clouds the lidar threads have read.\<close>

definition pipe_of :: "cloud \<Rightarrow> cloud \<Rightarrow> 'm program \<Rightarrow> 'm pipe" where
  "pipe_of ptsA ptsB p =
     \<lparr>pp_frameA = radar_frame (alc_lidarA (aq_lidarCfg (pg_acq p))) ''A'' ptsA,
      pp_frameB = radar_frame (alc_lidarB (aq_lidarCfg (pg_acq p))) ''B'' ptsB,
      pp_queueA = pg_cloudA p, pp_queueB = pg_cloudB p, pp_fuser = pg_fuser p, pp_fused = pg_fuse_cloud p,
      pp_calc = pg_calc p, pp_results = pg_six_dof p, pp_manager = pg_manager p, pp_out = pg_out p\<rparr>"

lemma fuser_start_caches:
  "fuser_start Y E f = Some f' \<Longrightarrow> fz_cacheA f' = fz_cacheA f \<and> fz_cacheB f' = fz_cacheB f"
  by (auto simp: fuser_start_def Let_def split: prod.splits option.splits if_splits)

lemma six_dof_new_tasks: "six_dof_new Y E now csv s = Some s' \<Longrightarrow> sx_tasks s' = sx_tasks s"
  by (auto simp: six_dof_new_def Let_def initFusionCsv_def split: prod.splits option.splits if_splits)

lemma output_new_props:
  assumes "output_new Y cid now_str now cfg0 (m0, s) = Some (calls, m, s')" "out_ok B s"
  shows "m = register_callbacks now_str m0 \<and> out_ok B s' \<and> od_is_running s' = od_is_running s"
  using assms by (auto simp: output_new_def Let_def out_ok_def split: prod.splits option.splits if_splits)

lemma output_new_messages: "output_new Y cid now_str now cfg0 (m0, s) = Some (calls, m, s') \<Longrightarrow> messages_ok s' = messages_ok s"
  by (auto simp: output_new_def Let_def messages_ok_def split: prod.splits option.splits if_splits)

lemma notify_running:
  "od_is_running (foldl (notify (Some (push_callback now_str)) (Some db_callback)) s es) = od_is_running s"
proof (induction es arbitrary: s)
  case (Cons e es)
  have "od_is_running (snd (push_callback now_str s e)) = od_is_running s"
    by (auto simp: push_callback_def pushRealTimeError_def Let_def note_overflow_def split: option.splits)
  then show ?case using Cons by (simp add: notify_def db_callback_def writeErrorToDatabase_def Let_def)
qed simp

lemma registered:
  "sm_push_callback (register_callbacks now_str m) = Some (push_callback now_str)"
  "sm_db_callback (register_callbacks now_str m) = Some db_callback"
  by (simp_all add: register_callbacks_def cbyd_defs)

text \<open>What \<open>main_build\<close> leaves, for a fresh environment.\<close>

lemma main_build_props:
  assumes "main_build W = Some p" "fresh_world W"
  shows "all_q P (pg_cloudA p) \<and> all_q P (pg_cloudB p) \<and> all_q Q (pg_fuse_cloud p) \<and> all_q R (pg_six_dof p)"
    "rq_cap (pg_cloudA p) = 100 \<and> rq_cap (pg_cloudB p) = 100 \<and> rq_cap (pg_fuse_cloud p) = 100 \<and> rq_cap (pg_six_dof p) = 100"
    "pg_acq p = wd_acq0 W \<and> pg_fuser p = wd_fuser0 W \<and> sx_tasks (pg_calc p) = [] \<and> pg_logger p = main_logger W"
    "out_ok B (pg_out p) \<and> \<not> od_is_running (pg_out p)"
    "sm_push_callback (pg_manager p) = Some (push_callback (wd_now_str W)) \<and> sm_db_callback (pg_manager p) = Some db_callback"
    "messages_ok (pg_out p)"
proof -
  obtain qa qb qf qr calc calls m out where
    q: "rq_new (wd_max_size W) (wd_raw0 W) 100 = Inr qa" "rq_new (wd_max_size W) (wd_raw0 W) 100 = Inr qb"
      "rq_new (wd_max_size W) (wd_fused0 W) 100 = Inr qf" "rq_new (wd_max_size W) (wd_result0 W) 100 = Inr qr"
    and calc: "six_dof_new (wd_yaml W) (wd_eigen W) (wd_steady_now W) (wd_csv_file W) (wd_calc0 W) = Some calc"
    and out: "output_new (wd_yaml W) (wd_client_id W) (wd_now_str W) (wd_now W) (wd_monitor0 W) (sm_init, wd_out0 W)
      = Some (calls, m, out)"
    and p: "p = \<lparr>pg_logger = main_logger W, pg_cloudA = qa, pg_cloudB = qb, pg_fuse_cloud = qf, pg_six_dof = qr,
        pg_acq = wd_acq0 W, pg_fuser = wd_fuser0 W, pg_calc = calc, pg_out = snd (sm_run (m, out) calls),
        pg_manager = fst (sm_run (m, out) calls)\<rparr>"
    using assms(1) by (auto simp: main_build_def split_beta split: sum.splits option.splits)
  have W: "unat (wd_max_size W) \<le> 2 ^ 63" using assms(2) by (simp add: fresh_world_def)
  show "all_q P (pg_cloudA p) \<and> all_q P (pg_cloudB p) \<and> all_q Q (pg_fuse_cloud p) \<and> all_q R (pg_six_dof p)"
    "rq_cap (pg_cloudA p) = 100 \<and> rq_cap (pg_cloudB p) = 100 \<and> rq_cap (pg_fuse_cloud p) = 100 \<and> rq_cap (pg_six_dof p) = 100"
    using q [THEN rq_new_wf, OF W] q [THEN rq_new_list] by (simp_all add: p all_q_def)
  show "pg_acq p = wd_acq0 W \<and> pg_fuser p = wd_fuser0 W \<and> sx_tasks (pg_calc p) = [] \<and> pg_logger p = main_logger W"
    using six_dof_new_tasks [OF calc] assms(2) by (simp add: p fresh_world_def)
  have "out_ok B (wd_out0 W)" using assms(2) by (simp add: fresh_world_def out_ok_def all_q_def)
  note o = output_new_props [OF out this]
  then have cb: "sm_push_callback m = Some (push_callback (wd_now_str W))" "sm_db_callback m = Some db_callback"
    by (simp_all add: registered)
  show "out_ok B (pg_out p) \<and> \<not> od_is_running (pg_out p)"
    using sm_run_ok [OF cb, of B out calls] o assms(2) cb by (simp add: p fresh_world_def sm_run_world notify_running)
  show "sm_push_callback (pg_manager p) = Some (push_callback (wd_now_str W)) \<and> sm_db_callback (pg_manager p) = Some db_callback"
    using cb by (simp add: p sm_run_callbacks)
  have "messages_ok (wd_out0 W)" using assms(2) by (simp add: fresh_world_def messages_ok_def all_q_def)
  then show "messages_ok (pg_out p)" using sm_run_messages [OF cb, of out calls] output_new_messages [OF out] by (simp add: p)
qed

lemma main_start_props:
  assumes "main_start W = Some p" "fresh_world W"
  shows "pipe_ok B (pipe_of ptsA ptsB p)" "pipe_shape (pipe_of ptsA ptsB p)" "reporting (pipe_of ptsA ptsB p)"
    "sm_state (pg_manager p) = RUNNING" "od_is_running (pg_out p)"
    "rq_cap (pg_cloudA p) = 100 \<and> rq_cap (pg_cloudB p) = 100 \<and> rq_cap (pg_fuse_cloud p) = 100 \<and> rq_cap (pg_six_dof p) = 100"
proof -
  obtain b a f where b: "main_build W = Some b" and a: "acq_start (wd_yaml W) (pg_acq b) = Some a"
    and f: "fuser_start (wd_yaml W) (wd_eigen W) (pg_fuser b) = Some f"
    and p: "p = b\<lparr>pg_acq := a, pg_fuser := f, pg_calc := six_dof_start (pg_calc b),
        pg_out := snd (sm_run (pg_manager b, snd (output_start (pg_out b))) (fst (output_start (pg_out b)))),
        pg_manager := fst (sm_run (pg_manager b, snd (output_start (pg_out b))) (fst (output_start (pg_out b))))\<rparr>"
    using assms(1) by (auto simp: main_start_def split_beta split: option.splits)
  note mb = main_build_props [OF b assms(2)]
  have start: "output_start (pg_out b) = ([Set_state RUNNING], (pg_out b)\<lparr>od_is_running := True\<rparr>)"
    using mb(4) [of B] by (simp add: output_start_def)
  have run: "sm_run (pg_manager b, t) [Set_state RUNNING] = (setState RUNNING (pg_manager b), t)" for t
    by (simp add: sm_run_def)
  have out: "out_ok B ((pg_out b)\<lparr>od_is_running := True\<rparr>)" using mb(4) [of B] by (simp add: out_ok_def)
  have cache: "fz_cacheA f = []" "fz_cacheB f = []"
    using fuser_start_caches [OF f] mb(3) assms(2) by (simp_all add: fresh_world_def)
  show "pipe_ok B (pipe_of ptsA ptsB p)"
    unfolding pipe_ok_def
    using mb(1,3,5) out cache
    by (intro conjI exI [of _ "wd_now_str W"])
      (simp_all add: p start run pipe_of_def radar_frame_def setState_def six_dof_start_def)
  show "pipe_shape (pipe_of ptsA ptsB p)" using mb(2) cache by (simp add: pipe_shape_def pipe_of_def p)
  have "messages_ok ((pg_out b)\<lparr>od_is_running := True\<rparr>)" using mb(6) by (simp add: messages_ok_def)
  then show "reporting (pipe_of ptsA ptsB p)"
    using mb(5) by (auto simp: p start run pipe_of_def reporting_def setState_def)
  show "sm_state (pg_manager p) = RUNNING" "od_is_running (pg_out p)" by (simp_all add: p start run setState_def)
  show "rq_cap (pg_cloudA p) = 100 \<and> rq_cap (pg_cloudB p) = 100 \<and> rq_cap (pg_fuse_cloud p) = 100 \<and> rq_cap (pg_six_dof p) = 100"
    using mb(2) by (simp add: p)
qed

lemma main_start_unconfigured:
  assumes "fresh_world W" "\<And>path. y_load (wd_yaml W) path = None"
  shows "\<exists>p. main_start W = Some p \<and> aq_threads (pg_acq p) = aq_threads (wd_acq0 W)
     \<and> fz_thread (pg_fuser p) = fz_thread (wd_fuser0 W) \<and> sx_workers (pg_calc p) = sx_workers (wd_calc0 W)
     \<and> od_worker_running (pg_out p) = od_worker_running (wd_out0 W)"
proof -
  have l: "loadLidarConfigs (wd_yaml W) path lc = (False, lc)" "loadMonitorConfig (wd_yaml W) path mc = Some (False, mc)" for path lc mc
    using assms(2) by (simp_all add: loadLidarConfigs_def loadMonitorConfig_def)
  have "\<not> wd_max_size W < 100" using assms(1) by (simp add: fresh_world_def not_less)
  then have q: "rq_new (wd_max_size W) d 100 = Inr (fresh 100 d)" for d :: 'd by (simp add: rq_new_def fresh_def)
  have a: "acq_start (wd_yaml W) s = Some s" for s by (simp add: acq_start_def l)
  have f: "fuser_start (wd_yaml W) (wd_eigen W) (wd_fuser0 W) = Some ((wd_fuser0 W)\<lparr>fz_is_running := True\<rparr>)"
    using assms(1) by (simp add: fuser_start_def l fresh_world_def)
  have c: "six_dof_new (wd_yaml W) (wd_eigen W) now csv s = Some (s\<lparr>sx_pool_running := True\<rparr>)" for now csv s
    by (simp add: six_dof_new_def l)
  have o: "output_new (wd_yaml W) cid now_str now cfg0 (m, s)
      = Some ([], register_callbacks now_str m, s\<lparr>od_mqtt_cfg := rg_mqtt_cfg cfg0\<rparr>)" for cid now_str now cfg0 m s
    by (simp add: output_new_def l Let_def)
  show ?thesis
    using assms(1)
    by (simp add: main_start_def main_build_def q a f c o sm_run_def output_start_def fresh_world_def six_dof_start_def)
qed


definition sample_world :: "(ynode, motion) world" where
  "sample_world =
     \<lparr>wd_yaml = tree_yaml (\<lambda>_. None), wd_eigen = motion_eigen, wd_max_size = 2 ^ 40, wd_day = ''2026-07-07'',
      wd_last_day = ''2026-07-08'', wd_build_time = [], wd_steady_now = 0, wd_now = 0, wd_now_str = [], wd_client_id = [],
      wd_csv_file = None, wd_raw0 = frame_at 0, wd_fused0 = single (frame_at 0), wd_result0 = sample_result None,
      wd_acq0 = sample_acquirer\<lparr>aq_is_running := False, aq_threads := False\<rparr>, wd_fuser0 = sample_fuser undefined [] [],
      wd_calc0 = (sample_dof None)\<lparr>sx_is_running := False, sx_workers := 0\<rparr>, wd_monitor0 = blank_monitor,
      wd_out0 = (sample_output (fresh SOLVE_MAX_QUEUE (sample_result None)) (fresh MQTT_DATA_MAX_QUEUE blank_packet))
        \<lparr>od_is_running := False, od_worker_running := False\<rparr>\<rparr>"

lemma sample_world_fresh: "fresh_world sample_world"
  by (simp add: fresh_world_def sample_world_def sample_acquirer_def sample_fuser_def sample_dof_def sample_output_def
      fresh_props SOLVE_MAX_QUEUE_def MQTT_DATA_MAX_QUEUE_def MQTT_ERR_MAX_QUEUE_def)


section \<open>Stop\<close>

text \<open>
  The end of the program. Whatever the threads did in between, when \<open>main\<close> returns no stage is
  running, no thread of the acquirer or the fuser is left, the state is \<open>IDLE\<close>, the MQTT client is
  stopped, and the logger is closed. The message that announces this is sent to the logger
  after its shutdown and is never written.
\<close>

theorem main_exit_spec:
  assumes "main_fun W life argv = Ran p" "main_start W = Some p1"
  shows "\<not> aq_is_running (pg_acq p) \<and> \<not> aq_threads (pg_acq p) \<and> \<not> fz_is_running (pg_fuser p) \<and> \<not> fz_thread (pg_fuser p)
     \<and> \<not> sx_is_running (pg_calc p) \<and> \<not> sx_pool_running (pg_calc p) \<and> \<not> od_is_running (pg_out p) \<and> \<not> od_worker_running (pg_out p)
     \<and> \<not> mt_running (od_mqtt (pg_out p)) \<and> sm_state (pg_manager p) = IDLE
     \<and> il_logger (pg_logger p) = None \<and> il_written (pg_logger p) = il_written (pg_logger (life p1))"
proof -
  have p: "p = (main_stop W (life p1))\<lparr>pg_out := output_delete (pg_out (main_stop W (life p1)))\<rparr>"
    using assms by (auto simp: main_fun_def split: if_splits)
  have "il_written (Flush day l) = il_written l" for day l
    by (simp add: Flush_def build_logger_def RebuildDailyRotateSink_def split: option.splits)
  then show ?thesis
    by (simp add: p main_stop_def output_stop_def sm_run_def setState_def acq_stop_def fuser_stop_def six_dof_stop_def
        output_delete_def mqtt_stop_def main_log_def LogMsg_def Shutdown_def free_cli_def conn_callback_def
        Let_def split_beta split: option.splits)
qed

theorem main_exit_spec_witness:
  "\<exists>p. main_fun sample_world id [''cbyd''] = Ran p \<and> sm_state (pg_manager p) = IDLE \<and> il_logger (pg_logger p) = None"
proof -
  obtain p1 where p1: "main_start sample_world = Some p1"
    using main_start_unconfigured [OF sample_world_fresh] by (auto simp: sample_world_def tree_yaml_def)
  then obtain p where p: "main_fun sample_world id [''cbyd''] = Ran p" by (simp add: main_fun_def)
  then show ?thesis using main_exit_spec [OF p p1] by blast
qed

end
