(* ===== verification/Spec2Isabelle.thy ===== *)
theory Spec2Isabelle
  imports Ring_Queue_Conc Wharf_Dock Lidar_Stream Lidar_Config Lidar_Base Live_Acquisition Program
begin

text \<open>
  \<^bold>\<open>The program.\<close> CBYD watches a ship at a berth with two lidars. It is a pipeline of four stages, each
  with its own threads, joined by bounded ring queues of capacity 100:

    \<^item> the \<^emph>\<open>acquirer\<close> (\<open>src/src/point_cloud_acquirer.cpp\<close>) feeds one queue of frames per lidar; it uses
      the lidar SDK (\<open>src/include/LSSDK/Include\<close>) to receive packets and the background subtraction
      (\<open>lidar_bg_diff.cpp\<close>) to find the ship;
    \<^item> the \<^emph>\<open>fuser\<close> (\<open>point_cloud_fuser.cpp\<close>) pairs frames by time stamp and merges them in the coordinates
      of lidar A;
    \<^item> the \<^emph>\<open>six degree of freedom calculator\<close> (\<open>six_dof_calculator.cpp\<close>) dispatches fused frames to a pool
      of six workers, which register each against a base frame and compute the pose in dock
      coordinates;
    \<^item> the \<^emph>\<open>outputter\<close> (\<open>data_outputter.cpp\<close>) computes bow and stern positions and accelerations and
      publishes them, and the errors reported to the \<^emph>\<open>state manager\<close> (\<open>system_state_manager.cpp\<close>),
      through the \<^emph>\<open>MQTT client\<close> (\<open>industrial_mqtt_client.cpp\<close>).

  \<open>main.cpp\<close> builds and starts the stages in this order and stops them in the reverse order. Beside
  the pipeline stand the mooring check (\<open>wharf_dock_checker.cpp\<close>), the logger (\<open>Logger.cpp\<close>) and the
  removal of old dumps (\<open>file_clean.cpp\<close>).

  \<^bold>\<open>The theories.\<close> Each component has its theory: its members as a record, its operations as functions
  on it with the names of the source, its loops as the function of one pass, then the lemmas and
  properties. \<open>Cbyd_Prelude\<close> holds what they share: word types, ring distances, sliding windows
  (\<open>last_n\<close>), string search.

    \<^item> \<open>Ring_Queue\<close>: \<open>LockFreeRingQueue\<close> of \<open>lock_free_queue.h\<close> on 64-bit indices. The locale \<open>bounded_fifo\<close> is
      the contract of a bounded queue; its interpretation \<open>rq\<close> shows that the ring is one, with one
      slot less than its capacity, and gives every client the facts about sequences of
      operations and about the waiting loop \<open>while (!enqueue(x) && is_running_) sleep\<close> (\<open>enq_retry\<close>).
      \<open>Ring_Queue_Conc\<close>: the same code with its atomic accesses interleaved and acquire loads that may
      read old values. With one producer and one consumer it is a queue and its plain buffer
      accesses never race; with two producers items are lost.
    \<^item> \<open>System_State\<close>: \<open>SystemStateManager\<close>; the effect of any sequence of reports and state changes.
    \<^item> \<open>Clouds\<close>, \<open>Config_Loader\<close>: points, rotations and the laws of Eigen's affine transforms; the
      configuration files read through yaml-cpp, statement by statement, so that a failure in the middle
      leaves the members written so far.
    \<^item> \<open>Bg_Diff\<close>, \<open>Wharf_Dock\<close>: foreground extraction, clustering and the ship status, shown to be a function
      of the current visit; the window of the mooring check and its base frame, and a counterexample for
      the fitted wharf line.
    \<^item> \<open>Lidar_Sdk\<close>, \<open>Lidar_Point\<close>, \<open>Lidar_LS\<close>, \<open>Lidar_Config\<close>: \<open>GetLidarData\<close> and \<open>GetLidarData_LS\<close>. Packet reception
      and status; the mirror geometry, whose points lie at the measured distance; the decoder, shown
      to split any packet into frames at the markers (locale \<open>echo_decoder\<close>, interpreted for single and
      double echo), to keep its invariant and to stamp points within a packet's interval; the
      configuration packet and the round trip of the four address setters (locale \<open>ip_setter\<close>).
      \<open>Lidar_Stream\<close>: the receiving threads, the decoder and the polling application interleaved at the points
      where they see each other. For every interleaving the published frames are those of the packets in the order of
      arrival, cut at the markers (\<open>ref_frames\<close>); the success flag, however, can belong to the next frame.
      \<open>Lidar_Base\<close>: the sockets of the base class, with the descriptors they leave open, and its unsupported
      operations.
    \<^item> \<open>Point_Fuser\<close>: the caches and the matching loop, shown to produce exactly the greedy pairing of
      frames less than 500 ns apart, to return whenever its consumer makes progress, and to starve when
      one lidar is silent.
    \<^item> \<open>Six_Dof\<close>: registration with its fallbacks, dock motion, Euler angles, base frame, CSV rows, the bounded
      task queue and the bounded retry of the result queue. \<open>Worker_Pool\<close>: dispatcher, workers, consumer and \<open>stop\<close>
      interleaved at their locks. No frame is computed twice or lost without being counted, a
      stopped pool drains within a bounded number of steps, and results can overtake each other.
    \<^item> \<open>Mqtt_Client\<close>: the client as a step function of its worker thread, the caller and the library's events;
      which handles are live, that a lost connection is set up again, and the faults of \<open>stop\<close> and of a restart. \<open>Data_Output\<close>: queues that should
      drop their oldest items, positions and accelerations, error texts, the passes of the four loops.
    \<^item> \<open>Log_Files\<close>: the logger and \<open>CleanOldPcdLinux\<close>.
    \<^item> \<open>Acquirer\<close>: the lidar threads as they are compiled, and the locale \<open>thread_owner\<close> for components with
      a running flag and thread objects, interpreted for the acquirer and the fuser. \<open>Live_Acquisition\<close>:
      the block at the head of both lidar loops that \<open>#if 0\<close> removes, shown to pass on exactly the
      frames of a ship that lies stable and to report a silent lidar under its own address.
    \<^item> \<open>Pipeline\<close>: the four stages with their queues as one machine whose steps are the passes of the
      component theories. Properties from end to end: the fixed time stamp of the acquirer reaches every
      published packet and makes every published acceleration zero; a reported error reaches the broker.
      \<open>Pipeline_Progress\<close>: no pass of a thread gets stuck, also during the stop, except where the solve thread
      reads an uninitialised ship length; and every message sent is of one of two JSON types.
    \<^item> \<open>Program\<close>: \<open>main\<close>: what holds after start, also when no configuration can be read, and after
      the orderly stop.

  \<^bold>\<open>Conventions.\<close> Machine integers that can wrap are words (queue indices, time stamps, bytes); \<open>int\<close>
  members are integers where no operation of the code can leave their range; \<open>float\<close> and \<open>double\<close> are real
  numbers, so rounding, infinities and NaN are outside the model. An uninitialised member and a null
  pointer are \<open>None\<close>, an exception or undefined behaviour is \<open>Inl\<close> or \<open>None\<close>, as the theory says.
  The clock, the calendar, file contents, number formatting and the answers of sockets and of the
  file system are arguments. PCL, Eigen, yaml-cpp, libhv and the JSON printer are records of functions;
  what the code relies on is stated as named laws (\<open>nn_law\<close>, \<open>cluster_law\<close>, \<open>minmax_law\<close>, \<open>eigen_law\<close>,
  \<open>fallback_law\<close>, \<open>is_fixed2\<close> for the number format), and every property that assumes one has a witness with a concrete instance.

  \<^bold>\<open>Loops and fuel.\<close> Loops over data are total functions. A loop of a thread is modelled by one pass, and
  runs are lists of passes or actions, or reachable states. The waiting loops take a schedule of what
  other threads do during each sleep, and \<open>None\<close> means that the schedule ended while still waiting;
  the properties on progress show that one sleep with a consumer that takes an item is enough. The
  retry of a worker ends after six attempts by its own counter. \<open>drop_loop\<close> is a partial function whose
  termination is proved. No other bound is used.

  \<^bold>\<open>Not modelled.\<close> The vendored libraries; \<open>IncludeFile.h\<close>, which selects a lidar class by macros; the branches for
  Windows; commented-out functions; \<open>formatFloat\<close>, which is only used in code that \<open>#if 0\<close> removes; the
  camera threads, which only print; log and console texts, except those of the logger
  itself and of \<open>main\<close>. Data races on plain members are not part of the step granularity, except where a
  theory says so (the ring buffer in \<open>Ring_Queue_Conc\<close>, the success flag in \<open>Lidar_Stream\<close>), and are recorded as
  findings where they were seen.
\<close>

end
